(* ===== verification/Prelude.thy ===== *)
theory Prelude
imports Main "HOL-Library.AList"
begin

text \<open>
  What the components share: the strings and maps of the JavaScript runtime, the
  operator \<open>??\<close>, the collections of facts the component proofs simplify with, and a few
  generic lemmas on lists and maps.

  A JavaScript string is a sequence of UTF-16 code units, so \<open>js_string\<close> is a list of
  numbers and \<open>length\<close> counts what \<open>String.length\<close> counts. A literal is written
  \<open>js ''...''\<close>. A JavaScript \<open>Map\<close> keeps its insertion order and updates a present key in
  place, which is \<open>AList.update\<close>; \<open>map_of\<close> reads it and \<open>AList.delete\<close> removes a key.
\<close>

named_theorems wire_simps \<open>facts about the text and number formats\<close>
named_theorems row_simps \<open>facts about the requests on one table row\<close>
named_theorems step_simps \<open>unfolding facts of handlers and machine steps\<close>
named_theorems inv_intros \<open>preservation facts of the invariants\<close>

section \<open>Strings\<close>

type_synonym js_string = "nat list"

definition js :: "string \<Rightarrow> js_string" where
  "js s = map of_char s"

lemma js_Nil [simp]: "js [] = []"
  by (simp add: js_def)

lemma js_Cons: "js (c # s) = of_char c # js s"
  by (simp add: js_def)

lemma js_append [simp]: "js (s @ t) = js s @ js t"
  by (simp add: js_def)

lemma js_eq_Nil [simp]: "js s = [] \<longleftrightarrow> s = []" "[] = js s \<longleftrightarrow> s = []"
  by (auto simp: js_def)

lemma length_js [simp]: "length (js s) = length s"
  by (simp add: js_def)

lemma inj_of_char: "(of_char c :: nat) = of_char d \<longleftrightarrow> c = d"
  by (metis char_of_char)

lemma js_eq_iff [simp]: "js s = js t \<longleftrightarrow> s = t"
  by (auto simp: js_def inj_map_eq_map inj_def inj_of_char)

section \<open>Nullish coalescing\<close>

text \<open>\<open>a ?? b\<close>: \<open>undefined\<close> and \<open>null\<close> are the value None.\<close>

definition nullish :: "'a option \<Rightarrow> 'a \<Rightarrow> 'a" where
  "nullish a b = (case a of None \<Rightarrow> b | Some x \<Rightarrow> x)"

lemma nullish_simps [simp]: "nullish None b = b" "nullish (Some a) b = a"
  by (simp_all add: nullish_def)

section \<open>Maps with insertion order\<close>

type_synonym ('k, 'v) js_map = "('k \<times> 'v) list"

definition js_keys :: "('k, 'v) js_map \<Rightarrow> 'k list" where
  "js_keys m = map fst m"

definition js_has :: "('k, 'v) js_map \<Rightarrow> 'k \<Rightarrow> bool" where
  "js_has m k \<longleftrightarrow> map_of m k \<noteq> None"

definition js_map_ok :: "('k, 'v) js_map \<Rightarrow> bool" where
  "js_map_ok m \<longleftrightarrow> distinct (js_keys m)"

lemma js_has_iff: "js_has m k \<longleftrightarrow> k \<in> set (js_keys m)"
  by (auto simp: js_has_def js_keys_def map_of_eq_None_iff)

lemma js_map_ok_Nil [simp]: "js_map_ok []"
  by (simp add: js_map_ok_def js_keys_def)

lemma js_map_ok_update [simp, intro]: "js_map_ok m \<Longrightarrow> js_map_ok (AList.update k v m)"
  by (simp add: js_map_ok_def js_keys_def distinct_update)

lemma js_map_ok_delete [simp, intro]: "js_map_ok m \<Longrightarrow> js_map_ok (AList.delete k m)"
  by (simp add: js_map_ok_def js_keys_def distinct_delete)

lemma map_of_update [simp]: "map_of (AList.update k v m) = (map_of m)(k \<mapsto> v)"
  by (simp add: update_conv')

lemma map_of_delete [simp]: "map_of (AList.delete k m) = (map_of m)(k := None)"
  by (simp add: delete_conv')

lemma js_has_update [simp]: "js_has (AList.update k v m) j \<longleftrightarrow> j = k \<or> js_has m j"
  by (auto simp: js_has_def)

lemma js_has_delete [simp]: "js_has (AList.delete k m) j \<longleftrightarrow> j \<noteq> k \<and> js_has m j"
  by (auto simp: js_has_def)

section \<open>Outcomes\<close>

text \<open>
  A call that may throw returns \<open>Inl\<close> of the error or \<open>Inr\<close> of its value. Only the fact that
  something was thrown is observable to the callers modelled here, so the error carries the
  message it was raised with where the code builds one, and nothing else.
\<close>

type_synonym 'a outcome = "js_string + 'a"

definition threw :: "'a outcome \<Rightarrow> bool" where
  "threw r \<longleftrightarrow> (case r of Inl _ \<Rightarrow> True | Inr _ \<Rightarrow> False)"

lemma threw_simps [simp]: "threw (Inl e)" "\<not> threw (Inr v)"
  by (simp_all add: threw_def)

section \<open>Lists\<close>

lemma sum_list_append_single [simp]:
  "sum_list (xs @ [x]) = sum_list xs + (x :: 'a :: comm_monoid_add)"
  by simp

lemma takeWhile_all_append:
  "\<forall>x \<in> set xs. P x \<Longrightarrow> (case ys of [] \<Rightarrow> True | y # _ \<Rightarrow> \<not> P y) \<Longrightarrow>
    takeWhile P (xs @ ys) = xs"
  by (cases ys) (auto simp: takeWhile_append)

lemma dropWhile_all_append:
  "\<forall>x \<in> set xs. P x \<Longrightarrow> (case ys of [] \<Rightarrow> True | y # _ \<Rightarrow> \<not> P y) \<Longrightarrow>
    dropWhile P (xs @ ys) = ys"
  by (cases ys) (auto simp: dropWhile_append)

lemma apfst_append_simps [simp]:
  "apfst ((@) []) p = p"
  "apfst ((@) xs) (apfst ((@) ys) p) = apfst ((@) (xs @ ys)) p"
  by (cases p; simp)+

lemma dropWhile_Cons_length: "dropWhile P xs = y # ys \<Longrightarrow> length ys < length xs"
  using length_dropWhile_le [of P xs] by simp

lemma length_dropWhile_less_eq [simp]: "length (dropWhile P xs) \<le> length xs"
  by (rule length_dropWhile_le)

section \<open>Texts in pieces\<close>

lemma split_at_separator:
  "c \<notin> set xs \<Longrightarrow> c \<notin> set xs' \<Longrightarrow> xs @ c # ys = xs' @ c # ys' \<Longrightarrow> xs = xs' \<and> ys = ys'"
  by (induction xs arbitrary: xs') (auto simp: Cons_eq_append_conv append_eq_Cons_conv)

text \<open>\<open>text.split('\n')\<close>.\<close>

function split_lines :: "js_string \<Rightarrow> js_string list" where
  "split_lines s =
     (case dropWhile (\<lambda>ch. ch \<noteq> 10) s of
        [] \<Rightarrow> [s]
      | nl # rest \<Rightarrow> takeWhile (\<lambda>ch. ch \<noteq> 10) s # split_lines rest)"
  by pat_completeness auto
termination by (relation "measure length") (auto dest: dropWhile_Cons_length)

declare split_lines.simps [simp del]

lemma split_lines_not_Nil [simp]: "split_lines s \<noteq> []" "[] \<noteq> split_lines s"
  by (subst split_lines.simps; simp split: list.split)+

lemma split_lines_plain: "10 \<notin> set s \<Longrightarrow> split_lines s = [s]"
proof -
  assume "10 \<notin> set s"
  then have "dropWhile (\<lambda>ch. ch \<noteq> 10) s = []" by (auto simp: dropWhile_eq_Nil_conv)
  then show ?thesis by (subst split_lines.simps) (simp only: list.case)
qed

lemma split_lines_line: "10 \<notin> set a \<Longrightarrow> split_lines (a @ 10 # s) = a # split_lines s"
proof -
  assume "10 \<notin> set a"
  then have "\<forall>ch \<in> set a. ch \<noteq> 10" by auto
  then have "dropWhile (\<lambda>ch. ch \<noteq> 10) (a @ 10 # s) = 10 # s" "takeWhile (\<lambda>ch. ch \<noteq> 10) (a @ 10 # s) = a"
    by (simp_all add: dropWhile_all_append takeWhile_all_append)
  then show ?thesis by (subst split_lines.simps) (simp only: list.case)
qed

lemma last_piece_plain: "10 \<notin> set (last (split_lines s))"
proof (induction s rule: split_lines.induct)
  case (1 s)
  show ?case
  proof (cases "10 \<in> set s")
    case False
    then show ?thesis by (simp add: split_lines_plain)
  next
    case True
    then obtain x y where s: "s = x @ 10 # y" "10 \<notin> set x" by (meson split_list_first)
    then have "\<forall>ch \<in> set x. ch \<noteq> 10" by auto
    then have "dropWhile (\<lambda>ch. ch \<noteq> 10) s = 10 # y" by (simp add: s dropWhile_all_append)
    from 1 [OF this] show ?thesis using s(2) by (simp add: s(1) split_lines_line)
  qed
qed

text \<open>Cutting a text and its continuation: the last piece of the first goes on.\<close>

lemma split_lines_append:
  "split_lines (a @ b) = butlast (split_lines a) @ split_lines (last (split_lines a) @ b)"
proof (induction a rule: split_lines.induct)
  case (1 a)
  show ?case
  proof (cases "10 \<in> set a")
    case False
    then show ?thesis by (simp add: split_lines_plain)
  next
    case True
    then obtain x y where a: "a = x @ 10 # y" "10 \<notin> set x" by (meson split_list_first)
    then have "\<forall>ch \<in> set x. ch \<noteq> 10" by auto
    then have "dropWhile (\<lambda>ch. ch \<noteq> 10) a = 10 # y" by (simp add: a dropWhile_all_append)
    from 1 [OF this] show ?thesis using a(2) by (simp add: a(1) split_lines_line)
  qed
qed

text \<open>What is relied on of a UTF-8 coder: it is the identity on ASCII.\<close>

definition ascii_identity :: "(nat list \<Rightarrow> nat list) \<Rightarrow> bool" where
  "ascii_identity f \<longleftrightarrow> (\<forall>s. list_all (\<lambda>c. c < 128) s \<longrightarrow> f s = s)"

end
