(* ===== verification/Json.thy ===== *)
theory Json
imports Prelude
begin

text \<open>
  The numbers of the JavaScript runtime and its \<open>JSON.parse\<close> and \<open>JSON.stringify\<close>, as far
  as the program uses them: every value that crosses a process or a network boundary here
  (the helper's frames, the SSM key parameters, the floor reset request) is one.

  A number is an IEEE double. What the code asks of a number is whether it is an integer
  and where it lies, so a finite double is \<open>JInt\<close> of its value when that is an integer and
  \<open>JFrac m k\<close> (the value \<open>m / 2^k\<close>) otherwise; \<open>-0\<close> is \<open>JInt 0\<close>, since no operation of the
  program tells the two zeros apart. Reading a decimal rounds it to the nearest double, ties
  to even. The parser takes fuel for its recursion; \<open>json_parse\<close> gives it two units per
  code unit and two more, which \<open>parse_value_fuel\<close> shows is enough: no larger amount gives
  another result.
\<close>

declare js_Cons [simp]

section \<open>Numbers\<close>

datatype jsnum = JInt int | JFrac int nat | JInf bool | JNaN

text \<open>The integers that every double holds exactly: \<open>Number.MAX_SAFE_INTEGER\<close> is \<open>2^53 - 1\<close>.\<close>

definition max_safe_integer :: int where
  "max_safe_integer = 2 ^ 53 - 1"

fun is_integer :: "jsnum \<Rightarrow> bool" where
  "is_integer (JInt i) = True"
| "is_integer _ = False"

definition is_safe_integer :: "jsnum \<Rightarrow> bool" where
  "is_safe_integer n = (case n of JInt i \<Rightarrow> \<bar>i\<bar> \<le> max_safe_integer | _ \<Rightarrow> False)"

fun floor_log2 :: "nat \<Rightarrow> nat" where
  "floor_log2 n = (if n < 2 then 0 else Suc (floor_log2 (n div 2)))"

declare floor_log2.simps [simp del]

definition half_even :: "nat \<Rightarrow> nat \<Rightarrow> nat" where
  "half_even n d = (let q = n div d; r = n mod d in
     if 2 * r < d \<or> 2 * r = d \<and> even q then q else Suc q)"

fun dyadic :: "int \<Rightarrow> nat \<Rightarrow> jsnum" where
  "dyadic m k =
     (if k = 0 then JInt m
      else if even m then dyadic (m div 2) (k - 1)
      else JFrac m k)"

declare dyadic.simps [simp del]

text \<open>The exponent of the last place of the double nearest to \<open>n / d\<close>.\<close>

definition ulp_exp :: "nat \<Rightarrow> nat \<Rightarrow> int" where
  "ulp_exp n d =
     (let e0 = int (floor_log2 n) - int (floor_log2 d);
          below = (if 0 \<le> e0 then n < d * 2 ^ nat e0 else n * 2 ^ nat (- e0) < d)
      in max ((if below then e0 - 1 else e0) - 52) (- 1074))"

text \<open>The least magnitude that rounds to infinity.\<close>

definition double_limit :: nat where
  "double_limit = 2 ^ 1024"

definition round_double :: "bool \<Rightarrow> nat \<Rightarrow> nat \<Rightarrow> jsnum" where
  "round_double neg n d =
     (let e = ulp_exp n d;
          sg = (if neg then - 1 else 1)
      in if 0 \<le> e then
           (let v = half_even n (d * 2 ^ nat e) * 2 ^ nat e
            in if double_limit \<le> v then JInf neg else JInt (sg * int v))
         else dyadic (sg * int (half_even (n * 2 ^ nat (- e)) d)) (nat (- e)))"

section \<open>Code units\<close>

definition is_digit :: "nat \<Rightarrow> bool" where
  "is_digit c \<longleftrightarrow> 48 \<le> c \<and> c \<le> 57"

text \<open>JSON's white space: tab, line feed, carriage return and space.\<close>

definition json_ws :: "nat \<Rightarrow> bool" where
  "json_ws c \<longleftrightarrow> c = 32 \<or> c = 9 \<or> c = 10 \<or> c = 13"

text \<open>The white space that \<open>trim\<close> removes (the WhiteSpace and LineTerminator productions).\<close>

definition js_space :: "nat \<Rightarrow> bool" where
  "js_space c \<longleftrightarrow> (9 \<le> c \<and> c \<le> 13) \<or> c = 32 \<or> c = 160 \<or> c = 5760 \<or>
     (8192 \<le> c \<and> c \<le> 8202) \<or> c = 8232 \<or> c = 8233 \<or> c = 8239 \<or> c = 8287 \<or>
     c = 12288 \<or> c = 65279"

definition js_trim :: "js_string \<Rightarrow> js_string" where
  "js_trim s = rev (dropWhile js_space (rev (dropWhile js_space s)))"

definition hex_value :: "nat \<Rightarrow> nat option" where
  "hex_value c =
     (if 48 \<le> c \<and> c \<le> 57 then Some (c - 48)
      else if 65 \<le> c \<and> c \<le> 70 then Some (c - 55)
      else if 97 \<le> c \<and> c \<le> 102 then Some (c - 87)
      else None)"

definition is_hex :: "nat \<Rightarrow> bool" where
  "is_hex c \<longleftrightarrow> hex_value c \<noteq> None"

section \<open>Decimal literals\<close>

definition digits_value :: "js_string \<Rightarrow> nat" where
  "digits_value ds = foldl (\<lambda>a c. 10 * a + (c - 48)) 0 ds"

definition span_digits :: "js_string \<Rightarrow> js_string \<times> js_string" where
  "span_digits s = (takeWhile is_digit s, dropWhile is_digit s)"

text \<open>The double of \<open>ds.fs * 10^e\<close>.\<close>

definition decimal_value :: "bool \<Rightarrow> js_string \<Rightarrow> js_string \<Rightarrow> int \<Rightarrow> jsnum" where
  "decimal_value neg ds fs e =
     (let x = e - int (length fs); n = digits_value (ds @ fs)
      in if 0 \<le> x then round_double neg (n * 10 ^ nat x) 1
         else round_double neg n (10 ^ nat (- x)))"

text \<open>An exponent part: Some of its value and the rest; None when a marker has no digits.\<close>

definition parse_exp :: "js_string \<Rightarrow> (int \<times> js_string) option" where
  "parse_exp s =
     (case s of
        c # r \<Rightarrow>
          (if c = 101 \<or> c = 69 then
             (let (neg, r') = (case r of d # q \<Rightarrow> if d = 45 then (True, q)
                                           else if d = 43 then (False, q) else (False, r)
                                | [] \<Rightarrow> (False, r));
                  (es, rest) = span_digits r'
              in if es = [] then None
                 else Some ((if neg then - 1 else 1) * int (digits_value es), rest))
           else Some (0, s))
      | [] \<Rightarrow> Some (0, s))"

text \<open>JSON's number: an optional minus, an integer part with no leading zero, an optional
  fraction with at least one digit, an optional exponent.\<close>

definition parse_number :: "js_string \<Rightarrow> (jsnum \<times> js_string) option" where
  "parse_number s =
     (let (neg, s1) = (case s of c # r \<Rightarrow> if c = 45 then (True, r) else (False, s)
                        | [] \<Rightarrow> (False, s));
          (ds, s2) = (case s1 of c # r \<Rightarrow> if c = 48 then ([c], r) else span_digits s1
                        | [] \<Rightarrow> ([], s1))
      in if ds = [] then None
         else (let (ok, fs, s3) =
                 (case s2 of c # r \<Rightarrow>
                    (if c = 46 then (let (gs, q) = span_digits r in (gs \<noteq> [], gs, q))
                     else (True, [], s2))
                  | [] \<Rightarrow> (True, [], s2))
               in if \<not> ok then None
                  else (case parse_exp s3 of None \<Rightarrow> None
                        | Some (e, rest) \<Rightarrow> Some (decimal_value neg ds fs e, rest))))"

section \<open>Number of a string\<close>

text \<open>
  \<open>Number(s)\<close>: white space around is dropped, the empty string is 0, hexadecimal, binary
  and octal prefixes are read, a decimal may have a sign, leading zeros and a bare point;
  anything else is NaN.
\<close>

definition radix_value :: "nat \<Rightarrow> js_string \<Rightarrow> jsnum" where
  "radix_value b ds =
     (if ds \<noteq> [] \<and> (\<forall>c \<in> set ds. case hex_value c of None \<Rightarrow> False | Some v \<Rightarrow> v < b)
      then round_double False
             (foldl (\<lambda>a c. b * a + (case hex_value c of None \<Rightarrow> 0 | Some v \<Rightarrow> v)) 0 ds) 1
      else JNaN)"

definition unsigned_decimal :: "bool \<Rightarrow> js_string \<Rightarrow> jsnum" where
  "unsigned_decimal neg s =
     (if s = js ''Infinity'' then JInf neg
      else let (ds, s2) = span_digits s;
               (fs, s3) = (case s2 of c # r \<Rightarrow> if c = 46 then span_digits r else ([], s2)
                           | [] \<Rightarrow> ([], s2))
           in if ds = [] \<and> fs = [] then JNaN
              else (case parse_exp s3 of Some (e, []) \<Rightarrow> decimal_value neg ds fs e
                    | _ \<Rightarrow> JNaN))"

definition number_of :: "js_string \<Rightarrow> jsnum" where
  "number_of str =
     (case js_trim str of
        [] \<Rightarrow> JInt 0
      | c # r \<Rightarrow>
          (case r of
             d # q \<Rightarrow>
               (if c = 48 \<and> (d = 120 \<or> d = 88) then radix_value 16 q
                else if c = 48 \<and> (d = 98 \<or> d = 66) then radix_value 2 q
                else if c = 48 \<and> (d = 111 \<or> d = 79) then radix_value 8 q
                else if c = 45 then unsigned_decimal True r
                else if c = 43 then unsigned_decimal False r
                else unsigned_decimal False (c # r))
           | [] \<Rightarrow> unsigned_decimal False [c]))"

section \<open>Number to string\<close>

fun nat_digits :: "nat \<Rightarrow> js_string" where
  "nat_digits n = (if n < 10 then [48 + n] else nat_digits (n div 10) @ [48 + n mod 10])"

declare nat_digits.simps [simp del]

definition int_string :: "int \<Rightarrow> js_string" where
  "int_string i = (if i < 0 then 45 # nat_digits (nat (- i)) else nat_digits (nat i))"

section \<open>Values\<close>

text \<open>
  An object keeps the order its keys were first seen in; a repeated key keeps its place and
  takes the last value, as \<open>JSON.parse\<close> does.
\<close>

datatype jsval =
    JNull
  | JBool bool
  | JNum jsnum
  | JStr js_string
  | JArr "jsval list"
  | JObj "(js_string \<times> jsval) list"

text \<open>\<open>value[name]\<close> of a record; None is \<open>undefined\<close>.\<close>

definition field :: "(js_string \<times> jsval) list \<Rightarrow> string \<Rightarrow> jsval option" where
  "field ob name = map_of ob (js name)"

section \<open>JSON.parse\<close>

definition skip_ws :: "js_string \<Rightarrow> js_string" where
  "skip_ws s = dropWhile json_ws s"

definition hex4 :: "js_string \<Rightarrow> (nat \<times> js_string) option" where
  "hex4 s =
     (case s of
        a # b # c # d # r \<Rightarrow>
          (case (hex_value a, hex_value b, hex_value c, hex_value d) of
             (Some w, Some x, Some y, Some z) \<Rightarrow>
               Some (4096 * w + 256 * x + 16 * y + z, r)
           | _ \<Rightarrow> None)
      | _ \<Rightarrow> None)"

text \<open>The code unit a one-letter escape stands for.\<close>

definition short_escape :: "nat \<Rightarrow> nat option" where
  "short_escape e =
     (if e = 34 \<or> e = 92 \<or> e = 47 then Some e
      else if e = 98 then Some 8
      else if e = 102 then Some 12
      else if e = 110 then Some 10
      else if e = 114 then Some 13
      else if e = 116 then Some 9
      else None)"

text \<open>The rest of a string literal, after its opening quote.\<close>

fun parse_chars :: "nat \<Rightarrow> js_string \<Rightarrow> (js_string \<times> js_string) option" where
  "parse_chars 0 s = None"
| "parse_chars (Suc n) [] = None"
| "parse_chars (Suc n) (c # r) =
     (if c = 34 then Some ([], r)
      else if c = 92 then
        (case r of
           [] \<Rightarrow> None
         | e # q \<Rightarrow>
             (if e = 117 then
                (case hex4 q of
                   None \<Rightarrow> None
                 | Some (u, q') \<Rightarrow> map_option (apfst ((#) u)) (parse_chars n q'))
              else
                (case short_escape e of
                   None \<Rightarrow> None
                 | Some u \<Rightarrow> map_option (apfst ((#) u)) (parse_chars n q))))
      else if c < 32 then None
      else map_option (apfst ((#) c)) (parse_chars n r))"

definition strip_prefix :: "js_string \<Rightarrow> js_string \<Rightarrow> js_string option" where
  "strip_prefix p s = (if take (length p) s = p then Some (drop (length p) s) else None)"

definition parse_word :: "string \<Rightarrow> jsval \<Rightarrow> js_string \<Rightarrow> (jsval \<times> js_string) option" where
  "parse_word w v s = map_option (Pair v) (strip_prefix (js w) s)"

fun parse_value :: "nat \<Rightarrow> js_string \<Rightarrow> (jsval \<times> js_string) option"
and parse_elements :: "nat \<Rightarrow> js_string \<Rightarrow> (jsval list \<times> js_string) option"
and parse_members ::
  "nat \<Rightarrow> (js_string \<times> jsval) list \<Rightarrow> js_string \<Rightarrow>
    ((js_string \<times> jsval) list \<times> js_string) option"
where
  "parse_value 0 s = None"
| "parse_value (Suc n) s =
     (case skip_ws s of
        [] \<Rightarrow> None
      | c # r \<Rightarrow>
          (if c = 123 then
             (case skip_ws r of
                [] \<Rightarrow> None
              | d # q \<Rightarrow>
                  (if d = 125 then Some (JObj [], q)
                   else map_option (apfst JObj) (parse_members n [] (d # q))))
           else if c = 91 then
             (case skip_ws r of
                [] \<Rightarrow> None
              | d # q \<Rightarrow>
                  (if d = 93 then Some (JArr [], q)
                   else map_option (apfst JArr) (parse_elements n (d # q))))
           else if c = 34 then map_option (apfst JStr) (parse_chars n r)
           else if c = 116 then parse_word ''true'' (JBool True) (c # r)
           else if c = 102 then parse_word ''false'' (JBool False) (c # r)
           else if c = 110 then parse_word ''null'' JNull (c # r)
           else map_option (apfst JNum) (parse_number (c # r))))"
| "parse_elements 0 s = None"
| "parse_elements (Suc n) s =
     (case parse_value n s of
        None \<Rightarrow> None
      | Some (v, r) \<Rightarrow>
          (case skip_ws r of
             [] \<Rightarrow> None
           | c # q \<Rightarrow>
               (if c = 93 then Some ([v], q)
                else if c = 44 then map_option (apfst ((#) v)) (parse_elements n q)
                else None)))"
| "parse_members 0 ob s = None"
| "parse_members (Suc n) ob s =
     (case skip_ws s of
        [] \<Rightarrow> None
      | c # r \<Rightarrow>
          (if c \<noteq> 34 then None
           else
             (case parse_chars n r of
                None \<Rightarrow> None
              | Some (k, r1) \<Rightarrow>
                  (case skip_ws r1 of
                     [] \<Rightarrow> None
                   | d # r2 \<Rightarrow>
                       (if d \<noteq> 58 then None
                        else
                          (case parse_value n r2 of
                             None \<Rightarrow> None
                           | Some (v, r3) \<Rightarrow>
                               (case skip_ws r3 of
                                  [] \<Rightarrow> None
                                | e # r4 \<Rightarrow>
                                    (let ob' = AList.update k v ob in
                                     if e = 125 then Some (ob', r4)
                                     else if e = 44 then parse_members n ob' r4
                                     else None))))))))"

declare parse_value.simps [simp del] parse_elements.simps [simp del]
  parse_members.simps [simp del] parse_chars.simps [simp del]

text \<open>None is the \<open>SyntaxError\<close> the callers catch.\<close>

definition json_parse :: "js_string \<Rightarrow> jsval option" where
  "json_parse s =
     (case parse_value (2 * length s + 2) s of
        Some (v, r) \<Rightarrow> (if skip_ws r = [] then Some v else None)
      | None \<Rightarrow> None)"

section \<open>JSON.stringify\<close>

definition hex_digit :: "nat \<Rightarrow> nat" where
  "hex_digit n = (if n < 10 then 48 + n else 87 + n)"

definition unicode_escape :: "nat \<Rightarrow> js_string" where
  "unicode_escape c =
     [92, 117, hex_digit (c div 4096 mod 16), hex_digit (c div 256 mod 16),
      hex_digit (c div 16 mod 16), hex_digit (c mod 16)]"

definition surrogate :: "nat \<Rightarrow> bool" where
  "surrogate c \<longleftrightarrow> 55296 \<le> c \<and> c \<le> 57343"

definition leading :: "nat \<Rightarrow> bool" where
  "leading c \<longleftrightarrow> 55296 \<le> c \<and> c \<le> 56319"

definition trailing :: "nat \<Rightarrow> bool" where
  "trailing c \<longleftrightarrow> 56320 \<le> c \<and> c \<le> 57343"

definition quote_unit :: "nat \<Rightarrow> js_string" where
  "quote_unit c =
     (if c = 34 \<or> c = 92 then [92, c]
      else if c = 8 then [92, 98]
      else if c = 12 then [92, 102]
      else if c = 10 then [92, 110]
      else if c = 13 then [92, 114]
      else if c = 9 then [92, 116]
      else if c < 32 then unicode_escape c
      else [c])"

text \<open>A surrogate is written as it is when it is one half of a pair and escaped otherwise.\<close>

fun quote_units :: "js_string \<Rightarrow> js_string" where
  "quote_units [] = []"
| "quote_units [c] = (if surrogate c then unicode_escape c else quote_unit c)"
| "quote_units (c # d # r) =
     (if leading c \<and> trailing d then c # d # quote_units r
      else (if surrogate c then unicode_escape c else quote_unit c) @ quote_units (d # r))"

definition json_string :: "js_string \<Rightarrow> js_string" where
  "json_string s = 34 # quote_units s @ [34]"

text \<open>
  Only numbers that are integers are ever written here; \<open>stringifiable\<close> says so, and what is
  outside of it is not given a text that \<open>JSON.stringify\<close> would not produce.
\<close>

fun json_text :: "jsval \<Rightarrow> js_string"
and elements_text :: "jsval list \<Rightarrow> js_string"
and members_text :: "(js_string \<times> jsval) list \<Rightarrow> js_string"
where
  "json_text JNull = js ''null''"
| "json_text (JBool b) = (if b then js ''true'' else js ''false'')"
| "json_text (JNum n) = (case n of JInt i \<Rightarrow> int_string i | _ \<Rightarrow> js ''null'')"
| "json_text (JStr s) = json_string s"
| "json_text (JArr vs) = 91 # elements_text vs @ [93]"
| "json_text (JObj kvs) = 123 # members_text kvs @ [125]"
| "elements_text [] = []"
| "elements_text [v] = json_text v"
| "elements_text (v # w # vs) = json_text v @ 44 # elements_text (w # vs)"
| "members_text [] = []"
| "members_text [(k, v)] = json_string k @ 58 # json_text v"
| "members_text ((k, v) # m # ms) =
     json_string k @ 58 # json_text v @ 44 # members_text (m # ms)"

definition code_units :: "js_string \<Rightarrow> bool" where
  "code_units s \<longleftrightarrow> (\<forall>c \<in> set s. c < 65536)"

fun stringifiable :: "jsval \<Rightarrow> bool" where
  "stringifiable JNull = True"
| "stringifiable (JBool b) = True"
| "stringifiable (JNum n) = is_safe_integer n"
| "stringifiable (JStr s) = code_units s"
| "stringifiable (JArr vs) = (\<forall>v \<in> set vs. stringifiable v)"
| "stringifiable (JObj kvs) =
     (distinct (map fst kvs) \<and> (\<forall>kv \<in> set kvs. code_units (fst kv) \<and> stringifiable (snd kv)))"

section \<open>Facts about numbers\<close>

lemma floor_log2_bounds: "n \<noteq> 0 \<Longrightarrow> 2 ^ floor_log2 n \<le> n \<and> n < 2 ^ Suc (floor_log2 n)"
proof (induction n rule: floor_log2.induct)
  case (1 n)
  show ?case
  proof (cases "n < 2")
    case True
    with 1 show ?thesis by (simp add: floor_log2.simps [of n])
  next
    case False
    with 1 have "2 ^ floor_log2 (n div 2) \<le> n div 2 \<and> n div 2 < 2 ^ Suc (floor_log2 (n div 2))"
      by simp
    with False show ?thesis by (auto simp: floor_log2.simps [of n])
  qed
qed

lemma floor_log2_less:
  assumes "n < 2 ^ Suc k"
  shows "floor_log2 n \<le> k"
proof (cases "n = 0")
  case True
  then show ?thesis by (simp add: floor_log2.simps)
next
  case False
  with assms have "(2::nat) ^ floor_log2 n < 2 ^ Suc k"
    using floor_log2_bounds [OF False] by linarith
  then show ?thesis by (simp only: power_strict_increasing_iff less_Suc_eq_le)
qed

lemma half_even_one [simp]: "half_even n (Suc 0) = n"
  by (simp add: half_even_def)

lemma dyadic_exact: "dyadic (m * 2 ^ k) k = JInt m"
proof (induction k arbitrary: m)
  case 0
  then show ?case by (simp add: dyadic.simps)
next
  case (Suc k)
  have "dyadic (m * 2 ^ Suc k) (Suc k) = dyadic (m * 2 ^ k) k"
    by (subst dyadic.simps) (simp add: mult.assoc)
  then show ?case by (simp add: Suc)
qed

lemma ulp_exp_small: "n < 2 ^ 53 \<Longrightarrow> ulp_exp n (Suc 0) \<le> 0"
  using floor_log2_less [of n 52] by (simp add: ulp_exp_def Let_def floor_log2.simps [of "Suc 0"])

lemma below_double_limit: "n < 2 ^ 53 \<Longrightarrow> n < double_limit"
  unfolding double_limit_def by (erule less_le_trans) (rule power_increasing, simp_all)

text \<open>An integer of at most 53 bits is read exactly.\<close>

lemma round_double_exact [wire_simps]:
  assumes "n < 2 ^ 53"
  shows "round_double neg n (Suc 0) = JInt (if neg then - int n else int n)"
proof -
  define e where "e = ulp_exp n (Suc 0)"
  have "e \<le> 0" unfolding e_def using assms by (rule ulp_exp_small)
  show ?thesis
  proof (cases "e = 0")
    case True
    then show ?thesis using below_double_limit [OF assms]
      by (simp add: round_double_def e_def [symmetric] Let_def)
  next
    case False
    with \<open>e \<le> 0\<close> have "round_double neg n (Suc 0) =
        dyadic ((if neg then - int n else int n) * 2 ^ nat (- e)) (nat (- e))"
      by (simp add: round_double_def e_def [symmetric] Let_def)
    then show ?thesis by (simp only: dyadic_exact)
  qed
qed

section \<open>Facts about digits\<close>

lemma nat_digits_digits [simp]: "\<forall>c \<in> set (nat_digits n). is_digit c"
proof (induction n rule: nat_digits.induct)
  case (1 n)
  show ?case
  proof (cases "n < 10")
    case True
    then show ?thesis by (simp add: nat_digits.simps [of n] is_digit_def)
  next
    case False
    with 1 show ?thesis by (auto simp: nat_digits.simps [of n] is_digit_def)
  qed
qed

lemma nat_digits_not_Nil [simp]: "nat_digits n \<noteq> []"
  by (subst nat_digits.simps) simp

lemma digits_value_snoc: "digits_value (ds @ [c]) = 10 * digits_value ds + (c - 48)"
  by (simp add: digits_value_def)

lemma digits_value_nat_digits [wire_simps]: "digits_value (nat_digits n) = n"
proof (induction n rule: nat_digits.induct)
  case (1 n)
  show ?case
  proof (cases "n < 10")
    case True
    then show ?thesis by (simp add: nat_digits.simps [of n] digits_value_def)
  next
    case False
    with 1 show ?thesis by (simp add: nat_digits.simps [of n] digits_value_snoc)
  qed
qed

text \<open>No leading zero, but for zero itself.\<close>

lemma nat_digits_hd: "hd (nat_digits n) = 48 \<longleftrightarrow> n = 0"
proof (induction n rule: nat_digits.induct)
  case (1 n)
  then show ?case by (subst nat_digits.simps) (auto simp: hd_append div_eq_0_iff)
qed

lemma nat_digits_0 [simp]: "nat_digits 0 = [48]"
  by (subst nat_digits.simps) simp

lemma nat_digits_inj [simp]: "nat_digits m = nat_digits n \<longleftrightarrow> m = n"
  by (metis digits_value_nat_digits)

lemma int_string_not_Nil [simp]: "int_string i \<noteq> []"
  by (simp add: int_string_def)

lemma int_string_inj [simp]: "int_string i = int_string j \<longleftrightarrow> i = j"
proof -
  have no_minus: "45 # xs \<noteq> nat_digits n" for xs n
  proof
    assume "45 # xs = nat_digits n"
    then have "is_digit 45" using nat_digits_digits [of n] by (metis list.set_intros(1))
    then show False by (simp add: is_digit_def)
  qed
  show ?thesis
    using no_minus no_minus [symmetric] by (auto simp: int_string_def)
qed

lemma nat_digits_no_sep: "\<not> is_digit c \<Longrightarrow> c \<notin> set (nat_digits n)"
  using nat_digits_digits by blast

section \<open>The parser consumes its input and has fuel enough\<close>

lemma parse_chars_shorter: "parse_chars n s = Some (t, r) \<Longrightarrow> length r < length s"
proof (induction n s arbitrary: t r rule: parse_chars.induct)
  case (3 n c s)
  then show ?case
    by (fastforce simp: parse_chars.simps hex4_def split: if_splits list.splits option.splits prod.splits)
qed (simp_all add: parse_chars.simps)

lemma length_skip_ws [simp]: "length (skip_ws s) \<le> length s"
  by (simp add: skip_ws_def)

lemma skip_ws_Cons_length: "skip_ws s = c # r \<Longrightarrow> length r < length s"
  using length_skip_ws [of s] by simp

lemma strip_prefix_shorter: "p \<noteq> [] \<Longrightarrow> strip_prefix p s = Some r \<Longrightarrow> length r < length s"
  by (cases "s = []") (auto simp: strip_prefix_def split: if_splits)

lemma span_digits_length: "span_digits s = (ds, r) \<Longrightarrow> length s = length ds + length r"
  by (auto simp: span_digits_def) (metis length_append takeWhile_dropWhile_id)

lemma parse_exp_length: "parse_exp s = Some (e, r) \<Longrightarrow> length r \<le> length s"
  by (auto simp: parse_exp_def Let_def split: list.splits if_splits prod.splits dest!: span_digits_length)

lemma parse_number_shorter:
  assumes "parse_number s = Some (v, r)"
  shows "length r < length s"
proof -
  obtain neg s1 where s1: "(case s of c # r \<Rightarrow> if c = 45 then (True, r) else (False, s)
                        | [] \<Rightarrow> (False, s)) = (neg, s1)" by fastforce
  then have l1: "length s1 \<le> length s" by (auto split: list.splits if_splits)
  obtain ds s2 where s2: "(case s1 of c # r \<Rightarrow> if c = 48 then ([c], r) else span_digits s1
                        | [] \<Rightarrow> ([], s1)) = (ds, s2)" by fastforce
  then have l2: "length s1 = length ds + length s2"
    by (auto split: list.splits if_splits dest: span_digits_length)
  obtain ok fs s3 where s3: "(case s2 of c # r \<Rightarrow>
                    (if c = 46 then (let (gs, q) = span_digits r in (gs \<noteq> [], gs, q))
                     else (True, [], s2))
                  | [] \<Rightarrow> (True, [], s2)) = (ok, fs, s3)" by (rule prod_cases3)
  then have l3: "length s3 \<le> length s2"
    by (auto simp: span_digits_def split: list.splits if_splits intro: le_SucI)
  from assms have "ds \<noteq> []"
    unfolding parse_number_def Let_def s1 prod.case s2 by (auto split: if_splits)
  moreover from assms have "\<exists>e. parse_exp s3 = Some (e, r)"
    unfolding parse_number_def Let_def s1 prod.case s2 s3 [unfolded Let_def]
    by (auto split: if_splits option.splits)
  ultimately show ?thesis using l1 l2 l3 parse_exp_length [of s3 _ r] by (cases ds) fastforce+
qed

lemma parse_shorter:
  "(\<forall>s v r. parse_value n s = Some (v, r) \<longrightarrow> length r < length s) \<and>
   (\<forall>s vs r. parse_elements n s = Some (vs, r) \<longrightarrow> length r < length s) \<and>
   (\<forall>s ob kvs r. parse_members n ob s = Some (kvs, r) \<longrightarrow> length r < length s)"
proof (induction n)
  case 0
  then show ?case by (simp add: parse_value.simps parse_elements.simps parse_members.simps)
next
  case (Suc n)
  have "length r < length s" if "parse_value (Suc n) s = Some (v, r)" for s v r
    using that Suc.IH
    by (auto simp: parse_value.simps parse_word_def split: list.splits if_splits
        dest!: skip_ws_Cons_length parse_chars_shorter strip_prefix_shorter [rotated] parse_number_shorter)
      (fastforce)+
  moreover have "length r < length s" if "parse_elements (Suc n) s = Some (vs, r)" for s vs r
    using that Suc.IH
    by (auto simp: parse_elements.simps split: list.splits if_splits option.splits prod.splits
        dest!: skip_ws_Cons_length)
      (fastforce)+
  moreover have "length r < length s" if "parse_members (Suc n) ob s = Some (kvs, r)" for s ob kvs r
    using that Suc.IH
    by (auto simp: parse_members.simps Let_def split: list.splits if_splits option.splits prod.splits
        dest!: skip_ws_Cons_length parse_chars_shorter)
      (fastforce)+
  ultimately show ?case by blast
qed

lemma parse_chars_fuel:
  "length s < n \<Longrightarrow> length s < m \<Longrightarrow> parse_chars n s = parse_chars m s"
proof (induction n arbitrary: s m)
  case 0
  then show ?case by simp
next
  case (Suc n)
  obtain k where m: "m = Suc k" using Suc.prems by (cases m) auto
  have sub: "parse_chars n q = parse_chars k q" if "length q < length s" for q
    using that Suc.prems by (intro Suc.IH) (auto simp: m)
  show ?case
  proof (cases s)
    case Nil
    then show ?thesis by (simp add: m parse_chars.simps)
  next
    case (Cons c r)
    have "parse_chars n q' = parse_chars k q'" if "r = e # q" "hex4 q = Some (u, q')" for e q u q'
      using that Cons by (intro sub) (auto simp: hex4_def split: list.splits option.splits)
    then show ?thesis
      by (auto simp: m Cons parse_chars.simps sub split: list.splits option.splits)
  qed
qed

lemma parse_value_shorter: "parse_value n s = Some (v, r) \<Longrightarrow> length r < length s"
  using parse_shorter by blast

lemma parse_fuel:
  "(\<forall>s m. 2 * length s + 1 \<le> n \<longrightarrow> 2 * length s + 1 \<le> m \<longrightarrow> parse_value n s = parse_value m s) \<and>
   (\<forall>s m. 2 * length s + 2 \<le> n \<longrightarrow> 2 * length s + 2 \<le> m \<longrightarrow>
      parse_elements n s = parse_elements m s) \<and>
   (\<forall>s ob m. 2 * length s + 2 \<le> n \<longrightarrow> 2 * length s + 2 \<le> m \<longrightarrow>
      parse_members n ob s = parse_members m ob s)"
proof (induction n)
  case 0
  then show ?case by simp
next
  case (Suc n)
  note IHv = Suc.IH [THEN conjunct1, rule_format]
    and IHe = Suc.IH [THEN conjunct2, THEN conjunct1, rule_format]
    and IHm = Suc.IH [THEN conjunct2, THEN conjunct2, rule_format]
  have v: "parse_value (Suc n) s = parse_value m s"
    if le: "2 * length s + 1 \<le> Suc n" "2 * length s + 1 \<le> m" for s m
  proof -
    obtain k where m: "m = Suc k" using le by (cases m) auto
    show ?thesis
    proof (cases "skip_ws s")
      case Nil
      then show ?thesis by (simp add: m parse_value.simps)
    next
      case (Cons c r)
      then have r: "length r < length s" by (rule skip_ws_Cons_length)
      then have chars: "parse_chars n r = parse_chars k r"
        using le by (intro parse_chars_fuel) (auto simp: m)
      have "parse_elements n q = parse_elements k q" "parse_members n ob q = parse_members k ob q"
        if "length q \<le> length r" for q ob
        using that r le by (auto simp: m intro: IHe IHm)
      moreover have "length (d # q) \<le> length r" if "skip_ws r = d # q" for d q
        using that length_skip_ws [of r] by simp
      ultimately show ?thesis
        by (auto simp: m parse_value.simps Cons chars split: list.splits)
    qed
  qed
  have e: "parse_elements (Suc n) s = parse_elements m s"
    if le: "2 * length s + 2 \<le> Suc n" "2 * length s + 2 \<le> m" for s m
  proof -
    obtain k where m: "m = Suc k" using le by (cases m) auto
    have val: "parse_value n s = parse_value k s" using le by (intro IHv) (auto simp: m)
    have "parse_elements n q = parse_elements k q"
      if "parse_value k s = Some (w, r)" "skip_ws r = c # q" for w r c q
    proof -
      have "length q < length s"
        using parse_value_shorter [OF that(1)] skip_ws_Cons_length [OF that(2)] by simp
      then show ?thesis
        using le by (intro IHe) (auto simp: m)
    qed
    then show ?thesis
      by (auto simp: m parse_elements.simps val split: list.splits option.splits)
  qed
  have mem: "parse_members (Suc n) ob s = parse_members m ob s"
    if le: "2 * length s + 2 \<le> Suc n" "2 * length s + 2 \<le> m" for s ob m
  proof -
    obtain k where m: "m = Suc k" using le by (cases m) auto
    have chars: "parse_chars n r = parse_chars k r" if "skip_ws s = c # r" for c r
      using skip_ws_Cons_length [OF that] le
      by (intro parse_chars_fuel) (auto simp: m)
    have val: "parse_value n r2 = parse_value k r2"
      if "skip_ws s = c # r" "parse_chars k r = Some (key, r1)" "skip_ws r1 = d # r2"
      for c r key r1 d r2
    proof -
      have "length r2 < length s"
        using skip_ws_Cons_length [OF that(1)] parse_chars_shorter [OF that(2)]
          skip_ws_Cons_length [OF that(3)] by simp
      then show ?thesis
        using le by (intro IHv) (auto simp: m)
    qed
    have rest: "parse_members n ob' r4 = parse_members k ob' r4"
      if "skip_ws s = c # r" "parse_chars k r = Some (key, r1)" "skip_ws r1 = d # r2"
        "parse_value k r2 = Some (w, r3)" "skip_ws r3 = e # r4"
      for c r key r1 d r2 w r3 e r4 ob'
    proof -
      have "length r4 < length s"
        using skip_ws_Cons_length [OF that(1)] parse_chars_shorter [OF that(2)]
          skip_ws_Cons_length [OF that(3)] parse_value_shorter [OF that(4)]
          skip_ws_Cons_length [OF that(5)] by simp
      then show ?thesis
        using le by (intro IHm) (auto simp: m)
    qed
    show ?thesis
      by (auto simp: m parse_members.simps chars val rest Let_def split: list.splits option.splits)
  qed
  show ?case using v e mem by blast
qed

lemma parse_value_fuel:
  "2 * length s + 1 \<le> n \<Longrightarrow> 2 * length s + 1 \<le> m \<Longrightarrow> parse_value n s = parse_value m s"
  using parse_fuel by blast

section \<open>Round trip\<close>

lemma hex_value_hex_digit [simp]: "n < 16 \<Longrightarrow> hex_value (hex_digit n) = Some n"
  by (simp add: hex_value_def hex_digit_def)

lemma hex_digit_ge: "48 \<le> hex_digit n" by (simp add: hex_digit_def)

lemma hex4_unicode:
  assumes "c < 65536"
  shows "hex4 (hex_digit (c div 4096 mod 16) # hex_digit (c div 256 mod 16) #
      hex_digit (c div 16 mod 16) # hex_digit (c mod 16) # r) = Some (c, r)"
proof -
  have "16 * d + x3 = b \<Longrightarrow> 16 * b + x2 = a \<Longrightarrow> 16 * a + x1 = c \<Longrightarrow>
      4096 * d + 256 * x3 + 16 * x2 + x1 = c" for a b d x1 x2 x3 :: nat
    by simp
  from this [OF mult_div_mod_eq mult_div_mod_eq mult_div_mod_eq]
  have "4096 * (c div 16 div 16 div 16) + 256 * (c div 16 div 16 mod 16) +
      16 * (c div 16 mod 16) + c mod 16 = c" .
  moreover have "c div 256 = c div 16 div 16" "c div 4096 = c div 16 div 16 div 16"
    by (simp_all flip: div_mult2_eq)
  moreover have "c div 4096 mod 16 = c div 4096" using assms by simp
  ultimately have "4096 * (c div 4096 mod 16) + 256 * (c div 256 mod 16) + 16 * (c div 16 mod 16)
      + c mod 16 = c" by metis
  then show ?thesis using assms by (simp add: hex4_def)
qed

lemma parse_chars_escape:
  assumes "c < 65536"
  shows "parse_chars (Suc n) (unicode_escape c @ r) = map_option (apfst ((#) c)) (parse_chars n r)"
  using hex4_unicode [OF assms, of r] by (simp add: unicode_escape_def parse_chars.simps(3))

lemma parse_chars_unit:
  assumes "c < 65536"
  shows "parse_chars (Suc n) (quote_unit c @ r) = map_option (apfst ((#) c)) (parse_chars n r)"
proof (cases "c < 32 \<and> c \<notin> {8, 9, 10, 12, 13}")
  case True
  then have "quote_unit c = unicode_escape c" by (simp add: quote_unit_def)
  then show ?thesis using parse_chars_escape [OF assms] by simp
next
  case False
  then show ?thesis
    by (auto simp: quote_unit_def parse_chars.simps(3) short_escape_def)
qed

lemma parse_chars_plain:
  "55296 \<le> c \<Longrightarrow> parse_chars (Suc n) (c # r) = map_option (apfst ((#) c)) (parse_chars n r)"
  by (simp add: parse_chars.simps(3))

lemma quote_unit_not_Nil [simp]: "quote_unit c \<noteq> []" "unicode_escape c \<noteq> []"
  by (auto simp: quote_unit_def unicode_escape_def)

lemma quote_units_length: "length s \<le> length (quote_units s)"
proof (induction s rule: quote_units.induct)
  case (3 c d r)
  then show ?case
    by (cases "quote_unit c"; cases "unicode_escape c") auto
qed (auto simp: Suc_le_eq)

lemma parse_quoted:
  "code_units s \<Longrightarrow> length s < n \<Longrightarrow> parse_chars n (quote_units s @ 34 # r) = Some (s, r)"
proof (induction s arbitrary: n rule: quote_units.induct)
  case 1
  then show ?case by (cases n) (simp_all add: parse_chars.simps)
next
  case (2 c)
  then obtain k where "n = Suc (Suc k)" by (cases n; cases "n - 1") auto
  with 2 show ?case
    by (simp add: code_units_def parse_chars_unit parse_chars_escape parse_chars.simps(3))
next
  case (3 c d s)
  then obtain k where n: "n = Suc (Suc k)" by (cases n; cases "n - 1") auto
  show ?case
  proof (cases "leading c \<and> trailing d")
    case True
    then have "quote_units (c # d # s) = c # d # quote_units s" by simp
    with True 3 show ?thesis
      by (simp add: n code_units_def parse_chars_plain leading_def trailing_def)
  next
    case False
    then have "quote_units (c # d # s) =
        (if surrogate c then unicode_escape c else quote_unit c) @ quote_units (d # s)"
      by (simp only: quote_units.simps if_False)
    with False 3 show ?thesis
      by (simp add: n code_units_def parse_chars_unit parse_chars_escape del: quote_units.simps)
  qed
qed

text \<open>What may follow a value inside a larger text: nothing, a comma or a closing bracket.\<close>

definition delimited :: "js_string \<Rightarrow> bool" where
  "delimited r \<longleftrightarrow> (case r of [] \<Rightarrow> True | c # _ \<Rightarrow> c = 44 \<or> c = 93 \<or> c = 125)"

lemma delimited_simps [simp]: "delimited []" "delimited (44 # r)" "delimited (93 # r)"
  "delimited (125 # r)"
  by (simp_all add: delimited_def)

lemma span_digits_append:
  "\<forall>c \<in> set ds. is_digit c \<Longrightarrow> delimited r \<Longrightarrow> span_digits (ds @ r) = (ds, r)"
  unfolding span_digits_def
  by (subst takeWhile_all_append dropWhile_all_append;
      auto simp: delimited_def is_digit_def split: list.splits)+

lemma parse_exp_delimited: "delimited r \<Longrightarrow> parse_exp r = Some (0, r)"
  by (auto simp: parse_exp_def delimited_def split: list.splits)

lemma parse_number_digits:
  assumes "delimited r" and "n < 2 ^ 53"
  shows "parse_number (nat_digits n @ r) = Some (JInt (int n), r)"
    and "parse_number (45 # nat_digits n @ r) = Some (JInt (- int n), r)"
proof -
  obtain c ds where d: "nat_digits n = c # ds" by (cases "nat_digits n") auto
  have c: "is_digit c" and ds: "\<forall>x \<in> set ds. is_digit x"
    using nat_digits_digits [of n] by (auto simp: d)
  then have neq: "c \<noteq> 45" by (auto simp: is_digit_def)
  have zero: "ds = []" if "c = 48"
    using that nat_digits_hd [of n] d by simp
  have span: "(if c = 48 then ([c], ds @ r) else span_digits (c # ds @ r)) = (c # ds, r)"
    using zero span_digits_append [of "c # ds" r] c ds assms(1) by auto
  have point: "(case r of x # q \<Rightarrow> (if x = 46 then (let (gs, q) = span_digits q in (gs \<noteq> [], gs, q))
      else (True, [], r)) | [] \<Rightarrow> (True, [], r)) = (True, [], r)"
    using assms(1) by (auto simp: delimited_def split: list.splits)
  have val: "decimal_value neg (c # ds) [] 0 = JInt (if neg then - int n else int n)" for neg
    using assms(2) digits_value_nat_digits [of n]
    by (simp add: decimal_value_def d round_double_exact Let_def)
  show "parse_number (nat_digits n @ r) = Some (JInt (int n), r)"
    using assms(1) neq
    by (simp add: parse_number_def d span point parse_exp_delimited val Let_def)
  show "parse_number (45 # nat_digits n @ r) = Some (JInt (- int n), r)"
    using assms(1)
    by (simp add: parse_number_def d span point parse_exp_delimited val Let_def)
qed

lemma parse_number_int_string:
  assumes "delimited r" and "is_safe_integer (JInt i)"
  shows "parse_number (int_string i @ r) = Some (JInt i, r)"
proof -
  have "nat \<bar>i\<bar> < 2 ^ 53"
    using assms(2) by (simp add: is_safe_integer_def max_safe_integer_def)
  from parse_number_digits [OF assms(1) this] show ?thesis
    by (cases "i < 0") (simp_all add: int_string_def)
qed

lemma skip_ws_Cons [simp]: "\<not> json_ws c \<Longrightarrow> skip_ws (c # r) = c # r"
  by (simp add: skip_ws_def)

lemma json_ws_numeral [simp]: "\<not> json_ws 34" "\<not> json_ws 44" "\<not> json_ws 58" "\<not> json_ws 91"
  "\<not> json_ws 93" "\<not> json_ws 110" "\<not> json_ws 116" "\<not> json_ws 102" "\<not> json_ws 123" "\<not> json_ws 125"
  by (simp_all add: json_ws_def)

lemma int_string_start:
  obtains c r where "int_string i = c # r" and "c = 45 \<or> is_digit c"
proof (cases "i < 0")
  case True
  then show ?thesis by (intro that [of 45 "nat_digits (nat (- i))"]) (simp_all add: int_string_def)
next
  case False
  obtain c r where c: "nat_digits (nat i) = c # r" by (cases "nat_digits (nat i)") auto
  then have "is_digit c" using nat_digits_digits [of "nat i"] by (metis list.set_intros(1))
  with False c show ?thesis by (intro that [of c r]) (simp_all add: int_string_def)
qed

lemma json_text_start:
  obtains c r where "json_text v = c # r" and "\<not> json_ws c" and "c \<noteq> 93" and "c \<noteq> 125"
proof (cases v)
  case (JNum n)
  show ?thesis
  proof (cases n)
    case (JInt i)
    obtain c r where "int_string i = c # r" "c = 45 \<or> is_digit c" by (rule int_string_start)
    with JNum JInt show ?thesis
      by (intro that [of c r]) (auto simp: is_digit_def json_ws_def)
  qed (use JNum that in \<open>simp_all\<close>)
next
  case (JBool b)
  then show ?thesis by (cases b) (use that in \<open>auto\<close>)
qed (use that in \<open>auto simp: json_string_def\<close>)

lemma strip_prefix_append [simp]: "strip_prefix p (p @ r) = Some r"
  by (simp add: strip_prefix_def)

lemma parse_value_string:
  "code_units s \<Longrightarrow> length s + 1 < n \<Longrightarrow> parse_value n (json_string s @ r) = Some (JStr s, r)"
  by (cases n) (simp_all add: parse_value.simps json_string_def parse_quoted)

lemma parse_value_number:
  assumes "delimited r" "is_safe_integer (JInt i)" "0 < n"
  shows "parse_value n (int_string i @ r) = Some (JNum (JInt i), r)"
proof -
  obtain c q where c: "int_string i = c # q" "c = 45 \<or> is_digit c" by (rule int_string_start)
  then show ?thesis
    using parse_number_int_string [OF assms(1,2)] assms(3)
    by (cases n) (auto simp: parse_value.simps is_digit_def json_ws_def)
qed

lemma update_fresh: "k \<notin> fst ` set ob \<Longrightarrow> AList.update k v ob = ob @ [(k, v)]"
  by (induction ob) auto

lemma parse_text:
  "stringifiable v \<Longrightarrow> delimited r \<Longrightarrow> 2 * length (json_text v) + 1 \<le> n \<Longrightarrow>
    parse_value n (json_text v @ r) = Some (v, r)"
  "vs \<noteq> [] \<Longrightarrow> \<forall>v \<in> set vs. stringifiable v \<Longrightarrow> 2 * length (elements_text vs) + 2 \<le> n \<Longrightarrow>
    parse_elements n (elements_text vs @ 93 # r) = Some (vs, r)"
  "kvs \<noteq> [] \<Longrightarrow> distinct (map fst (ob @ kvs)) \<Longrightarrow>
    \<forall>kv \<in> set kvs. code_units (fst kv) \<and> stringifiable (snd kv) \<Longrightarrow>
    2 * length (members_text kvs) + 2 \<le> n \<Longrightarrow>
    parse_members n ob (members_text kvs @ 125 # r) = Some (ob @ kvs, r)"
proof (induction v and vs and kvs arbitrary: n r and n r and n r ob
    rule: json_text_elements_text_members_text.induct)
  case 1
  then show ?case by (cases n) (simp_all add: parse_value.simps parse_word_def strip_prefix_def)
next
  case (2 b)
  then show ?case by (cases n; cases b) (simp_all add: parse_value.simps parse_word_def strip_prefix_def)
next
  case (3 m)
  then show ?case by (cases m) (simp_all add: parse_value_number is_safe_integer_def)
next
  case (4 s)
  have "length s + 1 < n"
    using 4 quote_units_length [of s] by (simp add: json_string_def)
  with 4 show ?case by (simp add: parse_value_string)
next
  case (5 vs)
  then obtain k where k: "n = Suc k" by (cases n) auto
  show ?case
  proof (cases vs)
    case Nil
    then show ?thesis by (simp add: k parse_value.simps)
  next
    case (Cons w ws)
    obtain c q where c: "elements_text vs = c # q" "\<not> json_ws c" "c \<noteq> 93"
      by (rule json_text_start [of w]) (cases ws; auto simp: Cons)
    have "parse_elements k (elements_text vs @ 93 # r) = Some (vs, r)"
      using 5 k Cons by simp
    then show ?thesis using c by (simp add: k parse_value.simps)
  qed
next
  case (6 kvs)
  then obtain k where k: "n = Suc k" by (cases n) auto
  show ?case
  proof (cases kvs)
    case Nil
    then show ?thesis by (simp add: k parse_value.simps)
  next
    case (Cons w ws)
    obtain q where c: "members_text kvs = 34 # q"
      by (cases w; cases ws) (auto simp: Cons json_string_def)
    have "parse_members k [] (members_text kvs @ 125 # r) = Some ([] @ kvs, r)"
      using 6 k Cons by (intro 6) auto
    then show ?thesis using c by (simp add: k parse_value.simps)
  qed
next
  case 7
  then show ?case by simp
next
  case (8 v)
  then obtain k where "n = Suc k" by (cases n) auto
  with 8 show ?case by (simp add: parse_elements.simps)
next
  case (9 v w vs)
  then obtain k where "n = Suc k" by (cases n) auto
  with 9 show ?case by (simp add: parse_elements.simps)
next
  case 10
  then show ?case by simp
next
  case (11 key v)
  then obtain k where n: "n = Suc k" by (cases n) auto
  have "length key < k" using 11 quote_units_length [of key] by (simp add: n json_string_def)
  with 11 show ?case
    by (simp add: n parse_members.simps json_string_def parse_quoted update_fresh)
next
  case (12 key v m ms)
  then obtain k where n: "n = Suc k" by (cases n) auto
  have l: "length key < k" using 12 quote_units_length [of key] by (simp add: n json_string_def)
  have v: "parse_value k (json_text v @ 44 # members_text (m # ms) @ 125 # r) =
      Some (v, 44 # members_text (m # ms) @ 125 # r)"
    using 12 by (simp add: n json_string_def)
  have ms: "parse_members k (ob @ [(key, v)]) (members_text (m # ms) @ 125 # r) =
      Some ((ob @ [(key, v)]) @ m # ms, r)"
    using 12(4,5,6) by (intro 12(2)) (auto simp: n json_string_def)
  show ?case
    using 12(4,5) l v ms
    by (simp add: n parse_members.simps json_string_def parse_quoted update_fresh)
qed

lemma json_round_trip:
  assumes "stringifiable v"
  shows "json_parse (json_text v) = Some v"
proof -
  have "parse_value (2 * length (json_text v) + 2) (json_text v @ []) = Some (v, [])"
    using assms by (intro parse_text) simp_all
  then show ?thesis by (simp add: json_parse_def skip_ws_def)
qed

declare js_Cons [simp del]

text \<open>A printed integer is read back by \<open>Number\<close>.\<close>

lemma js_trim_digits:
  assumes "\<forall>c \<in> set s. is_digit c"
  shows "js_trim s = s"
proof -
  have "\<not> js_space c" if "c \<in> set s" for c using assms that by (auto simp: is_digit_def js_space_def)
  then have "dropWhile js_space s = s" "dropWhile js_space (rev s) = rev s"
    by (auto simp: dropWhile_eq_self_iff last_in_set hd_rev)
  then show ?thesis by (simp add: js_trim_def)
qed

lemma number_of_digits:
  assumes "ds \<noteq> []" and "\<forall>c \<in> set ds. is_digit c"
  shows "number_of ds = decimal_value False ds [] 0"
proof -
  obtain c r where d: "ds = c # r" using assms(1) by (cases ds) auto
  have span: "span_digits (c # r) = (c # r, [])"
    using assms(2) span_digits_append [of "c # r" "[]"] by (simp add: delimited_def d)
  moreover have "c # r \<noteq> js ''Infinity''" using assms(2) by (auto simp: js_Cons is_digit_def d)
  ultimately have "unsigned_decimal False (c # r) = decimal_value False (c # r) [] 0"
    by (simp add: unsigned_decimal_def parse_exp_def)
  then show ?thesis
    using assms(2) by (auto simp: number_of_def d js_trim_digits is_digit_def split: list.splits)
qed

lemma number_of_nat_digits: "n < 2 ^ 53 \<Longrightarrow> number_of (nat_digits n) = JInt (int n)"
  by (simp add: number_of_digits decimal_value_def round_double_exact Let_def wire_simps)

lemma number_of_int_string: "0 \<le> i \<Longrightarrow> i \<le> max_safe_integer \<Longrightarrow> number_of (int_string i) = JInt i"
  using number_of_nat_digits [of "nat i"] by (simp add: int_string_def max_safe_integer_def)

end
