(* ===== verification/HelperProtocol.thy ===== *)
theory HelperProtocol
imports Json
begin

text \<open>
  The protocol between the port supervisor and its helper process
  (\<open>backend/src/SrtpHelperProtocol.ts\<close>): the frames the helper writes, one JSON object per
  line, the parser that never throws, the line splitter that takes any chunking, and the
  three commands the supervisor writes.

  \<open>push\<close> is shown equal, up to the reports it makes of what it discarded, to cutting the
  whole output into lines at once (\<open>stream_messages\<close>), and to keep its buffer within
  \<open>max_line_bytes\<close>. \<open>serializeCommand\<close> is shown to be read back by \<open>JSON.parse\<close> as the
  command that was written, on one line.
\<close>

section \<open>Commands\<close>

definition helper_protocol_version :: int where
  "helper_protocol_version = 3"

definition max_line_bytes :: nat where
  "max_line_bytes = 64 * 1024"

record helper_init =
  hi_v :: int
  hi_key :: js_string
  hi_cipher :: "js_string option"
  hi_auth :: "js_string option"
  hi_ssrc :: int
  hi_floor :: "int option"
  hi_search_from :: "int option"

datatype helper_command =
    InitCommand helper_init
  | StartCommand int
  | StopCommand int

text \<open>A property that is \<open>undefined\<close> is left out by \<open>JSON.stringify\<close>.\<close>

definition optional_member :: "string \<Rightarrow> ('a \<Rightarrow> jsval) \<Rightarrow> 'a option \<Rightarrow> (js_string \<times> jsval) list" where
  "optional_member name f v = (case v of None \<Rightarrow> [] | Some x \<Rightarrow> [(js name, f x)])"

definition integer_value :: "int \<Rightarrow> jsval" where
  "integer_value i = JNum (JInt i)"

fun command_value :: "helper_command \<Rightarrow> jsval" where
  "command_value (InitCommand c) =
     JObj ([(js ''type'', JStr (js ''init'')), (js ''v'', integer_value (hi_v c)),
            (js ''key'', JStr (hi_key c))] @
           optional_member ''cipher'' JStr (hi_cipher c) @
           optional_member ''auth'' JStr (hi_auth c) @
           [(js ''ssrc'', integer_value (hi_ssrc c))] @
           optional_member ''floor'' integer_value (hi_floor c) @
           optional_member ''searchFrom'' integer_value (hi_search_from c))"
| "command_value (StartCommand v) =
     JObj [(js ''type'', JStr (js ''start'')), (js ''v'', integer_value v)]"
| "command_value (StopCommand v) =
     JObj [(js ''type'', JStr (js ''stop'')), (js ''v'', integer_value v)]"

definition serializeCommand :: "helper_command \<Rightarrow> js_string" where
  "serializeCommand c = json_text (command_value c)"

section \<open>Frames\<close>

datatype helper_message =
    Ready int int "int option"
  | SearchingFrame int int
  | AuthOk bool int "int option" "int option" "int option" "int option"
  | AuthFail int "int option" "int option" "int option"
  | AuthExhausted int
  | AuthLost "int option" "int option"
  | IndexFrame int
  | ProducingFrame
  | StoppedFrame "int option"
  | Stats int int int int "int option" int
  | WarningFrame "js_string option" js_string
  | ErrorFrame "js_string option" js_string
  | FatalFrame js_string js_string
  | Eos
  | Unparsed js_string

text \<open>Reasons that will not be fixed by starting the helper again.\<close>

definition non_retryable :: "js_string list" where
  "non_retryable =
     [js ''bad-init'', js ''key-in-argv'', js ''unsafe-debug-env'', js ''missing-element'']"

definition isRetryableFatal :: "js_string \<Rightarrow> bool" where
  "isRetryableFatal reason \<longleftrightarrow> \<not> List.member non_retryable reason"

section \<open>Field validators\<close>

definition uint16_max :: int where "uint16_max = 0xffff"

definition uint32_max :: int where "uint32_max = 0xffffffff"

definition srtp_index_max :: int where "srtp_index_max = 2 ^ 48 - 1"

definition int_within :: "jsval option \<Rightarrow> int \<Rightarrow> int \<Rightarrow> int option" where
  "int_within value lo hi =
     (case value of
        Some (JNum (JInt i)) \<Rightarrow> (if lo \<le> i \<and> i \<le> hi then Some i else None)
      | _ \<Rightarrow> None)"

definition port_field :: "jsval option \<Rightarrow> int option" where
  "port_field value = int_within value 1 65535"

definition uint16_field :: "jsval option \<Rightarrow> int option" where
  "uint16_field value = int_within value 0 uint16_max"

definition uint32_field :: "jsval option \<Rightarrow> int option" where
  "uint32_field value = int_within value 0 uint32_max"

definition count_field :: "jsval option \<Rightarrow> int option" where
  "count_field value = int_within value 0 max_safe_integer"

definition index_field :: "jsval option \<Rightarrow> int option" where
  "index_field value = int_within value 0 srtp_index_max"

definition str_field :: "jsval option \<Rightarrow> js_string option" where
  "str_field value = (case value of Some (JStr s) \<Rightarrow> Some s | _ \<Rightarrow> None)"

section \<open>Parsing a line\<close>

definition parse_auth :: "helper_message \<Rightarrow> (js_string \<times> jsval) list \<Rightarrow> helper_message" where
  "parse_auth unparsed ob =
     (if field ob ''status'' = Some (JStr (js ''ok'')) then
        (case uint32_field (field ob ''roc'') of
           None \<Rightarrow> unparsed
         | Some roc \<Rightarrow>
             AuthOk (field ob ''first'' = Some (JBool True)) roc
               (uint16_field (field ob ''seq'')) (uint32_field (field ob ''candidate''))
               (count_field (field ob ''trials'')) (count_field (field ob ''authenticated'')))
      else if field ob ''status'' = Some (JStr (js ''fail'')) then
        (case uint32_field (field ob ''candidate'') of
           None \<Rightarrow> unparsed
         | Some candidate \<Rightarrow>
             AuthFail candidate (count_field (field ob ''inputs''))
               (count_field (field ob ''drops'')) (uint32_field (field ob ''searchFrom'')))
      else if field ob ''status'' = Some (JStr (js ''exhausted'')) then
        (case count_field (field ob ''trials'') of
           None \<Rightarrow> unparsed
         | Some trials \<Rightarrow> AuthExhausted trials)
      else if field ob ''status'' = Some (JStr (js ''lost'')) then
        AuthLost (count_field (field ob ''sinceMs'')) (count_field (field ob ''drops''))
      else unparsed)"

definition parse_stats :: "helper_message \<Rightarrow> (js_string \<times> jsval) list \<Rightarrow> helper_message" where
  "parse_stats unparsed ob =
     (case (count_field (field ob ''inputs''), count_field (field ob ''inputBytes''),
            count_field (field ob ''authenticated'')) of
        (Some inputs, Some inputBytes, Some authenticated) \<Rightarrow>
          Stats inputs inputBytes authenticated (nullish (count_field (field ob ''aus'')) 0)
            (uint32_field (field ob ''roc'')) (nullish (count_field (field ob ''drops'')) 0)
      | _ \<Rightarrow> unparsed)"

definition parse_record :: "helper_message \<Rightarrow> (js_string \<times> jsval) list \<Rightarrow> helper_message" where
  "parse_record unparsed ob =
     (case field ob ''t'' of
        Some (JStr t) \<Rightarrow>
          (if t = js ''ready'' then
             (case (port_field (field ob ''port''), count_field (field ob ''v'')) of
                (Some boundPort, Some v) \<Rightarrow> Ready v boundPort (count_field (field ob ''pid''))
              | _ \<Rightarrow> unparsed)
           else if t = js ''searching'' then
             (case (uint32_field (field ob ''candidate''), count_field (field ob ''trial'')) of
                (Some candidate, Some trial) \<Rightarrow> SearchingFrame candidate trial
              | _ \<Rightarrow> unparsed)
           else if t = js ''auth'' then parse_auth unparsed ob
           else if t = js ''index'' then
             (case index_field (field ob ''index'') of
                None \<Rightarrow> unparsed
              | Some index \<Rightarrow> IndexFrame index)
           else if t = js ''producing'' then ProducingFrame
           else if t = js ''stopped'' then StoppedFrame (index_field (field ob ''index''))
           else if t = js ''stats'' then parse_stats unparsed ob
           else if t = js ''warning'' then
             (case str_field (field ob ''message'') of
                None \<Rightarrow> unparsed
              | Some message \<Rightarrow> WarningFrame (str_field (field ob ''element'')) message)
           else if t = js ''error'' then
             (case str_field (field ob ''message'') of
                None \<Rightarrow> unparsed
              | Some message \<Rightarrow> ErrorFrame (str_field (field ob ''element'')) message)
           else if t = js ''fatal'' then
             (case str_field (field ob ''reason'') of
                None \<Rightarrow> unparsed
              | Some reason \<Rightarrow>
                  FatalFrame reason (nullish (str_field (field ob ''message'')) []))
           else if t = js ''eos'' then Eos
           else unparsed)
      | _ \<Rightarrow> unparsed)"

definition parseMessage :: "js_string \<Rightarrow> helper_message" where
  "parseMessage line =
     (let unparsed = Unparsed (take 200 line)
      in case json_parse line of
           Some (JObj ob) \<Rightarrow> parse_record unparsed ob
         | _ \<Rightarrow> unparsed)"

definition overlongLine :: "nat \<Rightarrow> helper_message" where
  "overlongLine len =
     Unparsed (js ''discarded an over-long line ('' @ int_string (int len) @ js '' bytes)'')"

section \<open>Cutting the output into lines\<close>

record protocol =
  pr_buffer :: js_string
  pr_overlong :: bool

definition new_protocol :: protocol where
  "new_protocol = \<lparr>pr_buffer = [], pr_overlong = False\<rparr>"

definition newline :: nat where "newline = 10"

text \<open>The loop of \<open>push\<close>: one round per complete line, returning what is left.\<close>

function push_lines :: "bool \<Rightarrow> js_string \<Rightarrow> helper_message list \<times> bool \<times> js_string" where
  "push_lines overlong buffer =
     (case dropWhile (\<lambda>c. c \<noteq> newline) buffer of
        [] \<Rightarrow> ([], overlong, buffer)
      | _ # rest \<Rightarrow>
          (let raw = takeWhile (\<lambda>c. c \<noteq> newline) buffer in
           if overlong then push_lines False rest
           else if length raw > max_line_bytes then
             apfst ((#) (overlongLine (length raw))) (push_lines False rest)
           else if length (js_trim raw) > 0 then
             apfst ((#) (parseMessage (js_trim raw))) (push_lines False rest)
           else push_lines False rest))"
  by pat_completeness auto
termination
  by (relation "measure (\<lambda>(overlong, buffer). length buffer)")
    (auto dest: dropWhile_Cons_length)

declare push_lines.simps [simp del]

definition push :: "js_string \<Rightarrow> protocol \<Rightarrow> helper_message list \<times> protocol" where
  "push chunk p =
     (case push_lines (pr_overlong p) (pr_buffer p @ chunk) of
        (messages, overlong, buffer) \<Rightarrow>
          (if length buffer > max_line_bytes
           then (messages @ [overlongLine (length buffer)],
                 \<lparr>pr_buffer = [], pr_overlong = True\<rparr>)
           else (messages, \<lparr>pr_buffer = buffer, pr_overlong = overlong\<rparr>)))"

fun push_all :: "js_string list \<Rightarrow> protocol \<Rightarrow> helper_message list \<times> protocol" where
  "push_all [] p = ([], p)"
| "push_all (c # cs) p =
     (case push c p of (ms, p') \<Rightarrow> (case push_all cs p' of (ms', q) \<Rightarrow> (ms @ ms', q)))"

section \<open>The output as one text\<close>

text \<open>The frames of a complete line, and of a text that starts inside the line \<open>cur\<close>: its
  frames, and the line it ends in.\<close>

definition is_frame :: "helper_message \<Rightarrow> bool" where
  "is_frame m \<longleftrightarrow> (case m of Unparsed _ \<Rightarrow> False | _ \<Rightarrow> True)"

definition line_frames :: "js_string \<Rightarrow> helper_message list" where
  "line_frames raw =
     (if length raw > max_line_bytes \<or> js_trim raw = [] then []
      else List.filter is_frame [parseMessage (js_trim raw)])"

fun feed :: "js_string \<Rightarrow> js_string \<Rightarrow> helper_message list \<times> js_string" where
  "feed cur [] = ([], cur)"
| "feed cur (c # s) =
     (if c = newline then apfst ((@) (line_frames cur)) (feed [] s) else feed (cur @ [c]) s)"

definition stream_frames :: "js_string \<Rightarrow> helper_message list" where
  "stream_frames s = fst (feed [] s)"

lemma feed_append: "feed cur (a @ b) = (case feed cur a of (fs, cur') \<Rightarrow> apfst ((@) fs) (feed cur' b))"
  by (induction cur a rule: feed.induct) (auto split: prod.splits)

lemma feed_plain: "newline \<notin> set s \<Longrightarrow> feed cur s = ([], cur @ s)"
  by (induction s arbitrary: cur) auto

lemma feed_line: "newline \<notin> set a \<Longrightarrow> feed cur (a @ newline # s) = apfst ((@) (line_frames (cur @ a))) (feed [] s)"
  by (simp add: feed_append feed_plain)

lemma feed_no_newline: "newline \<notin> set cur \<Longrightarrow> newline \<notin> set (snd (feed cur s))"
  by (induction cur s rule: feed.induct) auto

lemma not_frame_overlong [simp]: "\<not> is_frame (overlongLine n)"
  by (simp add: is_frame_def overlongLine_def)

lemma cut_line:
  assumes "dropWhile (\<lambda>c. c \<noteq> newline) buf = x # rest"
  obtains a where "buf = a @ newline # rest" "newline \<notin> set a" "takeWhile (\<lambda>c. c \<noteq> newline) buf = a"
proof
  have "x = newline" using assms by (metis (full_types) hd_dropWhile list.distinct(1) list.sel(1))
  then show "buf = takeWhile (\<lambda>c. c \<noteq> newline) buf @ newline # rest"
    using assms by (metis takeWhile_dropWhile_id)
  show "newline \<notin> set (takeWhile (\<lambda>c. c \<noteq> newline) buf)" by (metis (full_types) set_takeWhileD)
qed simp

lemma no_line: "dropWhile (\<lambda>c. c \<noteq> newline) buf = [] \<longleftrightarrow> newline \<notin> set buf"
  by (auto simp: dropWhile_eq_Nil_conv)

text \<open>What the loop leaves is the line the text ends in, unless that is being discarded.\<close>

lemma push_lines_feed:
  "push_lines overlong buf = (ms, o', rest) \<Longrightarrow> (if overlong then length cur > max_line_bytes else cur = []) \<Longrightarrow>
    List.filter is_frame ms = fst (feed cur buf) \<and>
    (if o' then overlong \<and> snd (feed cur buf) = cur @ buf \<and> rest = buf else rest = snd (feed cur buf))"
proof (induction overlong buf arbitrary: ms o' rest cur rule: push_lines.induct)
  case (1 overlong buf)
  show ?case
  proof (cases "dropWhile (\<lambda>c. c \<noteq> newline) buf")
    case Nil
    then have "push_lines overlong buf = ([], overlong, buf)" by (subst push_lines.simps) (simp only: list.case)
    moreover have "newline \<notin> set buf" using Nil by (rule iffD1 [OF no_line])
    ultimately show ?thesis using 1(5,6) by (simp add: feed_plain)
  next
    case (Cons x q)
    then obtain a where a: "buf = a @ newline # q" "newline \<notin> set a"
      "takeWhile (\<lambda>c. c \<noteq> newline) buf = a" by (rule cut_line)
    obtain ms' o'' rest' where rec: "push_lines False q = (ms', o'', rest')" by (rule prod_cases3)
    note eq = 1(5) [unfolded push_lines.simps [of overlong buf] Cons list.case Let_def a(3) rec apfst_conv]
    have IH: "List.filter is_frame ms' = fst (feed [] q) \<and>
        (if o'' then False else rest' = snd (feed [] q))"
      using 1(1) [OF Cons refl _ rec, of "[]"] 1(2) [OF Cons refl _ _ rec, of "[]"]
        1(3) [OF Cons refl _ _ _ rec, of "[]"] 1(4) [OF Cons refl _ _ _ rec, of "[]"]
      unfolding a(3)
      by (cases overlong; cases "max_line_bytes < length a"; cases "js_trim a = []")
        (simp_all split: if_splits)
    have "length (cur @ a) > max_line_bytes" if overlong using that 1(6) by simp
    then show ?thesis
      using eq IH 1(6) unfolding a(1) feed_line [OF a(2)]
      by (auto simp: line_frames_def split: if_splits)
  qed
qed

text \<open>The splitter has read \<open>cur\<close> of the current line.\<close>

definition reading :: "js_string \<Rightarrow> protocol \<Rightarrow> bool" where
  "reading cur p \<longleftrightarrow> newline \<notin> set cur \<and>
     (if pr_overlong p
      then (\<exists>gone. length gone > max_line_bytes \<and> cur = gone @ pr_buffer p)
      else pr_buffer p = cur)"

lemma reading_new: "reading [] new_protocol"
  by (simp add: reading_def new_protocol_def)

lemma push_feed:
  assumes "reading cur p" and "push chunk p = (ms, p')"
  shows "List.filter is_frame ms = fst (feed cur chunk) \<and> reading (snd (feed cur chunk)) p'"
proof -
  obtain ms' o' rest where lines: "push_lines (pr_overlong p) (pr_buffer p @ chunk) = (ms', o', rest)"
    by (rule prod_cases3)
  obtain gone where gone: "cur = gone @ pr_buffer p"
    "if pr_overlong p then length gone > max_line_bytes else gone = []"
    using assms(1) by (auto simp: reading_def split: if_splits)
  have eq: "feed gone (pr_buffer p @ chunk) = feed cur chunk"
    using assms(1) by (simp add: gone(1) reading_def feed_append feed_plain)
  have nl: "newline \<notin> set (snd (feed cur chunk))"
    using assms(1) by (simp add: reading_def feed_no_newline)
  note f = push_lines_feed [OF lines gone(2), unfolded eq]
  show ?thesis
  proof (cases "length rest > max_line_bytes")
    case True
    then have p': "ms = ms' @ [overlongLine (length rest)]" "p' = \<lparr>pr_buffer = [], pr_overlong = True\<rparr>"
      using assms(2) by (simp_all add: push_def lines)
    have "max_line_bytes < length (snd (feed cur chunk))"
      using f True by (auto split: if_splits)
    then show ?thesis using f nl by (simp add: p' reading_def)
  next
    case False
    then have p': "ms = ms'" "p' = \<lparr>pr_buffer = rest, pr_overlong = o'\<rparr>"
      using assms(2) by (simp_all add: push_def lines)
    show ?thesis using f nl gone(2) by (auto simp: p' reading_def split: if_splits)
  qed
qed

lemma push_all_feed:
  "reading cur p \<Longrightarrow> push_all chunks p = (ms, p') \<Longrightarrow>
    List.filter is_frame ms = fst (feed cur (concat chunks)) \<and> reading (snd (feed cur (concat chunks))) p'"
proof (induction chunks arbitrary: cur p ms p')
  case (Cons c cs)
  obtain ms1 p1 where p1: "push c p = (ms1, p1)" by fastforce
  obtain ms2 p2 where p2: "push_all cs p1 = (ms2, p2)" by fastforce
  from push_feed [OF Cons.prems(1) p1] Cons.IH [of _ p1, OF _ p2] Cons.prems(2) show ?case
    by (auto simp: p1 p2 feed_append split: prod.splits)
qed simp

text \<open>C19. However the helper's output is cut into chunks, the frames read from it are those of
  its complete lines: lines over the limit are discarded whole, blank ones skipped, and every
  other one is parsed as if it had arrived alone.\<close>

theorem push_any_chunking:
  "List.filter is_frame (fst (push_all chunks new_protocol)) = stream_frames (concat chunks)"
  using push_all_feed [OF reading_new, of chunks] by (simp add: stream_frames_def split: prod.splits)
  (metis prod.collapse)

section \<open>Every number of a frame is within its field's range\<close>

definition within :: "int \<Rightarrow> int \<Rightarrow> int \<Rightarrow> bool" where
  "within lo hi i \<longleftrightarrow> lo \<le> i \<and> i \<le> hi"

definition opt_within :: "int \<Rightarrow> int \<Rightarrow> int option \<Rightarrow> bool" where
  "opt_within lo hi v \<longleftrightarrow> (case v of None \<Rightarrow> True | Some i \<Rightarrow> within lo hi i)"

fun message_ok :: "helper_message \<Rightarrow> bool" where
  "message_ok (Ready v p pid) \<longleftrightarrow>
     within 0 max_safe_integer v \<and> within 1 65535 p \<and> opt_within 0 max_safe_integer pid"
| "message_ok (SearchingFrame candidate trial) \<longleftrightarrow>
     within 0 uint32_max candidate \<and> within 0 max_safe_integer trial"
| "message_ok (AuthOk first roc seq candidate trials authenticated) \<longleftrightarrow>
     within 0 uint32_max roc \<and> opt_within 0 uint16_max seq \<and> opt_within 0 uint32_max candidate \<and>
     opt_within 0 max_safe_integer trials \<and> opt_within 0 max_safe_integer authenticated"
| "message_ok (AuthFail candidate inputs drops searchFrom) \<longleftrightarrow>
     within 0 uint32_max candidate \<and> opt_within 0 max_safe_integer inputs \<and>
     opt_within 0 max_safe_integer drops \<and> opt_within 0 uint32_max searchFrom"
| "message_ok (AuthExhausted trials) \<longleftrightarrow> within 0 max_safe_integer trials"
| "message_ok (AuthLost sinceMs drops) \<longleftrightarrow>
     opt_within 0 max_safe_integer sinceMs \<and> opt_within 0 max_safe_integer drops"
| "message_ok (IndexFrame index) \<longleftrightarrow> within 0 srtp_index_max index"
| "message_ok (StoppedFrame index) \<longleftrightarrow> opt_within 0 srtp_index_max index"
| "message_ok (Stats inputs inputBytes authenticated aus roc drops) \<longleftrightarrow>
     within 0 max_safe_integer inputs \<and> within 0 max_safe_integer inputBytes \<and>
     within 0 max_safe_integer authenticated \<and> within 0 max_safe_integer aus \<and>
     opt_within 0 uint32_max roc \<and> within 0 max_safe_integer drops"
| "message_ok _ \<longleftrightarrow> True"

lemma opt_within_simps [simp]: "opt_within lo hi None" "opt_within lo hi (Some i) = within lo hi i"
  by (simp_all add: opt_within_def)

lemma int_within_ok [simp]:
  "opt_within lo hi (int_within v lo hi)"
  "int_within v lo hi = Some i \<Longrightarrow> within lo hi i"
  by (auto simp: int_within_def opt_within_def within_def
      split: option.splits jsval.splits jsnum.splits if_splits)

lemmas field_defs = port_field_def uint16_field_def uint32_field_def count_field_def index_field_def

lemma nullish_within: "within lo hi d \<Longrightarrow> opt_within lo hi v \<Longrightarrow> within lo hi (nullish v d)"
  by (cases v) (simp_all add: opt_within_def)

lemma within_zero [simp]: "0 \<le> hi \<Longrightarrow> within 0 hi 0"
  by (simp add: within_def)

lemma parse_auth_ok: "message_ok (parse_auth (Unparsed raw) ob)"
  by (auto simp: parse_auth_def field_defs split: option.splits)

lemma parse_stats_ok: "message_ok (parse_stats (Unparsed raw) ob)"
  by (auto simp: parse_stats_def field_defs max_safe_integer_def intro!: nullish_within
      split: option.splits)

lemma message_ok_if: "message_ok m \<Longrightarrow> message_ok n \<Longrightarrow> message_ok (if b then m else n)"
  by simp

lemma parse_record_ok: "message_ok (parse_record (Unparsed raw) ob)"
proof (cases "\<exists>t. field ob ''t'' = Some (JStr t)")
  case True
  then obtain t where "field ob ''t'' = Some (JStr t)" by blast
  then show ?thesis
    unfolding parse_record_def field_defs
    by (simp only: option.case jsval.case) (intro message_ok_if parse_auth_ok parse_stats_ok;
      (split option.split | simp)+)
next
  case False
  then show ?thesis by (auto simp: parse_record_def split: option.splits jsval.splits)
qed

lemma parseMessage_ok: "message_ok (parseMessage line)"
  by (simp add: parseMessage_def Let_def parse_record_ok split: option.splits jsval.splits)

lemma push_lines_ok: "list_all message_ok (fst (push_lines overlong buf))"
proof (induction overlong buf rule: push_lines.induct)
  case (1 overlong buf)
  then show ?case
    by (subst push_lines.simps)
      (auto simp: parseMessage_ok overlongLine_def Let_def split: list.splits)
qed

text \<open>What \<open>push\<close> returns can be used as it is: every number of every frame lies in its
  field's range, whatever the helper wrote; and however much it wrote without a newline, no
  more than \<open>max_line_bytes\<close> of it is kept.\<close>

theorem push_in_range:
  "list_all message_ok (fst (push chunk p)) \<and>
   length (pr_buffer (snd (push chunk p))) \<le> max_line_bytes"
  using push_lines_ok [of "pr_overlong p" "pr_buffer p @ chunk"]
  by (auto simp: push_def overlongLine_def split: prod.splits)

section \<open>What the helper reads\<close>

definition command_ok :: "helper_command \<Rightarrow> bool" where
  "command_ok c \<longleftrightarrow> stringifiable (command_value c)"

lemma distinct_command_keys [simp]:
  "distinct (map fst (optional_member n f v)) \<and> set (map fst (optional_member n f v)) \<subseteq> {js n}"
  by (auto simp: optional_member_def split: option.splits)

text \<open>No line break is left inside a text that \<open>JSON.stringify\<close> made.\<close>

lemma quote_unit_no_newline: "10 \<notin> set (quote_unit c)" "10 \<notin> set (unicode_escape c)"
  by (auto simp: quote_unit_def unicode_escape_def hex_digit_def)

lemma quote_units_no_newline: "10 \<notin> set (quote_units s)"
  by (induction s rule: quote_units.induct)
    (auto simp: quote_unit_no_newline leading_def trailing_def)

lemma json_string_no_newline: "10 \<notin> set (json_string s)"
  by (simp add: json_string_def quote_units_no_newline)

lemma int_string_no_newline: "10 \<notin> set (int_string i)"
  by (auto simp: int_string_def nat_digits_no_sep is_digit_def)

lemma json_text_no_newline:
  "10 \<notin> set (json_text v)" "10 \<notin> set (elements_text vs)" "10 \<notin> set (members_text kvs)"
  by (induction v and vs and kvs rule: json_text_elements_text_members_text.induct)
    (auto simp: json_string_no_newline int_string_no_newline js_Cons split: jsnum.splits)

lemma command_value_inj: "command_value c = command_value d \<longleftrightarrow> c = d"
  by (cases c; cases d)
    (auto simp: optional_member_def integer_value_def split: option.splits)

text \<open>C20. A command is written on one line and read back as itself: \<open>JSON.parse\<close> of the line
  returns exactly the fields that were sent, the optional ones absent where they are
  undefined, so that no two commands have the same line.\<close>

theorem serializeCommand_read_back:
  assumes "command_ok c"
  shows "json_parse (serializeCommand c) = Some (command_value c) \<and>
    newline \<notin> set (serializeCommand c) \<and>
    (command_ok d \<and> serializeCommand c = serializeCommand d \<longleftrightarrow> c = d)"
  using assms json_round_trip [of "command_value c"] json_round_trip [of "command_value d"]
    json_text_no_newline(1) [of "command_value c"] command_value_inj [of c d]
  by (auto simp: serializeCommand_def command_ok_def newline_def)

definition sample_init :: helper_command where
  "sample_init = InitCommand \<lparr>hi_v = 3, hi_key = js ''0a1b'', hi_cipher = Some (js ''aes-128-icm''),
     hi_auth = None, hi_ssrc = 3735928559, hi_floor = Some 4295032831, hi_search_from = None\<rparr>"

lemma sample_init_ok: "command_ok sample_init"
  by (simp add: sample_init_def command_ok_def optional_member_def integer_value_def code_units_def
      is_safe_integer_def max_safe_integer_def js_Cons)

lemma serializeCommand_read_back_witness:
  "json_parse (serializeCommand sample_init) = Some (command_value sample_init) \<and>
   newline \<notin> set (serializeCommand sample_init) \<and>
   serializeCommand sample_init \<noteq> serializeCommand (StartCommand 3)"
  using serializeCommand_read_back [OF sample_init_ok, of "StartCommand 3"]
  by (simp add: sample_init_def command_ok_def integer_value_def is_safe_integer_def
      max_safe_integer_def code_units_def js_Cons)

end
