(* ===== verification/DynamoDb.thy ===== *)
theory DynamoDb
imports Json
begin

text \<open>
  The table service the program keeps its rows in. DynamoDB is not part of the repository:
  what is here is the language of the requests the code sends (the expressions it writes as
  strings are written as their syntax trees, one constructor per function or operator that
  occurs) and, as the locale \<open>dynamo\<close>, the documented behaviour of the service that the
  proofs rest on. Everywhere else the service is a parameter \<open>send\<close>.

  A time written by \<open>toISOString\<close> is the attribute value \<open>Iso\<close> of its milliseconds: the
  format has a fixed width, so its strings compare as the times do.

  The locale allows what the SDK's own retries make possible: a request whose answer was
  lost may have been applied, and the answer may then be an error, or the refusal of the
  second attempt by the state that the first one left.
\<close>

section \<open>Items and requests\<close>

datatype attr = S js_string | N jsnum | Iso int

type_synonym item = "(string \<times> attr) list"

datatype condition =
    Exists string
  | NotExists string
  | Equal string attr
  | Less string attr
  | AtMost string attr
  | All "condition list"
  | Any "condition list"

datatype action =
    SetTo string attr
  | SetIfNotExists string attr
  | Remove string

datatype request =
    UpdateItem int "action list" condition
  | PutItem int item
  | GetItem int "string list option"

datatype response =
    Done
  | Found "item option"
  | ConditionalCheckFailed
  | Failed js_string

section \<open>The documented meaning of the expressions\<close>

fun num_less :: "jsnum \<Rightarrow> jsnum \<Rightarrow> bool" where
  "num_less (JInt i) (JInt j) \<longleftrightarrow> i < j"
| "num_less (JInt i) (JFrac n l) \<longleftrightarrow> i * 2 ^ l < n"
| "num_less (JFrac m k) (JInt j) \<longleftrightarrow> m < j * 2 ^ k"
| "num_less (JFrac m k) (JFrac n l) \<longleftrightarrow> m * 2 ^ l < n * 2 ^ k"
| "num_less _ _ \<longleftrightarrow> False"

text \<open>Values of different types are not comparable, and an absent attribute compares to nothing.\<close>

fun attr_less :: "attr \<Rightarrow> attr \<Rightarrow> bool" where
  "attr_less (N m) (N n) \<longleftrightarrow> num_less m n"
| "attr_less (Iso s) (Iso t) \<longleftrightarrow> s < t"
| "attr_less _ _ \<longleftrightarrow> False"

fun condition_holds :: "condition \<Rightarrow> item option \<Rightarrow> bool" where
  "condition_holds (Exists a) it \<longleftrightarrow> (case it of None \<Rightarrow> False | Some r \<Rightarrow> map_of r a \<noteq> None)"
| "condition_holds (NotExists a) it \<longleftrightarrow> (case it of None \<Rightarrow> True | Some r \<Rightarrow> map_of r a = None)"
| "condition_holds (Equal a v) it \<longleftrightarrow> (case it of None \<Rightarrow> False | Some r \<Rightarrow> map_of r a = Some v)"
| "condition_holds (Less a v) it \<longleftrightarrow>
     (case it of None \<Rightarrow> False
      | Some r \<Rightarrow> (case map_of r a of None \<Rightarrow> False | Some w \<Rightarrow> attr_less w v))"
| "condition_holds (AtMost a v) it \<longleftrightarrow>
     (case it of None \<Rightarrow> False
      | Some r \<Rightarrow> (case map_of r a of None \<Rightarrow> False | Some w \<Rightarrow> attr_less w v \<or> w = v))"
| "condition_holds (All cs) it \<longleftrightarrow> list_all (\<lambda>c. condition_holds c it) cs"
| "condition_holds (Any cs) it \<longleftrightarrow> list_ex (\<lambda>c. condition_holds c it) cs"

fun apply_action :: "item \<Rightarrow> action \<Rightarrow> item \<Rightarrow> item" where
  "apply_action before (SetTo a v) r = AList.update a v r"
| "apply_action before (SetIfNotExists a v) r =
     AList.update a (case map_of before a of Some w \<Rightarrow> w | None \<Rightarrow> v) r"
| "apply_action before (Remove a) r = AList.delete a r"

definition key_item :: "int \<Rightarrow> item" where
  "key_item port = [(''port'', N (JInt port))]"

text \<open>An update of an absent item creates it, with its key.\<close>

definition updated :: "int \<Rightarrow> action list \<Rightarrow> item option \<Rightarrow> item" where
  "updated port acts it =
     (let before = nullish it (key_item port)
      in fold (apply_action before) acts before)"

definition project :: "string list option \<Rightarrow> item \<Rightarrow> item" where
  "project names r =
     (case names of None \<Rightarrow> r | Some ns \<Rightarrow> List.filter (\<lambda>kv. List.member ns (fst kv)) r)"

section \<open>The service\<close>

locale dynamo =
  fixes send :: "request \<Rightarrow> 'db \<Rightarrow> response \<times> 'db"
    and item_of :: "'db \<Rightarrow> int \<Rightarrow> item option"
  assumes update_done: "send (UpdateItem p acts c) db = (Done, db') \<Longrightarrow>
      condition_holds c (item_of db p) \<and> item_of db' = (item_of db)(p \<mapsto> updated p acts (item_of db p))"
    and update_refused: "send (UpdateItem p acts c) db = (ConditionalCheckFailed, db') \<Longrightarrow>
      \<not> condition_holds c (item_of db' p) \<and>
      (item_of db' = item_of db \<or>
       condition_holds c (item_of db p) \<and> item_of db' = (item_of db)(p \<mapsto> updated p acts (item_of db p)))"
    and update_failed: "send (UpdateItem p acts c) db = (Failed e, db') \<Longrightarrow>
      item_of db' = item_of db \<or>
      condition_holds c (item_of db p) \<and> item_of db' = (item_of db)(p \<mapsto> updated p acts (item_of db p))"
    and update_answer: "send (UpdateItem p acts c) db \<noteq> (Found it, db')"
    and put_done: "send (PutItem p r) db = (Done, db') \<Longrightarrow> item_of db' = (item_of db)(p \<mapsto> r)"
    and put_failed: "send (PutItem p r) db = (Failed e, db') \<Longrightarrow>
      item_of db' = item_of db \<or> item_of db' = (item_of db)(p \<mapsto> r)"
    and put_answer: "send (PutItem p r) db \<noteq> (Found it, db')"
      "send (PutItem p r) db \<noteq> (ConditionalCheckFailed, db')"
    and get_found: "send (GetItem p names) db = (Found it, db') \<Longrightarrow>
      item_of db' = item_of db \<and> it = map_option (project names) (item_of db p)"
    and get_failed: "send (GetItem p names) db = (Failed e, db') \<Longrightarrow> item_of db' = item_of db"
    and get_answer: "send (GetItem p names) db \<noteq> (Done, db')"
      "send (GetItem p names) db \<noteq> (ConditionalCheckFailed, db')"
begin

text \<open>Whatever the answer, an update does nothing or, its condition holding, all of it.\<close>

lemma update_cases:
  assumes "send (UpdateItem p acts c) db = (resp, db')"
  obtains (unchanged) "item_of db' = item_of db" "resp \<noteq> Done"
      "resp = ConditionalCheckFailed \<Longrightarrow> \<not> condition_holds c (item_of db p)"
  | (applied) "condition_holds c (item_of db p)"
      "item_of db' = (item_of db)(p \<mapsto> updated p acts (item_of db p))"
      "resp = ConditionalCheckFailed \<Longrightarrow> \<not> condition_holds c (Some (updated p acts (item_of db p)))"
proof (cases resp)
  case Done
  with assms update_done applied show ?thesis by blast
next
  case (Found it)
  with assms update_answer show ?thesis by blast
next
  case ConditionalCheckFailed
  with assms update_refused [of p acts c db db'] unchanged applied show ?thesis
    by (metis fun_upd_same response.distinct(3))
next
  case (Failed e)
  with assms update_failed unchanged applied show ?thesis by (metis response.distinct(5,11))
qed

lemma get_unchanged: "send (GetItem p names) db = (resp, db') \<Longrightarrow> item_of db' = item_of db"
  using get_found get_failed get_answer by (cases resp) blast+

end

section \<open>A table that behaves so\<close>

text \<open>
  The reference table: a map with a queue of faults, one per write. A fault says whether the
  write took place and what was answered: \<open>Lost\<close> before or after the write, and \<open>Retried\<close>,
  where the first attempt was applied, its answer lost, and the second answered.
\<close>

datatype fault = Fine | LostBefore | LostAfter | Retried

record table =
  rows :: "(int \<times> item) list"
  faults :: "fault list"

definition next_fault :: "table \<Rightarrow> fault" where
  "next_fault t = (case faults t of [] \<Rightarrow> Fine | f # _ \<Rightarrow> f)"

definition table_item :: "table \<Rightarrow> int \<Rightarrow> item option" where
  "table_item t p = map_of (rows t) p"

definition table_write :: "int \<Rightarrow> item \<Rightarrow> table \<Rightarrow> table" where
  "table_write p r t = t\<lparr>rows := AList.update p r (rows t), faults := tl (faults t)\<rparr>"

definition table_skip :: "table \<Rightarrow> table" where
  "table_skip t = t\<lparr>faults := tl (faults t)\<rparr>"

fun table_send :: "request \<Rightarrow> table \<Rightarrow> response \<times> table" where
  "table_send (UpdateItem p acts c) t =
     (let r = updated p acts (table_item t p) in
      if \<not> condition_holds c (table_item t p) then
        (if next_fault t = LostBefore then (Failed (js ''timeout''), table_skip t)
         else (ConditionalCheckFailed, table_skip t))
      else case next_fault t of
        Fine \<Rightarrow> (Done, table_write p r t)
      | LostBefore \<Rightarrow> (Failed (js ''timeout''), table_skip t)
      | LostAfter \<Rightarrow> (Failed (js ''timeout''), table_write p r t)
      | Retried \<Rightarrow>
          (if condition_holds c (Some r) then (Failed (js ''timeout''), table_write p r t)
           else (ConditionalCheckFailed, table_write p r t)))"
| "table_send (PutItem p r) t =
     (case next_fault t of
        Fine \<Rightarrow> (Done, table_write p r t)
      | LostBefore \<Rightarrow> (Failed (js ''timeout''), table_skip t)
      | _ \<Rightarrow> (Failed (js ''timeout''), table_write p r t))"
| "table_send (GetItem p names) t =
     (case next_fault t of
        Fine \<Rightarrow> (Found (map_option (project names) (table_item t p)), table_skip t)
      | _ \<Rightarrow> (Failed (js ''timeout''), table_skip t))"

lemma table_item_write [simp]: "table_item (table_write p r t) = (table_item t)(p \<mapsto> r)"
  by (auto simp: table_item_def table_write_def fun_eq_iff)

lemma table_item_skip [simp]: "table_item (table_skip t) = table_item t"
  by (simp add: table_item_def table_skip_def fun_eq_iff)

interpretation table: dynamo table_send table_item
  by unfold_locales (auto simp: Let_def split: if_splits fault.splits)

lemma dynamo_table: "dynamo table_send table_item"
  by (rule table.dynamo_axioms)

end
