(* ===== verification/StreamMetadata.thy ===== *)
theory StreamMetadata
imports DynamoDb
begin

text \<open>
  \<open>backend/src/StreamMetadataService.ts\<close>: the row each port has in the table, and the
  requests that take and give up the lock on it, refresh its lease, and keep the replay
  floor. Every operation takes the service \<open>send\<close>, the times it reads from the clock, and
  the table; it returns what it returns or throws, and the table.

  The row is read through \<open>owner_of\<close>, \<open>lease_of\<close>, \<open>epoch_of\<close>, \<open>generation_of\<close> and
  \<open>floor_of\<close>. The lemmas say what each operation does to these, whatever the answer; the
  properties: who may take the lock, what a refresh says, how the floor moves, and what a
  reset is good for.
\<close>

section \<open>The row\<close>

definition kinesis_lock_stale_ms :: int where
  "kinesis_lock_stale_ms = 5 * 60 * 1000"

definition update_throttle_ms :: int where
  "update_throttle_ms = 15000"

definition num :: "int \<Rightarrow> attr" where
  "num i = N (JInt i)"

definition get :: "item option \<Rightarrow> string \<Rightarrow> attr option" where
  "get it a = (case it of None \<Rightarrow> None | Some r \<Rightarrow> map_of r a)"

definition text_of :: "attr option \<Rightarrow> js_string option" where
  "text_of v = (case v of Some (S s) \<Rightarrow> Some s | _ \<Rightarrow> None)"

definition int_of :: "attr option \<Rightarrow> int option" where
  "int_of v = (case v of Some (N (JInt i)) \<Rightarrow> Some i | _ \<Rightarrow> None)"

definition owner_of :: "item option \<Rightarrow> attr option" where
  "owner_of it = get it ''kinesisOwnerInstanceId''"

definition lease_of :: "item option \<Rightarrow> attr option" where
  "lease_of it = get it ''lastPacketTime''"

definition epoch_of :: "item option \<Rightarrow> attr option" where
  "epoch_of it = get it ''srtpFloorEpoch''"

definition generation_of :: "item option \<Rightarrow> attr option" where
  "generation_of it = get it ''srtpKeyGeneration''"

section \<open>The lock\<close>

definition acquire_actions :: "js_string \<Rightarrow> int \<Rightarrow> action list" where
  "acquire_actions instanceId now =
     [SetTo ''kinesisOwnerInstanceId'' (S instanceId), SetTo ''lastPacketTime'' (Iso now),
      SetTo ''status'' (S (js ''active'')), SetTo ''updatedAt'' (Iso now),
      SetIfNotExists ''createdAt'' (Iso now)]"

definition acquire_condition :: "js_string \<Rightarrow> int \<Rightarrow> condition" where
  "acquire_condition instanceId staleThreshold =
     Any [NotExists ''port'', NotExists ''kinesisOwnerInstanceId'',
          Equal ''kinesisOwnerInstanceId'' (S instanceId),
          Less ''lastPacketTime'' (Iso staleThreshold)]"

text \<open>The clock is read twice: \<open>now\<close> for the lease, \<open>now'\<close> for the threshold.\<close>

definition tryAcquireKinesisLock ::
  "(request \<Rightarrow> 'db \<Rightarrow> response \<times> 'db) \<Rightarrow> int \<Rightarrow> js_string \<Rightarrow> int \<Rightarrow> int \<Rightarrow> 'db \<Rightarrow>
    bool outcome \<times> 'db"
where
  "tryAcquireKinesisLock send port instanceId now now' db =
     (case send (UpdateItem port (acquire_actions instanceId now)
                   (acquire_condition instanceId (now' - kinesis_lock_stale_ms))) db of
        (Done, db') \<Rightarrow> (Inr True, db')
      | (ConditionalCheckFailed, db') \<Rightarrow> (Inr False, db')
      | (Failed e, db') \<Rightarrow> (Inl e, db')
      | (Found _, db') \<Rightarrow> (Inr True, db'))"

definition release_actions :: "int \<Rightarrow> action list" where
  "release_actions now =
     [Remove ''kinesisOwnerInstanceId'', SetTo ''status'' (S (js ''inactive'')),
      SetTo ''updatedAt'' (Iso now)]"

definition owner_condition :: "js_string \<Rightarrow> condition" where
  "owner_condition instanceId = Equal ''kinesisOwnerInstanceId'' (S instanceId)"

definition releaseKinesisLock ::
  "(request \<Rightarrow> 'db \<Rightarrow> response \<times> 'db) \<Rightarrow> int \<Rightarrow> js_string \<Rightarrow> int \<Rightarrow> 'db \<Rightarrow> unit outcome \<times> 'db"
where
  "releaseKinesisLock send port instanceId now db =
     (case send (UpdateItem port (release_actions now) (owner_condition instanceId)) db of
        (Failed e, db') \<Rightarrow> (Inl e, db')
      | (_, db') \<Rightarrow> (Inr (), db'))"

definition createStreamMetadata ::
  "(request \<Rightarrow> 'db \<Rightarrow> response \<times> 'db) \<Rightarrow> int \<Rightarrow> js_string \<Rightarrow> int \<Rightarrow> 'db \<Rightarrow> unit outcome \<times> 'db"
where
  "createStreamMetadata send port status now db =
     (case send (PutItem port
                   [(''port'', num port), (''status'', S status), (''lastPacketTime'', Iso now),
                    (''createdAt'', Iso now), (''updatedAt'', Iso now)]) db of
        (Failed e, db') \<Rightarrow> (Inl e, db')
      | (_, db') \<Rightarrow> (Inr (), db'))"

definition updateStreamStatus ::
  "(request \<Rightarrow> 'db \<Rightarrow> response \<times> 'db) \<Rightarrow> int \<Rightarrow> js_string \<Rightarrow> int \<Rightarrow> int \<Rightarrow> 'db \<Rightarrow>
    unit outcome \<times> 'db"
where
  "updateStreamStatus send port status now now' db =
     (case send (UpdateItem port [SetTo ''status'' (S status), SetTo ''updatedAt'' (Iso now)]
                   (Exists ''port'')) db of
        (ConditionalCheckFailed, db') \<Rightarrow> createStreamMetadata send port status now' db'
      | (Failed e, db') \<Rightarrow> (Inl e, db')
      | (_, db') \<Rightarrow> (Inr (), db'))"

section \<open>The lease\<close>

datatype owned_write = WriteOk | LostLock | WriteError

type_synonym update_times = "(int, int) js_map"

definition refresh_actions :: "int \<Rightarrow> action list" where
  "refresh_actions now =
     [SetTo ''status'' (S (js ''active'')), SetTo ''lastPacketTime'' (Iso now),
      SetTo ''updatedAt'' (Iso now)]"

definition updateLastPacketTime ::
  "(request \<Rightarrow> 'db \<Rightarrow> response \<times> 'db) \<Rightarrow> int \<Rightarrow> js_string \<Rightarrow> int \<Rightarrow> update_times \<Rightarrow> 'db \<Rightarrow>
    owned_write \<times> update_times \<times> 'db"
where
  "updateLastPacketTime send port instanceId now updates db =
     (if now - nullish (map_of updates port) 0 < update_throttle_ms then (WriteOk, updates, db)
      else
        (case send (UpdateItem port (refresh_actions now) (owner_condition instanceId)) db of
           (ConditionalCheckFailed, db') \<Rightarrow>
             (LostLock, AList.delete port (AList.update port now updates), db')
         | (Failed e, db') \<Rightarrow> (WriteError, AList.delete port (AList.update port now updates), db')
         | (_, db') \<Rightarrow> (WriteOk, AList.update port now updates, db')))"

section \<open>The replay floor\<close>

text \<open>The decision of \<open>getSrtpIndexFloor\<close> on the row it read.\<close>

definition floor_of :: "item option \<Rightarrow> int \<Rightarrow> js_string \<Rightarrow> int option" where
  "floor_of it expectedSsrc expectedKeyFingerprint =
     (case get it ''srtpIndex'' of
        Some (N n) \<Rightarrow>
          (case n of
             JInt i \<Rightarrow>
               (if \<not> is_safe_integer n then None
                else if i < 0 then None
                else if get it ''srtpIndexSsrc'' \<noteq> Some (num expectedSsrc) then None
                else if get it ''srtpIndexKeyFingerprint'' \<noteq> Some (S expectedKeyFingerprint) then None
                else Some i)
           | _ \<Rightarrow> None)
      | _ \<Rightarrow> None)"

definition getSrtpIndexFloor ::
  "(request \<Rightarrow> 'db \<Rightarrow> response \<times> 'db) \<Rightarrow> int \<Rightarrow> int \<Rightarrow> js_string \<Rightarrow> 'db \<Rightarrow> int option outcome \<times> 'db"
where
  "getSrtpIndexFloor send port expectedSsrc expectedKeyFingerprint db =
     (case send (GetItem port None) db of
        (Found it, db') \<Rightarrow> (Inr (floor_of it expectedSsrc expectedKeyFingerprint), db')
      | (Failed e, db') \<Rightarrow> (Inl e, db')
      | (_, db') \<Rightarrow> (Inr None, db'))"

definition safe_int :: "attr option \<Rightarrow> int option" where
  "safe_int v =
     (case v of
        Some (N n) \<Rightarrow>
          (case n of JInt i \<Rightarrow> (if is_safe_integer n then Some i else None) | _ \<Rightarrow> None)
      | _ \<Rightarrow> None)"

definition getSrtpFloorEpoch ::
  "(request \<Rightarrow> 'db \<Rightarrow> response \<times> 'db) \<Rightarrow> int \<Rightarrow> 'db \<Rightarrow> int option outcome \<times> 'db"
where
  "getSrtpFloorEpoch send port db =
     (case send (GetItem port (Some [''srtpFloorEpoch''])) db of
        (Found it, db') \<Rightarrow> (Inr (safe_int (epoch_of it)), db')
      | (Failed e, db') \<Rightarrow> (Inl e, db')
      | (_, db') \<Rightarrow> (Inr None, db'))"

record floor_reset =
  fr_requested_at :: int
  fr_floor :: int
  fr_ssrc :: int
  fr_fingerprint :: js_string
  fr_generation :: int

datatype reset_result = ResetDone | ResetStale

definition reset_actions :: "floor_reset \<Rightarrow> int \<Rightarrow> action list" where
  "reset_actions reset now =
     [SetTo ''srtpFloorEpoch'' (num (fr_requested_at reset)),
      SetTo ''srtpIndex'' (num (fr_floor reset)),
      SetTo ''srtpIndexSsrc'' (num (fr_ssrc reset)),
      SetTo ''srtpIndexKeyFingerprint'' (S (fr_fingerprint reset)),
      SetTo ''srtpKeyGeneration'' (num (fr_generation reset)),
      SetTo ''updatedAt'' (Iso now)]"

definition reset_condition :: "floor_reset \<Rightarrow> condition" where
  "reset_condition reset =
     All [Any [NotExists ''srtpFloorEpoch'', Less ''srtpFloorEpoch'' (num (fr_requested_at reset))],
          Any [NotExists ''srtpKeyGeneration'',
               AtMost ''srtpKeyGeneration'' (num (fr_generation reset))]]"

definition resetSrtpIndexFloor ::
  "(request \<Rightarrow> 'db \<Rightarrow> response \<times> 'db) \<Rightarrow> int \<Rightarrow> floor_reset \<Rightarrow> int \<Rightarrow> 'db \<Rightarrow>
    reset_result outcome \<times> 'db"
where
  "resetSrtpIndexFloor send port reset now db =
     (case send (UpdateItem port (reset_actions reset now) (reset_condition reset)) db of
        (ConditionalCheckFailed, db') \<Rightarrow> (Inr ResetStale, db')
      | (Failed e, db') \<Rightarrow> (Inl e, db')
      | (_, db') \<Rightarrow> (Inr ResetDone, db'))"

definition raise_actions :: "int \<Rightarrow> int \<Rightarrow> js_string \<Rightarrow> int \<Rightarrow> int \<Rightarrow> action list" where
  "raise_actions index ssrc keyFingerprint generation now =
     [SetTo ''srtpIndex'' (num index), SetTo ''srtpIndexSsrc'' (num ssrc),
      SetTo ''srtpIndexKeyFingerprint'' (S keyFingerprint),
      SetTo ''srtpKeyGeneration'' (num generation), SetTo ''updatedAt'' (Iso now)]"

definition raise_condition :: "int \<Rightarrow> int \<Rightarrow> js_string \<Rightarrow> int \<Rightarrow> int option \<Rightarrow> condition" where
  "raise_condition index ssrc keyFingerprint generation epoch =
     All [(case epoch of None \<Rightarrow> NotExists ''srtpFloorEpoch''
           | Some e \<Rightarrow> Equal ''srtpFloorEpoch'' (num e)),
          Any [NotExists ''srtpIndex'', NotExists ''srtpKeyGeneration'',
               Less ''srtpKeyGeneration'' (num generation),
               All [Equal ''srtpKeyGeneration'' (num generation),
                    Equal ''srtpIndexSsrc'' (num ssrc),
                    Equal ''srtpIndexKeyFingerprint'' (S keyFingerprint),
                    Less ''srtpIndex'' (num index)]]]"

definition raiseSrtpIndexFloor ::
  "(request \<Rightarrow> 'db \<Rightarrow> response \<times> 'db) \<Rightarrow> int \<Rightarrow> int \<Rightarrow> int \<Rightarrow> js_string \<Rightarrow> int \<Rightarrow> int option \<Rightarrow> int \<Rightarrow>
    'db \<Rightarrow> 'db"
where
  "raiseSrtpIndexFloor send port index ssrc keyFingerprint generation epoch now db =
     snd (send (UpdateItem port (raise_actions index ssrc keyFingerprint generation now)
                  (raise_condition index ssrc keyFingerprint generation epoch)) db)"

section \<open>What the operations do to the row\<close>

lemma map_of_before [row_simps]:
  "a \<noteq> ''port'' \<Longrightarrow> map_of (nullish it (key_item p)) a = get it a"
  by (cases it) (simp_all add: key_item_def get_def)

lemma get_Some [row_simps]: "get (Some r) a = map_of r a"
  by (simp add: get_def)

lemma get_None [simp]: "get None a = None"
  by (simp add: get_def)

lemma updated_port [row_simps]:
  "map_of (nullish it (key_item p)) ''port'' = (case it of None \<Rightarrow> Some (num p) | Some r \<Rightarrow> map_of r ''port'')"
  by (cases it) (simp_all add: key_item_def num_def)

lemma map_of_updated [row_simps]:
  "map_of (updated p acts it) a =
     map_of (fold (apply_action (nullish it (key_item p))) acts (nullish it (key_item p))) a"
  by (simp add: updated_def Let_def)

definition floor_fields :: "item option \<Rightarrow> attr option list" where
  "floor_fields it = map (get it)
     [''srtpIndex'', ''srtpIndexSsrc'', ''srtpIndexKeyFingerprint'', ''srtpFloorEpoch'',
      ''srtpKeyGeneration'']"

definition lock_fields :: "item option \<Rightarrow> attr option list" where
  "lock_fields it = map (get it) [''kinesisOwnerInstanceId'', ''lastPacketTime'', ''status'']"

lemma acquire_row [row_simps]:
  "owner_of (Some (updated p (acquire_actions i now) it)) = Some (S i)"
  "lease_of (Some (updated p (acquire_actions i now) it)) = Some (Iso now)"
  "get (Some (updated p (acquire_actions i now) it)) ''status'' = Some (S (js ''active''))"
  "floor_fields (Some (updated p (acquire_actions i now) it)) = floor_fields it"
  by (simp_all add: row_simps acquire_actions_def owner_of_def lease_of_def floor_fields_def)

lemma refresh_row [row_simps]:
  "owner_of (Some (updated p (refresh_actions now) it)) = owner_of it"
  "lease_of (Some (updated p (refresh_actions now) it)) = Some (Iso now)"
  "floor_fields (Some (updated p (refresh_actions now) it)) = floor_fields it"
  by (simp_all add: row_simps refresh_actions_def owner_of_def lease_of_def floor_fields_def)

lemma release_row [row_simps]:
  "owner_of (Some (updated p (release_actions now) it)) = None"
  "lease_of (Some (updated p (release_actions now) it)) = lease_of it"
  "floor_fields (Some (updated p (release_actions now) it)) = floor_fields it"
  by (simp_all add: row_simps release_actions_def owner_of_def lease_of_def floor_fields_def)

lemma raise_row [row_simps]:
  "lock_fields (Some (updated p (raise_actions index ssrc fp g now) it)) = lock_fields it"
  "floor_fields (Some (updated p (raise_actions index ssrc fp g now) it)) =
     [Some (num index), Some (num ssrc), Some (S fp), epoch_of it, Some (num g)]"
  by (simp_all add: row_simps raise_actions_def lock_fields_def floor_fields_def epoch_of_def)

lemma reset_row [row_simps]:
  "lock_fields (Some (updated p (reset_actions r now) it)) = lock_fields it"
  "floor_fields (Some (updated p (reset_actions r now) it)) =
     [Some (num (fr_floor r)), Some (num (fr_ssrc r)), Some (S (fr_fingerprint r)),
      Some (num (fr_requested_at r)), Some (num (fr_generation r))]"
  by (simp_all add: row_simps reset_actions_def lock_fields_def floor_fields_def)

text \<open>The condition of an acquisition, read on the row: nobody owns the port, this instance
  does, or the lease is older than the threshold.\<close>

definition may_acquire :: "item option \<Rightarrow> js_string \<Rightarrow> int \<Rightarrow> bool" where
  "may_acquire it instanceId staleThreshold \<longleftrightarrow>
     get it ''port'' = None \<or> owner_of it = None \<or> owner_of it = Some (S instanceId) \<or>
     (case lease_of it of Some (Iso t) \<Rightarrow> t < staleThreshold | _ \<Rightarrow> False)"

lemma acquire_condition_holds [row_simps]:
  "condition_holds (acquire_condition i thr) it \<longleftrightarrow> may_acquire it i thr"
  by (cases it) (auto simp: acquire_condition_def may_acquire_def owner_of_def lease_of_def get_def
      split: option.splits attr.splits)

lemma owner_condition_holds [row_simps]:
  "condition_holds (owner_condition i) it \<longleftrightarrow> owner_of it = Some (S i)"
  by (cases it) (auto simp: owner_condition_def owner_of_def get_def)

definition epoch_allows :: "item option \<Rightarrow> int option \<Rightarrow> bool" where
  "epoch_allows it epoch \<longleftrightarrow> epoch_of it = map_option num epoch"

lemma raise_condition_holds [row_simps]:
  "condition_holds (raise_condition index ssrc fp g epoch) it \<longleftrightarrow>
     epoch_allows it epoch \<and>
     (get it ''srtpIndex'' = None \<or> generation_of it = None \<or>
      (case generation_of it of Some v \<Rightarrow> attr_less v (num g) | None \<Rightarrow> False) \<or>
      generation_of it = Some (num g) \<and> get it ''srtpIndexSsrc'' = Some (num ssrc) \<and>
      get it ''srtpIndexKeyFingerprint'' = Some (S fp) \<and>
      (case get it ''srtpIndex'' of Some v \<Rightarrow> attr_less v (num index) | None \<Rightarrow> False))"
  by (cases it; cases epoch)
    (auto simp: raise_condition_def epoch_allows_def epoch_of_def generation_of_def get_def
      split: option.splits)

lemma reset_condition_holds [row_simps]:
  "condition_holds (reset_condition r) it \<longleftrightarrow>
     (case epoch_of it of None \<Rightarrow> True | Some v \<Rightarrow> attr_less v (num (fr_requested_at r))) \<and>
     (case generation_of it of None \<Rightarrow> True
      | Some v \<Rightarrow> attr_less v (num (fr_generation r)) \<or> v = num (fr_generation r))"
  by (cases it)
    (auto simp: reset_condition_def epoch_of_def generation_of_def get_def split: option.splits)

lemma floor_fields_eq_iff:
  "floor_fields it = floor_fields it' \<longleftrightarrow>
     get it ''srtpIndex'' = get it' ''srtpIndex'' \<and> get it ''srtpIndexSsrc'' = get it' ''srtpIndexSsrc'' \<and>
     get it ''srtpIndexKeyFingerprint'' = get it' ''srtpIndexKeyFingerprint'' \<and>
     epoch_of it = epoch_of it' \<and> generation_of it = generation_of it'"
  by (simp add: floor_fields_def epoch_of_def generation_of_def)

lemma floor_of_fields: "floor_fields it = floor_fields it' \<Longrightarrow> floor_of it = floor_of it'"
  by (auto simp: floor_fields_eq_iff floor_of_def fun_eq_iff
      split: option.splits attr.splits jsnum.splits)

lemma floor_of_num [row_simps]:
  "get it ''srtpIndex'' = Some (num i) \<Longrightarrow>
    floor_of it ssrc fp =
      (if \<bar>i\<bar> \<le> max_safe_integer \<and> 0 \<le> i \<and> get it ''srtpIndexSsrc'' = Some (num ssrc) \<and>
          get it ''srtpIndexKeyFingerprint'' = Some (S fp) then Some i else None)"
  by (simp add: floor_of_def num_def is_safe_integer_def)

lemma floor_of_SomeD:
  "floor_of it ssrc fp = Some f \<Longrightarrow>
    get it ''srtpIndex'' = Some (num f) \<and> get it ''srtpIndexSsrc'' = Some (num ssrc) \<and>
    get it ''srtpIndexKeyFingerprint'' = Some (S fp) \<and> 0 \<le> f"
  by (auto simp: floor_of_def num_def split: option.splits attr.splits jsnum.splits if_splits)

lemma num_eq [simp]: "num i = num j \<longleftrightarrow> i = j"
  by (simp add: num_def)

lemma attr_less_num [simp]: "attr_less (num i) (num j) \<longleftrightarrow> i < j"
  by (simp add: num_def)

lemma map_of_project: "List.member ns a \<Longrightarrow> map_of (project (Some ns) r) a = map_of r a"
  by (induction r) (auto simp: project_def)

lemma epoch_of_project: "epoch_of (map_option (project (Some [''srtpFloorEpoch''])) it) = epoch_of it"
  by (cases it) (simp_all add: epoch_of_def get_def map_of_project)

lemma project_all [simp]: "map_option (project None) it = it"
  by (cases it) (simp_all add: project_def)

section \<open>What each operation does, whatever the answer\<close>

context dynamo
begin

lemma acquire_effect:
  assumes "tryAcquireKinesisLock send p i now now' db = (r, db')"
  shows "item_of db' = item_of db \<and> r \<noteq> Inr True \<and>
      (r = Inr False \<longrightarrow> \<not> may_acquire (item_of db p) i (now' - kinesis_lock_stale_ms)) \<or>
    may_acquire (item_of db p) i (now' - kinesis_lock_stale_ms) \<and> r \<noteq> Inr False \<and>
      item_of db' = (item_of db)(p \<mapsto> updated p (acquire_actions i now) (item_of db p))"
proof -
  obtain resp where s: "send (UpdateItem p (acquire_actions i now)
      (acquire_condition i (now' - kinesis_lock_stale_ms))) db = (resp, db')"
    using assms by (auto simp: tryAcquireKinesisLock_def split: prod.splits response.splits)
  have "may_acquire (Some (updated p (acquire_actions i now) (item_of db p))) i t" for t
    by (simp add: may_acquire_def row_simps)
  then show ?thesis
    using s assms update_answer
    by (cases rule: update_cases [OF s])
      (auto simp: tryAcquireKinesisLock_def row_simps split: response.splits)
qed

lemma release_effect:
  assumes "releaseKinesisLock send p i now db = (r, db')"
  shows "item_of db' = item_of db \<and> (r = Inr () \<longrightarrow> owner_of (item_of db p) \<noteq> Some (S i)) \<or>
    owner_of (item_of db p) = Some (S i) \<and>
      item_of db' = (item_of db)(p \<mapsto> updated p (release_actions now) (item_of db p))"
proof -
  obtain resp where s: "send (UpdateItem p (release_actions now) (owner_condition i)) db = (resp, db')"
    using assms by (auto simp: releaseKinesisLock_def split: prod.splits response.splits)
  show ?thesis
    using s assms update_answer
    by (cases rule: update_cases [OF s])
      (auto simp: releaseKinesisLock_def row_simps split: response.splits)
qed

lemma refresh_effect:
  assumes "updateLastPacketTime send p i now updates db = (r, updates', db')"
  shows "item_of db' = item_of db \<and>
      (r = WriteOk \<longrightarrow> now - nullish (map_of updates p) 0 < update_throttle_ms) \<and>
      (r = LostLock \<longrightarrow> owner_of (item_of db p) \<noteq> Some (S i)) \<or>
    owner_of (item_of db p) = Some (S i) \<and> r \<noteq> LostLock \<and>
      item_of db' = (item_of db)(p \<mapsto> updated p (refresh_actions now) (item_of db p))"
proof (cases "now - nullish (map_of updates p) 0 < update_throttle_ms")
  case True
  then show ?thesis using assms by (simp add: updateLastPacketTime_def)
next
  case False
  then obtain resp where s: "send (UpdateItem p (refresh_actions now) (owner_condition i)) db = (resp, db')"
    using assms by (auto simp: updateLastPacketTime_def split: prod.splits response.splits)
  show ?thesis
    using s assms False update_answer
    by (cases rule: update_cases [OF s])
      (auto simp: updateLastPacketTime_def row_simps split: response.splits)
qed

lemma raise_effect:
  assumes "raiseSrtpIndexFloor send p index ssrc fp g epoch now db = db'"
  shows "item_of db' = item_of db \<or>
    condition_holds (raise_condition index ssrc fp g epoch) (item_of db p) \<and>
      item_of db' = (item_of db)(p \<mapsto> updated p (raise_actions index ssrc fp g now) (item_of db p))"
proof -
  obtain resp where s: "send (UpdateItem p (raise_actions index ssrc fp g now)
      (raise_condition index ssrc fp g epoch)) db = (resp, db')"
    using assms by (auto simp: raiseSrtpIndexFloor_def) (metis prod.collapse)
  show ?thesis by (cases rule: update_cases [OF s]) auto
qed

lemma reset_effect:
  assumes "resetSrtpIndexFloor send p reset now db = (r, db')"
  shows "item_of db' = item_of db \<and> r \<noteq> Inr ResetDone \<and>
      (r = Inr ResetStale \<longrightarrow> \<not> condition_holds (reset_condition reset) (item_of db p)) \<or>
    condition_holds (reset_condition reset) (item_of db p) \<and>
      item_of db' = (item_of db)(p \<mapsto> updated p (reset_actions reset now) (item_of db p))"
proof -
  obtain resp where s: "send (UpdateItem p (reset_actions reset now) (reset_condition reset)) db = (resp, db')"
    using assms by (auto simp: resetSrtpIndexFloor_def split: prod.splits response.splits)
  show ?thesis
    using s assms update_answer
    by (cases rule: update_cases [OF s])
      (auto simp: resetSrtpIndexFloor_def split: response.splits)
qed

lemma read_effect:
  "getSrtpIndexFloor send p ssrc fp db = (r, db') \<Longrightarrow>
    item_of db' = item_of db \<and> (\<forall>f. r = Inr f \<longrightarrow> f = floor_of (item_of db p) ssrc fp)"
  "getSrtpFloorEpoch send p db = (e, db') \<Longrightarrow>
    item_of db' = item_of db \<and> (\<forall>x. e = Inr x \<longrightarrow> x = safe_int (epoch_of (item_of db p)))"
proof -
  show "item_of db' = item_of db \<and> (\<forall>f. r = Inr f \<longrightarrow> f = floor_of (item_of db p) ssrc fp)"
    if "getSrtpIndexFloor send p ssrc fp db = (r, db')"
    using that get_found [of p None db] get_failed [of p None db] get_answer [of p None db]
    by (auto simp: getSrtpIndexFloor_def split: prod.splits response.splits)
  show "item_of db' = item_of db \<and> (\<forall>x. e = Inr x \<longrightarrow> x = safe_int (epoch_of (item_of db p)))"
    if "getSrtpFloorEpoch send p db = (e, db')"
    using that get_found [of p "Some [''srtpFloorEpoch'']" db]
      get_failed [of p "Some [''srtpFloorEpoch'']" db] get_answer [of p "Some [''srtpFloorEpoch'']" db]
    by (auto simp: getSrtpFloorEpoch_def epoch_of_project split: prod.splits response.splits)
qed

end

lemma absent_row [simp]: "owner_of None = None" "lease_of None = None" "epoch_of None = None"
  "generation_of None = None"
  by (simp_all add: owner_of_def lease_of_def epoch_of_def generation_of_def)

section \<open>The lock and the lease\<close>

text \<open>An acquisition that returns true found the port free, its own, or its lease older than
  five minutes, and leaves it owned by the caller with a lease of now; one that returns false
  found another owner with a lease that is not, and changed nothing; and one that throws has
  either changed nothing or taken a lock it could have taken. No answer touches another port
  or the replay floor.\<close>

theorem acquire_outcome:
  assumes "dynamo send item_of"
    and "tryAcquireKinesisLock send p i now now' db = (r, db')"
  shows "(let could = may_acquire (item_of db p) i (now' - kinesis_lock_stale_ms);
              owned = owner_of (item_of db' p) = Some (S i) \<and> lease_of (item_of db' p) = Some (Iso now)
          in case r of
               Inr True \<Rightarrow> could \<and> owned
             | Inr False \<Rightarrow> \<not> could \<and> item_of db' = item_of db
             | Inl e \<Rightarrow> item_of db' = item_of db \<or> could \<and> owned) \<and>
    floor_fields (item_of db' p) = floor_fields (item_of db p) \<and>
    item_of db' = (item_of db)(p := item_of db' p)"
  using dynamo.acquire_effect [OF assms]
  by (auto simp: Let_def row_simps split: sum.splits bool.splits)

definition free_table :: table where
  "free_table = \<lparr>rows = [], faults = []\<rparr>"

lemma acquire_outcome_witness:
  "(let t = snd (tryAcquireKinesisLock table_send 5000 (js ''a'') 1700000000000 1700000000000 free_table)
    in owner_of (table_item t 5000) = Some (S (js ''a'')) \<and>
       lease_of (table_item t 5000) = Some (Iso 1700000000000))"
proof -
  obtain r t where eq:
    "tryAcquireKinesisLock table_send 5000 (js ''a'') 1700000000000 1700000000000 free_table = (r, t)"
    by fastforce
  then have "r = Inr True"
    by (simp add: tryAcquireKinesisLock_def free_table_def table_item_def next_fault_def
        row_simps may_acquire_def Let_def)
  then show ?thesis using acquire_outcome [OF dynamo_table eq] by (simp add: eq Let_def)
qed

text \<open>A refresh says \<open>lostLock\<close> only when the row has another owner or none, and then has
  changed nothing; an unthrottled \<open>ok\<close> means that the caller owns the row and its lease is
  now. A write that did not succeed clears the throttle, so that the next call writes again,
  and a throttled call reports \<open>ok\<close> without a write.\<close>

theorem refresh_outcome:
  assumes "dynamo send item_of"
    and "updateLastPacketTime send p i now updates db = (r, updates', db')"
  shows "(let throttled = now - nullish (map_of updates p) 0 < update_throttle_ms
          in case r of
               WriteOk \<Rightarrow>
                 (if throttled then item_of db' = item_of db \<and> updates' = updates
                  else owner_of (item_of db p) = Some (S i) \<and> owner_of (item_of db' p) = Some (S i) \<and>
                    lease_of (item_of db' p) = Some (Iso now) \<and> map_of updates' p = Some now)
             | LostLock \<Rightarrow> item_of db' = item_of db \<and> owner_of (item_of db p) \<noteq> Some (S i) \<and>
                 map_of updates' p = None
             | WriteError \<Rightarrow> map_of updates' p = None) \<and>
    floor_fields (item_of db' p) = floor_fields (item_of db p) \<and>
    item_of db' = (item_of db)(p := item_of db' p)"
proof -
  have "r = WriteOk \<Longrightarrow> now - nullish (map_of updates p) 0 < update_throttle_ms \<Longrightarrow>
      db' = db \<and> updates' = updates"
    "\<not> now - nullish (map_of updates p) 0 < update_throttle_ms \<Longrightarrow>
      map_of updates' p = (if r = WriteOk then Some now else None)"
    "now - nullish (map_of updates p) 0 < update_throttle_ms \<Longrightarrow> r = WriteOk"
    using assms(2) dynamo.update_answer [OF assms(1)]
    by (auto simp: updateLastPacketTime_def split: prod.splits response.splits if_splits)
  then show ?thesis
    using dynamo.refresh_effect [OF assms] by (auto simp: Let_def row_simps split: owned_write.splits)
qed

definition owned_table :: table where
  "owned_table = \<lparr>rows = [(5000, [(''port'', num 5000), (''kinesisOwnerInstanceId'', S (js ''a'')),
     (''lastPacketTime'', Iso 1700000000000)])], faults = []\<rparr>"

lemma refresh_outcome_witness:
  "(let (r, u, t) = updateLastPacketTime table_send 5000 (js ''b'') 1700000020000 [] owned_table
    in r = LostLock \<and> table_item t = table_item owned_table)"
proof -
  obtain r u t where eq: "updateLastPacketTime table_send 5000 (js ''b'') 1700000020000 [] owned_table = (r, u, t)"
    by (rule prod_cases3)
  then have "r = LostLock"
    by (simp add: updateLastPacketTime_def owned_table_def table_item_def next_fault_def row_simps
        update_throttle_ms_def owner_of_def get_def)
  then show ?thesis
    using refresh_outcome [OF dynamo_table eq] by (simp add: eq Let_def)
qed

section \<open>The replay floor over a history of operations\<close>

datatype row_op =
    AcquireOp int js_string int int
  | ReleaseOp int js_string int
  | RefreshOp int js_string int update_times
  | RaiseOp int int int js_string int "int option" int
  | ResetOp int floor_reset int
  | ReadEpochOp int
  | ReadFloorOp int int js_string

fun run_op :: "(request \<Rightarrow> 'db \<Rightarrow> response \<times> 'db) \<Rightarrow> row_op \<Rightarrow> 'db \<Rightarrow> 'db" where
  "run_op send (AcquireOp p i now now') db = snd (tryAcquireKinesisLock send p i now now' db)"
| "run_op send (ReleaseOp p i now) db = snd (releaseKinesisLock send p i now db)"
| "run_op send (RefreshOp p i now updates) db = snd (snd (updateLastPacketTime send p i now updates db))"
| "run_op send (RaiseOp p index ssrc fp g epoch now) db =
     raiseSrtpIndexFloor send p index ssrc fp g epoch now db"
| "run_op send (ResetOp p reset now) db = snd (resetSrtpIndexFloor send p reset now db)"
| "run_op send (ReadEpochOp p) db = snd (getSrtpFloorEpoch send p db)"
| "run_op send (ReadFloorOp p ssrc fp) db = snd (getSrtpIndexFloor send p ssrc fp db)"

definition run_ops :: "(request \<Rightarrow> 'db \<Rightarrow> response \<times> 'db) \<Rightarrow> row_op list \<Rightarrow> 'db \<Rightarrow> 'db" where
  "run_ops send ops db = fold (run_op send) ops db"

text \<open>The indices the callers pass are those of the helper's frames, and a reset is not part
  of an ordinary history.\<close>

fun ordinary :: "row_op \<Rightarrow> bool" where
  "ordinary (RaiseOp p index ssrc fp g epoch now) \<longleftrightarrow> 0 \<le> index \<and> index \<le> max_safe_integer"
| "ordinary (ResetOp p reset now) \<longleftrightarrow> False"
| "ordinary _ \<longleftrightarrow> True"

text \<open>The row holds a floor of at least \<open>f\<close> for this key, or the floor of a newer key.\<close>

definition floor_kept :: "int \<Rightarrow> js_string \<Rightarrow> int \<Rightarrow> int \<Rightarrow> item option \<Rightarrow> bool" where
  "floor_kept ssrc fp g f it \<longleftrightarrow>
     (case int_of (generation_of it) of
        None \<Rightarrow> False
      | Some g' \<Rightarrow> get it ''srtpIndex'' \<noteq> None \<and>
          (g < g' \<or> g = g' \<and> (case floor_of it ssrc fp of None \<Rightarrow> False | Some f' \<Rightarrow> f \<le> f')))"

lemma int_of_num [simp]: "int_of (Some (num i)) = Some i"
  by (simp add: int_of_def num_def)

lemma int_of_SomeD: "int_of v = Some i \<Longrightarrow> v = Some (num i)"
  by (auto simp: int_of_def num_def split: option.splits attr.splits jsnum.splits)

lemma floor_kept_fields: "floor_fields it = floor_fields it' \<Longrightarrow> floor_kept ssrc fp g f it = floor_kept ssrc fp g f it'"
  using floor_of_fields [of it it']
  by (auto simp: floor_kept_def floor_fields_eq_iff split: option.splits)

lemma reset_row_epoch [row_simps]:
  "epoch_of (Some (updated p (reset_actions reset now) it)) = Some (num (fr_requested_at reset))"
  using reset_row(2) [of p reset now it] by (simp add: floor_fields_def epoch_of_def)

lemma raise_row_epoch [row_simps]:
  "epoch_of (Some (updated p (raise_actions index ssrc fp g now) it)) = epoch_of it"
  using raise_row(2) [of p index ssrc fp g now it] by (simp add: floor_fields_def epoch_of_def)

definition epoch_reached :: "int \<Rightarrow> item option \<Rightarrow> bool" where
  "epoch_reached e it \<longleftrightarrow> (case int_of (epoch_of it) of None \<Rightarrow> False | Some e' \<Rightarrow> e \<le> e')"

context dynamo
begin

lemma lock_op_fields:
  assumes "case op of RaiseOp p index ssrc fp g epoch now \<Rightarrow> False | ResetOp p reset now \<Rightarrow> False | _ \<Rightarrow> True"
  shows "floor_fields (item_of (run_op send op db) q) = floor_fields (item_of db q)"
proof (cases op)
  case (AcquireOp p i now now')
  then show ?thesis
    using acquire_effect [of p i now now' db] by (cases "tryAcquireKinesisLock send p i now now' db")
      (auto simp: row_simps)
next
  case (ReleaseOp p i now)
  then show ?thesis
    using release_effect [of p i now db] by (cases "releaseKinesisLock send p i now db")
      (auto simp: row_simps)
next
  case (RefreshOp p i now updates)
  then show ?thesis
    using refresh_effect [of p i now updates db] by (cases "updateLastPacketTime send p i now updates db")
      (auto simp: row_simps)
next
  case (ReadEpochOp p)
  then show ?thesis
    using read_effect(2) [of p db] by (cases "getSrtpFloorEpoch send p db") auto
next
  case (ReadFloorOp p ssrc fp)
  then show ?thesis
    using read_effect(1) [of p ssrc fp db] by (cases "getSrtpIndexFloor send p ssrc fp db") auto
qed (use assms in simp_all)

lemma raise_keeps:
  assumes "0 \<le> index" "index \<le> max_safe_integer" and "floor_kept ssrc fp g f (item_of db q)"
  shows "floor_kept ssrc fp g f (item_of (raiseSrtpIndexFloor send p index ssrc' fp' g' epoch now db) q)"
proof -
  from raise_effect [OF refl, of p index ssrc' fp' g' epoch now db] show ?thesis
  proof (elim disjE conjE)
    assume c: "condition_holds (raise_condition index ssrc' fp' g' epoch) (item_of db p)"
      and db': "item_of (raiseSrtpIndexFloor send p index ssrc' fp' g' epoch now db) =
        (item_of db)(p \<mapsto> updated p (raise_actions index ssrc' fp' g' now) (item_of db p))"
    define it where "it = item_of db p"
    define it' where "it' = Some (updated p (raise_actions index ssrc' fp' g' now) it)"
    have f': "get it' ''srtpIndex'' = Some (num index)" "get it' ''srtpIndexSsrc'' = Some (num ssrc')"
      "get it' ''srtpIndexKeyFingerprint'' = Some (S fp')" "generation_of it' = Some (num g')"
      using raise_row(2) [of p index ssrc' fp' g' now it]
      by (simp_all add: it'_def floor_fields_def generation_of_def)
    have "floor_kept ssrc fp g f it'" if kept: "floor_kept ssrc fp g f it"
    proof -
      obtain g0 where g0: "generation_of it = Some (num g0)" "get it ''srtpIndex'' \<noteq> None"
          "g < g0 \<or> g = g0 \<and> (\<exists>f'. floor_of it ssrc fp = Some f' \<and> f \<le> f')"
        using kept by (auto simp: floor_kept_def dest: int_of_SomeD split: option.splits)
      show ?thesis
      proof (cases "g0 < g'")
        case True
        with g0 f' show ?thesis by (auto simp: floor_kept_def)
      next
        case False
        with c g0(1,2) have same: "g0 = g'" "get it ''srtpIndexSsrc'' = Some (num ssrc')"
            "get it ''srtpIndexKeyFingerprint'' = Some (S fp')"
          and less: "\<And>v. get it ''srtpIndex'' = Some v \<Longrightarrow> attr_less v (num index)"
          by (auto simp: row_simps it_def [symmetric])
        with f' g0(3) assms(1,2) show ?thesis
          by (auto simp: floor_kept_def floor_of_num dest!: floor_of_SomeD)
      qed
    qed
    then show ?thesis using assms(3) by (auto simp: db' it_def it'_def)
  qed (use assms in simp)
qed

lemma reset_epoch:
  assumes "epoch_reached e (item_of db q)"
  shows "epoch_reached e (item_of (snd (resetSrtpIndexFloor send p reset now db)) q)"
proof -
  obtain r db' where "resetSrtpIndexFloor send p reset now db = (r, db')" by fastforce
  moreover from reset_effect [OF this] assms have "epoch_reached e (item_of db' q)"
    by (cases "q = p") (auto simp: row_simps epoch_reached_def dest!: int_of_SomeD split: option.splits)
  ultimately show ?thesis by simp
qed

lemma raise_epoch:
  "epoch_of (item_of (raiseSrtpIndexFloor send p index ssrc fp g epoch now db) q) = epoch_of (item_of db q)"
  using raise_effect [OF refl, of p index ssrc fp g epoch now db]
  by (auto simp: row_simps)

lemma op_epoch: "epoch_reached e (item_of db q) \<Longrightarrow> epoch_reached e (item_of (run_op send op db) q)"
proof (cases op)
  case (RaiseOp p index ssrc fp g epoch now)
  then show "epoch_reached e (item_of db q) \<Longrightarrow> ?thesis" by (simp add: epoch_reached_def raise_epoch)
next
  case (ResetOp p reset now)
  then show "epoch_reached e (item_of db q) \<Longrightarrow> ?thesis" using reset_epoch by simp
qed (use lock_op_fields [of op db q] in \<open>simp_all add: epoch_reached_def floor_fields_eq_iff\<close>)

lemma ops_epoch: "epoch_reached e (item_of db q) \<Longrightarrow> epoch_reached e (item_of (run_ops send ops db) q)"
  by (induction ops arbitrary: db) (auto simp: run_ops_def op_epoch)

lemma epoch_read:
  assumes "getSrtpFloorEpoch send p db = (Inr (Some e), db')"
  shows "epoch_reached e (item_of db p)"
  using read_effect(2) [OF assms]
  by (auto simp: epoch_reached_def safe_int_def int_of_def split: option.splits attr.splits jsnum.splits if_splits)

text \<open>A reset that landed found only epochs before its own; and once it has landed, no raise under
  such an epoch has an effect.\<close>

lemma reset_done_epoch:
  assumes "resetSrtpIndexFloor send p reset now db = (Inr ResetDone, db')"
  shows "epoch_reached e (item_of db p) \<Longrightarrow> e < fr_requested_at reset"
    and "epoch_reached (fr_requested_at reset) (item_of db' p)"
  using reset_effect [OF assms]
  by (auto simp: epoch_reached_def row_simps dest!: int_of_SomeD split: option.splits)

lemma stale_raise_refused:
  assumes "epoch_reached t (item_of db p)" and "case epoch of None \<Rightarrow> True | Some e \<Rightarrow> e < t"
  shows "item_of (raiseSrtpIndexFloor send p index ssrc fp g epoch now db) = item_of db"
proof -
  have "\<not> epoch_allows (item_of db p) epoch"
    using assms by (auto simp: epoch_reached_def epoch_allows_def dest!: int_of_SomeD split: option.splits)
  then show ?thesis
    using raise_effect [OF refl, of p index ssrc fp g epoch now db] by (auto simp: row_simps)
qed

lemma op_keeps:
  assumes "ordinary op" and "floor_kept ssrc fp g f (item_of db q)"
  shows "floor_kept ssrc fp g f (item_of (run_op send op db) q)"
proof (cases op)
  case (RaiseOp p index ssrc' fp' g' epoch now)
  then show ?thesis using assms raise_keeps by simp
next
  case (ResetOp p reset now)
  then show ?thesis using assms by simp
qed (use assms lock_op_fields [of op db q] in \<open>simp_all cong: floor_kept_fields\<close>)

lemma ops_keep:
  "list_all ordinary ops \<Longrightarrow> floor_kept ssrc fp g f (item_of db q) \<Longrightarrow>
    floor_kept ssrc fp g f (item_of (run_ops send ops db) q)"
  by (induction ops arbitrary: db) (auto simp: run_ops_def op_keeps)

end

text \<open>C12. Over any history of lock requests and floor raises, on any ports, by any instances and
  in any order, with any of the writes lost or retried, the floor a row holds for a key never
  falls: it stays at least what it was, or the row has passed to a newer key.\<close>

theorem floor_never_falls:
  assumes "dynamo send item_of" and "list_all ordinary ops"
    and "floor_kept ssrc fp g f (item_of db q)"
  shows "floor_kept ssrc fp g f (item_of (run_ops send ops db) q)"
  using dynamo.ops_keep [OF assms(1) assms(2,3)] .

definition floor_row :: "int \<Rightarrow> int \<Rightarrow> item" where
  "floor_row index generation =
     [(''port'', num 5000), (''srtpIndex'', num index), (''srtpIndexSsrc'', num 7),
      (''srtpIndexKeyFingerprint'', S (js ''k'')), (''srtpKeyGeneration'', num generation)]"

definition floor_table :: table where
  "floor_table = \<lparr>rows = [(5000, floor_row 70000 2)], faults = [Retried, LostAfter]\<rparr>"

lemma floor_never_falls_witness:
  "floor_kept 7 (js ''k'') 2 70000 (table_item (run_ops table_send
     [RaiseOp 5000 80000 7 (js ''k'') 2 None 1, RaiseOp 5000 60000 7 (js ''k'') 2 None 2,
      AcquireOp 5000 (js ''a'') 3 3] floor_table) 5000)"
proof (rule floor_never_falls [OF dynamo_table])
  show "floor_kept 7 (js ''k'') 2 70000 (table_item floor_table 5000)"
    by (simp add: floor_kept_def floor_table_def floor_row_def table_item_def get_def generation_of_def
        floor_of_num max_safe_integer_def)
qed (simp add: max_safe_integer_def)

lemma reset_replay_refused:
  assumes "dynamo send item_of"
    and "resetSrtpIndexFloor send p reset now db = (Inr ResetDone, db1)"
    and "fr_requested_at reset' \<le> fr_requested_at reset"
    and "resetSrtpIndexFloor send p reset' now' (run_ops send ops db1) = (r, db2)"
  shows "item_of db2 = item_of (run_ops send ops db1) \<and> r \<noteq> Inr ResetDone"
proof -
  have "epoch_reached (fr_requested_at reset) (item_of (run_ops send ops db1) p)"
    using dynamo.ops_epoch [OF assms(1) dynamo.reset_done_epoch(2) [OF assms(1,2)]] .
  then have "\<not> condition_holds (reset_condition reset') (item_of (run_ops send ops db1) p)"
    using assms(3) by (auto simp: epoch_reached_def row_simps dest!: int_of_SomeD split: option.splits)
  then show ?thesis using dynamo.reset_effect [OF assms(1,4)] by blast
qed

text \<open>A reset that landed is good for one use: after any further history, a reset with the
  same timestamp or an earlier one is refused or fails, and changes nothing.\<close>

theorem reset_used_once:
  assumes "dynamo send item_of"
    and "resetSrtpIndexFloor send p reset now db = (Inr ResetDone, db1)"
    and "fr_requested_at reset' \<le> fr_requested_at reset"
    and "resetSrtpIndexFloor send p reset' now' (run_ops send ops db1) = (r, db2)"
  shows "item_of db2 = item_of (run_ops send ops db1) \<and> r \<noteq> Inr ResetDone"
  using assms by (rule reset_replay_refused)

definition sample_reset :: floor_reset where
  "sample_reset = \<lparr>fr_requested_at = 1700000000000, fr_floor = 100, fr_ssrc = 7,
     fr_fingerprint = js ''k'', fr_generation = 2\<rparr>"

definition after_reset :: table where
  "after_reset = snd (resetSrtpIndexFloor table_send 5000 sample_reset 1 free_table)"

lemma sample_reset_done:
  "resetSrtpIndexFloor table_send 5000 sample_reset 1 free_table = (Inr ResetDone, after_reset)"
  unfolding after_reset_def
  by (simp add: resetSrtpIndexFloor_def free_table_def table_item_def next_fault_def row_simps
      epoch_of_def generation_of_def Let_def)

lemma reset_used_once_witness:
  "fst (resetSrtpIndexFloor table_send 5000 sample_reset 9
     (run_ops table_send [AcquireOp 5000 (js ''a'') 2 2, RaiseOp 5000 400 7 (js ''k'') 2 (Some 1700000000000) 3]
       after_reset)) \<noteq> Inr ResetDone"
  using reset_used_once [OF dynamo_table sample_reset_done order_refl prod.collapse [symmetric]]
  by blast

text \<open>The fence: once a reset has landed, whatever follows, a helper that was started before
  it - with no epoch, or with an earlier one - cannot write its maximum back over the floor.\<close>

theorem reset_fences_old_helpers:
  assumes "dynamo send item_of"
    and "resetSrtpIndexFloor send p reset now db = (Inr ResetDone, db1)"
    and "case epoch of None \<Rightarrow> True | Some e \<Rightarrow> e < fr_requested_at reset"
  shows "item_of (raiseSrtpIndexFloor send p index ssrc fp g epoch now' (run_ops send ops db1)) =
    item_of (run_ops send ops db1)"
  by (rule dynamo.stale_raise_refused [OF assms(1) dynamo.ops_epoch [OF assms(1)]])
    (use dynamo.reset_done_epoch(2) [OF assms(1,2)] assms(3) in simp_all)

lemma reset_fences_old_helpers_witness:
  "table_item (raiseSrtpIndexFloor table_send 5000 90000 7 (js ''k'') 2 (Some 1600000000000) 5
     (run_ops table_send [RaiseOp 5000 400 7 (js ''k'') 2 (Some 1700000000000) 3] after_reset)) =
   table_item (run_ops table_send [RaiseOp 5000 400 7 (js ''k'') 2 (Some 1700000000000) 3] after_reset)"
  by (rule reset_fences_old_helpers [OF dynamo_table sample_reset_done])
    (simp add: sample_reset_def)

text \<open>C18. What \<open>resetSrtpIndexFloor\<close> reports: \<open>reset\<close> means that the condition held and the row
  carries the new floor under the new epoch. A refusal does not mean that nothing happened: it
  changed nothing unless the condition held before and the row now carries this very reset -
  the write was applied, its answer lost, and the SDK's second attempt refused by the first.\<close>

theorem reset_outcome:
  assumes "dynamo send item_of"
    and "resetSrtpIndexFloor send p reset now db = (r, db')"
  shows "(let could = condition_holds (reset_condition reset) (item_of db p);
              done = epoch_of (item_of db' p) = Some (num (fr_requested_at reset)) \<and>
                get (item_of db' p) ''srtpIndex'' = Some (num (fr_floor reset)) \<and>
                generation_of (item_of db' p) = Some (num (fr_generation reset))
          in (case r of Inr ResetDone \<Rightarrow> could \<and> done
              | Inr ResetStale \<Rightarrow>
                  \<not> could \<and> item_of db' = item_of db \<or> could \<and> done
              | Inl e \<Rightarrow> item_of db' = item_of db \<or> could \<and> done)) \<and>
    lock_fields (item_of db' p) = lock_fields (item_of db p) \<and>
    item_of db' = (item_of db)(p := item_of db' p)"
  using dynamo.reset_effect [OF assms] reset_row(2) [of p reset now "item_of db p"]
  by (auto simp: Let_def row_simps floor_fields_def generation_of_def split: sum.splits reset_result.splits)

lemma reset_outcome_witness:
  "(let (r, t) = resetSrtpIndexFloor table_send 5000 sample_reset 1 (free_table\<lparr>faults := [Retried]\<rparr>)
    in r = Inr ResetStale \<and> epoch_of (table_item t 5000) = Some (num 1700000000000))"
proof -
  obtain r t where eq:
    "resetSrtpIndexFloor table_send 5000 sample_reset 1 (free_table\<lparr>faults := [Retried]\<rparr>) = (r, t)"
    by fastforce
  then have "r = Inr ResetStale"
    by (simp add: resetSrtpIndexFloor_def free_table_def table_item_def next_fault_def row_simps
        Let_def sample_reset_def)
  moreover have "condition_holds (reset_condition sample_reset)
      (table_item (free_table\<lparr>faults := [Retried]\<rparr>) 5000)"
    by (simp add: free_table_def table_item_def row_simps epoch_of_def generation_of_def)
  ultimately show ?thesis
    using reset_outcome [OF dynamo_table eq] unfolding eq by (simp add: Let_def sample_reset_def)
qed

end
