(* ===== verification/Lambdas.thy ===== *)
theory Lambdas
imports StreamMetadata
begin

text \<open>
  The two scheduled and triggered functions: \<open>lambda/stream-inactivity-cleanup/index.ts\<close>,
  which gives up the lock of ports whose lease is old, and
  \<open>lambda/restart-ingestion-on-alarm/index.ts\<close>, which reboots the instances of the group when
  the alarm fires. The services are parameters: \<open>send\<close> and \<open>scan\<close> for the table, \<open>describe\<close>
  and \<open>reboot\<close> for the instances.
\<close>

section \<open>The inactivity cleanup\<close>

definition inactivity_threshold_ms :: int where
  "inactivity_threshold_ms = 5 * 60 * 1000"

definition cleanup_actions :: "int \<Rightarrow> action list" where
  "cleanup_actions now =
     [Remove ''kinesisOwnerInstanceId'', SetTo ''status'' (S (js ''inactive'')),
      SetTo ''updatedAt'' (Iso now)]"

definition cleanup_condition :: "int \<Rightarrow> condition" where
  "cleanup_condition staleThreshold =
     All [Equal ''status'' (S (js ''active'')), Less ''lastPacketTime'' (Iso staleThreshold)]"

text \<open>One port's request; the result says whether it was cleaned.\<close>

definition cleanup_port ::
  "(request \<Rightarrow> 'db \<Rightarrow> response \<times> 'db) \<Rightarrow> int \<Rightarrow> int \<Rightarrow> int \<Rightarrow> 'db \<Rightarrow> bool outcome \<times> 'db"
where
  "cleanup_port send port staleThreshold now db =
     (case send (UpdateItem port (cleanup_actions now) (cleanup_condition staleThreshold)) db of
        (ConditionalCheckFailed, db') \<Rightarrow> (Inr False, db')
      | (Failed e, db') \<Rightarrow> (Inl e, db')
      | (_, db') \<Rightarrow> (Inr True, db'))"

definition time_of :: "attr option \<Rightarrow> int option" where
  "time_of v = (case v of Some (Iso t) \<Rightarrow> Some t | _ \<Rightarrow> None)"

text \<open>The loop over the scanned items; \<open>clock k\<close> is the k-th time it reads.\<close>

fun cleanup_items ::
  "(request \<Rightarrow> 'db \<Rightarrow> response \<times> 'db) \<Rightarrow> (nat \<Rightarrow> int) \<Rightarrow> nat \<Rightarrow> int \<Rightarrow> item list \<Rightarrow> nat \<Rightarrow> 'db \<Rightarrow>
    nat outcome \<times> 'db"
where
  "cleanup_items send clock k staleThreshold [] cleaned db = (Inr cleaned, db)"
| "cleanup_items send clock k staleThreshold (r # rs) cleaned db =
     (case (int_of (map_of r ''port''), time_of (map_of r ''lastPacketTime'')) of
        (Some port, Some lastPacketTime) \<Rightarrow>
          (if lastPacketTime \<ge> staleThreshold
           then cleanup_items send clock k staleThreshold rs cleaned db
           else
             (case cleanup_port send port staleThreshold (clock k) db of
                (Inl e, db') \<Rightarrow> (Inl e, db')
              | (Inr True, db') \<Rightarrow> cleanup_items send clock (Suc k) staleThreshold rs (Suc cleaned) db'
              | (Inr False, db') \<Rightarrow> cleanup_items send clock (Suc k) staleThreshold rs cleaned db'))
      | _ \<Rightarrow> cleanup_items send clock k staleThreshold rs cleaned db)"

definition cleanup_handler ::
  "(request \<Rightarrow> 'db \<Rightarrow> response \<times> 'db) \<Rightarrow> ('db \<Rightarrow> item list outcome \<times> 'db) \<Rightarrow> (nat \<Rightarrow> int) \<Rightarrow>
    js_string option \<Rightarrow> 'db \<Rightarrow> (nat \<times> nat) outcome \<times> 'db"
where
  "cleanup_handler send scan clock tableName db =
     (if tableName = None \<or> tableName = Some []
      then (Inl (js ''TABLE_NAME environment variable is required''), db)
      else
        (case scan db of
           (Inl e, db') \<Rightarrow> (Inl e, db')
         | (Inr items, db') \<Rightarrow>
             (case cleanup_items send clock 1 (clock 0 - inactivity_threshold_ms) items 0 db' of
                (Inl e, db'') \<Rightarrow> (Inl e, db'')
              | (Inr cleaned, db'') \<Rightarrow> (Inr (cleaned, length items), db''))))"

section \<open>Restarting on the alarm\<close>

record restart_result =
  rebooted :: "js_string list"
  skipped :: bool

text \<open>\<open>message.NewStateValue\<close>: a property of null is a \<open>TypeError\<close>, one of any value that is
  not an object is undefined.\<close>

definition new_state_value :: "jsval \<Rightarrow> jsval option outcome" where
  "new_state_value message =
     (case message of
        JNull \<Rightarrow> Inl (js ''TypeError'')
      | JObj ob \<Rightarrow> Inr (field ob ''NewStateValue'')
      | _ \<Rightarrow> Inr None)"

definition restart_handler ::
  "('w \<Rightarrow> js_string option list outcome \<times> 'w) \<Rightarrow> (js_string list \<Rightarrow> 'w \<Rightarrow> unit outcome \<times> 'w) \<Rightarrow>
    js_string option \<Rightarrow> js_string option \<Rightarrow> 'w \<Rightarrow> restart_result outcome \<times> 'w"
where
  "restart_handler describe reboot asgName raw w =
     (if asgName = None \<or> asgName = Some []
      then (Inl (js ''AUTO_SCALING_GROUP_NAME environment variable is required''), w)
      else
        (case raw of
           None \<Rightarrow> (Inr \<lparr>rebooted = [], skipped = True\<rparr>, w)
         | Some text \<Rightarrow>
             (case json_parse text of
                None \<Rightarrow> (Inr \<lparr>rebooted = [], skipped = True\<rparr>, w)
              | Some message \<Rightarrow>
                  (case new_state_value message of
                     Inl e \<Rightarrow> (Inl e, w)
                   | Inr v \<Rightarrow>
                       (if v \<noteq> Some (JStr (js ''ALARM''))
                        then (Inr \<lparr>rebooted = [], skipped = True\<rparr>, w)
                        else
                          (case describe w of
                             (Inl e, w') \<Rightarrow> (Inl e, w')
                           | (Inr ids, w') \<Rightarrow>
                               (let instanceIds = List.map_filter id ids in
                                if instanceIds = []
                                then (Inr \<lparr>rebooted = [], skipped = False\<rparr>, w')
                                else
                                  (case reboot instanceIds w' of
                                     (Inl e, w'') \<Rightarrow> (Inl e, w'')
                                   | (Inr _, w'') \<Rightarrow>
                                       (Inr \<lparr>rebooted = instanceIds, skipped = False\<rparr>, w'')))))))))"

section \<open>What the cleanup does to a row\<close>

lemma cleanup_row [row_simps]:
  "owner_of (Some (updated p (cleanup_actions now) it)) = None"
  "lease_of (Some (updated p (cleanup_actions now) it)) = lease_of it"
  "get (Some (updated p (cleanup_actions now) it)) ''status'' = Some (S (js ''inactive''))"
  "floor_fields (Some (updated p (cleanup_actions now) it)) = floor_fields it"
  by (simp_all add: row_simps cleanup_actions_def owner_of_def lease_of_def floor_fields_def)

lemma cleanup_condition_holds [row_simps]:
  "condition_holds (cleanup_condition thr) it \<longleftrightarrow>
     get it ''status'' = Some (S (js ''active'')) \<and>
     (case lease_of it of Some (Iso t) \<Rightarrow> t < thr | _ \<Rightarrow> False)"
  by (cases it)
    (auto simp: cleanup_condition_def lease_of_def get_def split: option.splits attr.splits)

context dynamo
begin

lemma cleanup_effect:
  assumes "cleanup_port send p thr now db = (r, db')"
  shows "item_of db' = item_of db \<and> r \<noteq> Inr True \<or>
    condition_holds (cleanup_condition thr) (item_of db p) \<and>
      item_of db' = (item_of db)(p \<mapsto> updated p (cleanup_actions now) (item_of db p))"
proof -
  obtain resp where s: "send (UpdateItem p (cleanup_actions now) (cleanup_condition thr)) db = (resp, db')"
    using assms by (auto simp: cleanup_port_def split: prod.splits response.splits)
  show ?thesis
    using s assms update_answer
    by (cases rule: update_cases [OF s])
      (auto simp: cleanup_port_def split: response.splits)
qed

text \<open>No port with a lease at or after the threshold is touched by the loop.\<close>

lemma cleanup_port_spares:
  assumes "cleanup_port send q thr now db = (r, db')"
    and "case lease_of (item_of db p) of Some (Iso t) \<Rightarrow> thr \<le> t | _ \<Rightarrow> False"
  shows "item_of db' p = item_of db p"
  using cleanup_effect [OF assms(1)] assms(2)
  by (cases "p = q") (auto simp: row_simps split: option.splits attr.splits)

lemma cleanup_items_spares:
  assumes "cleanup_items send clock k thr rs n db = (r, db')"
    and "case lease_of (item_of db p) of Some (Iso t) \<Rightarrow> thr \<le> t | _ \<Rightarrow> False"
  shows "item_of db' p = item_of db p"
  using assms
proof (induction rs arbitrary: k n db)
  case (Cons r0 rs)
  show ?case
  proof (cases "int_of (map_of r0 ''port'')")
    case None
    then show ?thesis using Cons by simp
  next
    case port: (Some q)
    show ?thesis
    proof (cases "time_of (map_of r0 ''lastPacketTime'')")
      case None
      then show ?thesis using Cons port by simp
    next
      case time: (Some t)
      obtain c db1 where c: "cleanup_port send q thr (clock k) db = (c, db1)" by fastforce
      from cleanup_port_spares [OF c Cons.prems(2)] Cons.prems(2)
      have "item_of db1 p = item_of db p" and
        "case lease_of (item_of db1 p) of Some (Iso t) \<Rightarrow> thr \<le> t | _ \<Rightarrow> False" by simp_all
      with Cons.IH [of k n db] Cons.IH [of "Suc k" _ db1] Cons.prems port time c show ?thesis
        by (auto split: if_splits sum.splits bool.splits)
    qed
  qed
qed simp

end

text \<open>The cleanup takes no lock from an owner that refreshed its lease within the five
  minutes before it started: whatever the scan returned, however stale, and whatever the table
  answers, such a row is left as it is.\<close>

theorem cleanup_spares_fresh_leases:
  assumes "dynamo send item_of"
    and "cleanup_handler send scan clock tableName db = (r, db')"
    and "item_of (snd (scan db)) = item_of db"
    and "lease_of (item_of db p) = Some (Iso t)" and "clock 0 - t \<le> inactivity_threshold_ms"
  shows "item_of db' p = item_of db p"
proof -
  obtain s db1 where scan: "scan db = (s, db1)" by fastforce
  have lease: "case lease_of (item_of db1 p) of Some (Iso t) \<Rightarrow> clock 0 - inactivity_threshold_ms \<le> t
      | _ \<Rightarrow> False"
    using assms(3-5) by (simp add: scan)
  show ?thesis
    using assms(2,3) dynamo.cleanup_items_spares [OF assms(1) _ lease]
    by (auto simp: cleanup_handler_def scan split: if_splits sum.splits prod.splits)
qed

definition scan_rows :: "table \<Rightarrow> item list outcome \<times> table" where
  "scan_rows t = (Inr (map snd (rows t)), t)"

lemma cleanup_spares_fresh_leases_witness:
  "table_item (snd (cleanup_handler table_send scan_rows (\<lambda>k. 1700000200000) (Some (js ''t'')) owned_table)) 5000
   = table_item owned_table 5000"
  by (rule cleanup_spares_fresh_leases [where t = 1700000000000 and scan = scan_rows
        and clock = "\<lambda>k. 1700000200000" and tableName = "Some (js ''t'')",
        OF dynamo_table prod.collapse [symmetric]])
    (simp_all add: scan_rows_def owned_table_def table_item_def lease_of_def get_def
      inactivity_threshold_ms_def)

section \<open>Restarting only on an alarm\<close>

text \<open>Instances are rebooted only for a message whose \<open>NewStateValue\<close> is \<open>ALARM\<close>, and then
  exactly those the group names: any other message - none, one that is not JSON, another state -
  leaves the instances alone.\<close>

theorem restart_only_on_alarm:
  "(case restart_handler describe reboot asgName raw w of
      (Inr res, w') \<Rightarrow>
        (if skipped res then rebooted res = [] \<and> w' = w
         else \<exists>text ob ids w1. raw = Some text \<and> json_parse text = Some (JObj ob) \<and>
           field ob ''NewStateValue'' = Some (JStr (js ''ALARM'')) \<and> describe w = (Inr ids, w1) \<and>
           rebooted res = List.map_filter id ids \<and>
           (if rebooted res = [] then w' = w1 else reboot (rebooted res) w1 = (Inr (), w')))
    | (Inl e, w') \<Rightarrow> asgName = None \<or> asgName = Some [] \<or>
        (\<exists>v. json_parse (nullish raw []) = Some v))"
  by (auto simp: restart_handler_def new_state_value_def Let_def
      split: option.splits sum.splits prod.splits jsval.splits if_splits)

end
