(* ===== verification/LockLease.thy ===== *)
theory LockLease
imports Lambdas
begin

text \<open>
  Several instances, and the scheduled cleanup, working on one port's row: who may believe
  to hold the lock. The machine \<open>lease_step\<close> has the operations of the lock service as a
  record; the locale \<open>lock_service\<close> states what they promise about the row's owner and lease,
  the exclusion is proved from these laws alone, and they are discharged for the requests of
  \<open>StreamMetadataService\<close> on any table that behaves as documented.

  Instances share one clock here: the deployment keeps them on one time source, and the
  program compares one instance's lease with another's clock without a margin.
\<close>

section \<open>The system\<close>

record 'db lock_ops =
  op_acquire :: "int \<Rightarrow> js_string \<Rightarrow> int \<Rightarrow> int \<Rightarrow> 'db \<Rightarrow> bool outcome \<times> 'db"
  op_release :: "int \<Rightarrow> js_string \<Rightarrow> int \<Rightarrow> 'db \<Rightarrow> unit outcome \<times> 'db"
  op_refresh :: "int \<Rightarrow> js_string \<Rightarrow> int \<Rightarrow> update_times \<Rightarrow> 'db \<Rightarrow> owned_write \<times> update_times \<times> 'db"
  op_cleanup :: "int \<Rightarrow> int \<Rightarrow> int \<Rightarrow> 'db \<Rightarrow> bool outcome \<times> 'db"
  op_floor :: "row_op \<Rightarrow> 'db \<Rightarrow> 'db"
  op_read_epoch :: "int \<Rightarrow> 'db \<Rightarrow> int option outcome \<times> 'db"
  op_read_floor :: "int \<Rightarrow> int \<Rightarrow> js_string \<Rightarrow> 'db \<Rightarrow> int option outcome \<times> 'db"

text \<open>What an instance knows: the time of the last lease it wrote and has not given up, and the
  throttle of its service.\<close>

record 'db lease_sys =
  ls_db :: 'db
  ls_clock :: int
  ls_lease :: "(js_string, int) js_map"
  ls_updates :: "(js_string, update_times) js_map"

datatype lease_event =
    Acquire js_string int int
  | Release js_string int
  | Refresh js_string int
  | Cleanup int int
  | OnFloor row_op int

fun event_time :: "lease_event \<Rightarrow> int" where
  "event_time (Acquire i now now') = now'"
| "event_time (Release i now) = now"
| "event_time (Refresh i now) = now"
| "event_time (Cleanup thr now) = now"
| "event_time (OnFloor op now) = now"

fun is_floor_op :: "row_op \<Rightarrow> bool" where
  "is_floor_op (RaiseOp p index ssrc fp g epoch now) = True"
| "is_floor_op (ResetOp p reset now) = True"
| "is_floor_op (ReadEpochOp p) = True"
| "is_floor_op (ReadFloorOp p ssrc fp) = True"
| "is_floor_op _ = False"

text \<open>Time does not run backwards; only an instance that believes to hold the lock refreshes
  it; the cleanup's threshold is five minutes before it started.\<close>

fun event_ok :: "'db lease_sys \<Rightarrow> lease_event \<Rightarrow> bool" where
  "event_ok s (Acquire i now now') \<longleftrightarrow> ls_clock s \<le> now \<and> now \<le> now'"
| "event_ok s (Release i now) \<longleftrightarrow> ls_clock s \<le> now"
| "event_ok s (Refresh i now) \<longleftrightarrow> ls_clock s \<le> now \<and> map_of (ls_lease s) i \<noteq> None"
| "event_ok s (Cleanup thr now) \<longleftrightarrow> ls_clock s \<le> now \<and> thr \<le> now - inactivity_threshold_ms"
| "event_ok s (OnFloor op now) \<longleftrightarrow> ls_clock s \<le> now \<and> is_floor_op op"

definition lease_update :: "js_string \<Rightarrow> int option \<Rightarrow> 'db lease_sys \<Rightarrow> 'db lease_sys" where
  "lease_update i t s =
     s\<lparr>ls_lease := (case t of None \<Rightarrow> AList.delete i (ls_lease s)
                     | Some x \<Rightarrow> AList.update i x (ls_lease s))\<rparr>"

fun lease_step :: "'db lock_ops \<Rightarrow> int \<Rightarrow> lease_event \<Rightarrow> 'db lease_sys \<Rightarrow> 'db lease_sys" where
  "lease_step ops p (Acquire i now now') s =
     (case op_acquire ops p i now now' (ls_db s) of
        (r, db') \<Rightarrow>
          (let s' = s\<lparr>ls_db := db', ls_clock := now'\<rparr>
           in case r of Inr True \<Rightarrow> lease_update i (Some now) s' | _ \<Rightarrow> s'))"
| "lease_step ops p (Release i now) s =
     (case op_release ops p i now (ls_db s) of
        (r, db') \<Rightarrow> lease_update i None (s\<lparr>ls_db := db', ls_clock := now\<rparr>))"
| "lease_step ops p (Refresh i now) s =
     (let updates = nullish (map_of (ls_updates s) i) [];
          throttled = now - nullish (map_of updates p) 0 < update_throttle_ms
      in case op_refresh ops p i now updates (ls_db s) of
           (r, updates', db') \<Rightarrow>
             (let s' = s\<lparr>ls_db := db', ls_clock := now, ls_updates := AList.update i updates' (ls_updates s)\<rparr>
              in case r of
                   WriteOk \<Rightarrow> (if throttled then s' else lease_update i (Some now) s')
                 | LostLock \<Rightarrow> lease_update i None s'
                 | WriteError \<Rightarrow> s'))"
| "lease_step ops p (Cleanup thr now) s =
     (case op_cleanup ops p thr now (ls_db s) of
        (r, db') \<Rightarrow> s\<lparr>ls_db := db', ls_clock := now\<rparr>)"
| "lease_step ops p (OnFloor op now) s =
     s\<lparr>ls_db := op_floor ops op (ls_db s), ls_clock := now\<rparr>"

inductive lease_reach :: "'db lock_ops \<Rightarrow> int \<Rightarrow> 'db \<Rightarrow> 'db lease_sys \<Rightarrow> bool"
  for ops p db0
where
  init: "lease_reach ops p db0 \<lparr>ls_db = db0, ls_clock = t, ls_lease = [], ls_updates = []\<rparr>"
| step: "lease_reach ops p db0 s \<Longrightarrow> event_ok s e \<Longrightarrow> lease_reach ops p db0 (lease_step ops p e s)"

section \<open>What the lock service promises\<close>

locale lock_service =
  fixes ops :: "'db lock_ops"
    and lock_row :: "'db \<Rightarrow> int \<Rightarrow> attr option \<times> attr option"
    and row_ok :: "'db \<Rightarrow> int \<Rightarrow> bool"
  assumes acquire_law: "row_ok db p \<Longrightarrow> op_acquire ops p i now now' db = (r, db') \<Longrightarrow>
      row_ok db' p \<and>
      (lock_row db' p = lock_row db p \<and> r \<noteq> Inr True \<or>
       lock_row db' p = (Some (S i), Some (Iso now)) \<and>
       (fst (lock_row db p) = None \<or> fst (lock_row db p) = Some (S i) \<or>
        (\<exists>t. snd (lock_row db p) = Some (Iso t) \<and> t < now' - kinesis_lock_stale_ms)))"
    and release_law: "row_ok db p \<Longrightarrow> op_release ops p i now db = (res, db') \<Longrightarrow>
      row_ok db' p \<and>
      (lock_row db' p = lock_row db p \<or>
       fst (lock_row db p) = Some (S i) \<and> fst (lock_row db' p) = None)"
    and refresh_law: "row_ok db p \<Longrightarrow> op_refresh ops p i now updates db = (w, updates', db') \<Longrightarrow>
      row_ok db' p \<and>
      (lock_row db' p = lock_row db p \<and>
        (w = WriteOk \<longrightarrow> now - nullish (map_of updates p) 0 < update_throttle_ms) \<or>
       fst (lock_row db p) = Some (S i) \<and> lock_row db' p = (Some (S i), Some (Iso now)))"
    and cleanup_law: "row_ok db p \<Longrightarrow> op_cleanup ops p thr now db = (b, db') \<Longrightarrow>
      row_ok db' p \<and>
      (lock_row db' p = lock_row db p \<or>
       fst (lock_row db' p) = None \<and> (\<exists>t. snd (lock_row db p) = Some (Iso t) \<and> t < thr))"
    and floor_law: "row_ok db p \<Longrightarrow> is_floor_op op \<Longrightarrow>
      row_ok (op_floor ops op db) p \<and> lock_row (op_floor ops op db) p = lock_row db p"
begin

text \<open>An instance's belief is true, or older than the threshold.\<close>

definition lease_inv :: "int \<Rightarrow> 'db lease_sys \<Rightarrow> bool" where
  "lease_inv p s \<longleftrightarrow> row_ok (ls_db s) p \<and>
     (\<forall>i t. map_of (ls_lease s) i = Some t \<longrightarrow>
        ls_clock s - t > kinesis_lock_stale_ms \<or>
        (\<exists>u. lock_row (ls_db s) p = (Some (S i), Some (Iso u)) \<and> t \<le> u \<and> u \<le> ls_clock s))"

lemma lease_inv_step:
  assumes "lease_inv p s" and "event_ok s e"
  shows "lease_inv p (lease_step ops p e s)"
proof (cases e)
  case (Acquire i now now')
  obtain r db' where r: "op_acquire ops p i now now' (ls_db s) = (r, db')" by fastforce
  show ?thesis
    using assms acquire_law [OF _ r]
    by (cases r) (fastforce simp: Acquire r lease_inv_def lease_update_def Let_def split: bool.splits)+
next
  case (Release i now)
  obtain r db' where r: "op_release ops p i now (ls_db s) = (r, db')" by fastforce
  show ?thesis
    using assms release_law [OF _ r]
    by (fastforce simp: Release r lease_inv_def lease_update_def)
next
  case (Refresh i now)
  define updates where "updates = nullish (map_of (ls_updates s) i) []"
  obtain r updates' db' where r: "op_refresh ops p i now updates (ls_db s) = (r, updates', db')"
    by (rule prod_cases3)
  show ?thesis
    using assms refresh_law [OF _ r]
    by (cases r) (fastforce simp: Refresh r updates_def [symmetric] lease_inv_def lease_update_def Let_def)+
next
  case (Cleanup thr now)
  obtain b db' where r: "op_cleanup ops p thr now (ls_db s) = (b, db')" by fastforce
  show ?thesis
    using assms cleanup_law [OF _ r]
    by (fastforce simp: Cleanup r lease_inv_def inactivity_threshold_ms_def kinesis_lock_stale_ms_def)
next
  case (OnFloor op now)
  then show ?thesis
    using assms floor_law [of "ls_db s" p op] by (fastforce simp: lease_inv_def)
qed

lemma lease_inv_reach:
  "lease_reach ops p db0 s \<Longrightarrow> row_ok db0 p \<Longrightarrow> lease_inv p s"
  by (induction rule: lease_reach.induct) (auto simp: lease_inv_step, simp add: lease_inv_def)

lemma fresh_leases_exclude:
  assumes "lease_reach ops p db0 s" and "row_ok db0 p"
    and "map_of (ls_lease s) i = Some t" and "ls_clock s - t \<le> kinesis_lock_stale_ms"
    and "map_of (ls_lease s) j = Some u" and "ls_clock s - u \<le> kinesis_lock_stale_ms"
  shows "i = j"
proof -
  from lease_inv_reach [OF assms(1,2)] assms(3-6)
  obtain u v where "lock_row (ls_db s) p = (Some (S i), Some (Iso u))"
    "lock_row (ls_db s) p = (Some (S j), Some (Iso v))"
    unfolding lease_inv_def by (metis linorder_not_le)
  then show ?thesis by simp
qed

end

section \<open>The program's lock service keeps the promises\<close>

definition stream_locks :: "(request \<Rightarrow> 'db \<Rightarrow> response \<times> 'db) \<Rightarrow> 'db lock_ops" where
  "stream_locks send =
     \<lparr>op_acquire = tryAcquireKinesisLock send, op_release = releaseKinesisLock send,
      op_refresh = updateLastPacketTime send, op_cleanup = cleanup_port send,
      op_floor = run_op send, op_read_epoch = getSrtpFloorEpoch send,
      op_read_floor = getSrtpIndexFloor send\<rparr>"

definition row_lock :: "('db \<Rightarrow> int \<Rightarrow> item option) \<Rightarrow> 'db \<Rightarrow> int \<Rightarrow> attr option \<times> attr option" where
  "row_lock item_of db p = (owner_of (item_of db p), lease_of (item_of db p))"

text \<open>A row that exists has its key, as every row of the table does.\<close>

definition row_keyed :: "('db \<Rightarrow> int \<Rightarrow> item option) \<Rightarrow> 'db \<Rightarrow> int \<Rightarrow> bool" where
  "row_keyed item_of db p \<longleftrightarrow> (case item_of db p of None \<Rightarrow> True | Some r \<Rightarrow> map_of r ''port'' \<noteq> None)"

fun action_attr :: "action \<Rightarrow> string" where
  "action_attr (SetTo a v) = a"
| "action_attr (SetIfNotExists a v) = a"
| "action_attr (Remove a) = a"

definition keeps_key :: "action list \<Rightarrow> bool" where
  "keeps_key acts \<longleftrightarrow> list_all (\<lambda>a. action_attr a \<noteq> ''port'') acts"

lemma keeps_key_actions [simp]:
  "keeps_key (acquire_actions i now)" "keeps_key (release_actions now)"
  "keeps_key (refresh_actions now)" "keeps_key (cleanup_actions now)"
  "keeps_key (raise_actions index ssrc fp g now)" "keeps_key (reset_actions reset now)"
  by (simp_all add: keeps_key_def acquire_actions_def release_actions_def refresh_actions_def
      cleanup_actions_def raise_actions_def reset_actions_def)

lemma keeps_key_fold:
  "keeps_key acts \<Longrightarrow> map_of (fold (apply_action before) acts r) ''port'' = map_of r ''port''"
proof (induction acts arbitrary: r)
  case (Cons a acts)
  then show ?case by (cases a) (auto simp: keeps_key_def)
qed simp

lemma row_keyed_updated:
  assumes "row_keyed item_of db p" and "keeps_key acts"
    and "item_of db' = item_of db \<or> item_of db' = (item_of db)(q \<mapsto> updated q acts (item_of db q))"
  shows "row_keyed item_of db' p"
  using assms
  by (cases "p = q") (auto simp: row_keyed_def updated_def Let_def keeps_key_fold key_item_def split: option.splits)

lemma may_acquire_keyed:
  "row_keyed item_of db p \<Longrightarrow> may_acquire (item_of db p) i thr \<longleftrightarrow>
    owner_of (item_of db p) = None \<or> owner_of (item_of db p) = Some (S i) \<or>
    (\<exists>t. lease_of (item_of db p) = Some (Iso t) \<and> t < thr)"
  by (auto simp: row_keyed_def may_acquire_def get_def split: option.splits attr.splits)

lemma stream_locks_sel [simp]:
  "op_acquire (stream_locks send) = tryAcquireKinesisLock send"
  "op_release (stream_locks send) = releaseKinesisLock send"
  "op_refresh (stream_locks send) = updateLastPacketTime send"
  "op_cleanup (stream_locks send) = cleanup_port send"
  "op_floor (stream_locks send) = run_op send"
  "op_read_epoch (stream_locks send) = getSrtpFloorEpoch send"
  "op_read_floor (stream_locks send) = getSrtpIndexFloor send"
  by (simp_all add: stream_locks_def)

context dynamo
begin

lemma acquire_promise:
  assumes "row_keyed item_of db p" and r: "tryAcquireKinesisLock send p i now now' db = (r, db')"
  shows "row_keyed item_of db' p \<and>
      (row_lock item_of db' p = row_lock item_of db p \<and> r \<noteq> Inr True \<or>
       row_lock item_of db' p = (Some (S i), Some (Iso now)) \<and>
       (fst (row_lock item_of db p) = None \<or> fst (row_lock item_of db p) = Some (S i) \<or>
        (\<exists>t. snd (row_lock item_of db p) = Some (Iso t) \<and> t < now' - kinesis_lock_stale_ms)))"
  using acquire_effect [OF r] row_keyed_updated [OF assms(1) keeps_key_actions(1), of db' p i now]
    may_acquire_keyed [OF assms(1)]
  by (auto simp: row_lock_def row_simps)

lemma release_promise:
  assumes "row_keyed item_of db p" and r: "releaseKinesisLock send p i now db = (r, db')"
  shows "row_keyed item_of db' p \<and>
      (row_lock item_of db' p = row_lock item_of db p \<or>
       fst (row_lock item_of db p) = Some (S i) \<and> fst (row_lock item_of db' p) = None)"
  using release_effect [OF r] row_keyed_updated [OF assms(1) keeps_key_actions(2), of db' p now]
  by (auto simp: row_lock_def row_simps)

lemma refresh_promise:
  assumes "row_keyed item_of db p" and r: "updateLastPacketTime send p i now updates db = (r, updates', db')"
  shows "row_keyed item_of db' p \<and>
      (row_lock item_of db' p = row_lock item_of db p \<and>
        (r = WriteOk \<longrightarrow> now - nullish (map_of updates p) 0 < update_throttle_ms) \<or>
       fst (row_lock item_of db p) = Some (S i) \<and>
        row_lock item_of db' p = (Some (S i), Some (Iso now)))"
  using refresh_effect [OF r] row_keyed_updated [OF assms(1) keeps_key_actions(3), of db' p now]
  by (auto simp: row_lock_def row_simps)

lemma cleanup_promise:
  assumes "row_keyed item_of db p" and r: "cleanup_port send p thr now db = (b, db')"
  shows "row_keyed item_of db' p \<and>
      (row_lock item_of db' p = row_lock item_of db p \<or>
       fst (row_lock item_of db' p) = None \<and>
        (\<exists>t. snd (row_lock item_of db p) = Some (Iso t) \<and> t < thr))"
  using cleanup_effect [OF r] row_keyed_updated [OF assms(1) keeps_key_actions(4), of db' p now]
  by (auto simp: row_lock_def row_simps split: option.splits attr.splits)

lemma floor_promise:
  assumes "row_keyed item_of db p" and "is_floor_op op"
  shows "row_keyed item_of (run_op send op db) p \<and>
    row_lock item_of (run_op send op db) p = row_lock item_of db p"
proof (cases op)
  case (RaiseOp q index ssrc fp g epoch now)
  then show ?thesis
    using raise_effect [OF refl, of q index ssrc fp g epoch now db] raise_row(1) [of q index ssrc fp g now "item_of db q"]
      row_keyed_updated [OF assms(1) keeps_key_actions(5), of "run_op send op db" q index ssrc fp g now]
    by (auto simp: row_lock_def lock_fields_def owner_of_def lease_of_def)
next
  case (ResetOp q reset now)
  obtain r db' where r: "resetSrtpIndexFloor send q reset now db = (r, db')" by fastforce
  show ?thesis
    using reset_effect [OF r] reset_row(1) [of q reset now "item_of db q"]
      row_keyed_updated [OF assms(1) keeps_key_actions(6), of db' q reset now]
    by (auto simp: ResetOp r row_lock_def lock_fields_def owner_of_def lease_of_def)
next
  case (ReadEpochOp q)
  then show ?thesis
    using read_effect(2) [of q db] assms(1)
    by (cases "getSrtpFloorEpoch send q db") (auto simp: row_keyed_def row_lock_def)
next
  case (ReadFloorOp q ssrc fp)
  then show ?thesis
    using read_effect(1) [of q ssrc fp db] assms(1)
    by (cases "getSrtpIndexFloor send q ssrc fp db") (auto simp: row_keyed_def row_lock_def)
qed (use assms in simp_all)

text \<open>No step takes the epoch of the floor back.\<close>

lemma lease_step_epoch:
  assumes "epoch_reached e (item_of (ls_db s) q)"
  shows "epoch_reached e (item_of (ls_db (lease_step (stream_locks send) p ev s)) q)"
proof (cases ev)
  case (Acquire i now now')
  then show ?thesis
    using op_epoch [OF assms, of "AcquireOp p i now now'"]
    by (auto simp: Acquire lease_update_def Let_def split: prod.split sum.split bool.split)
next
  case (Release i now)
  then show ?thesis
    using op_epoch [OF assms, of "ReleaseOp p i now"] by (auto simp: lease_update_def split: prod.split)
next
  case (Refresh i now)
  then show ?thesis
    using op_epoch [OF assms, of "RefreshOp p i now (nullish (map_of (ls_updates s) i) [])"]
    by (auto simp: lease_update_def Let_def split: prod.split owned_write.split)
next
  case (Cleanup thr now)
  obtain r db' where r: "cleanup_port send p thr now (ls_db s) = (r, db')" by fastforce
  then show ?thesis
    using assms cleanup_effect [OF r] cleanup_row(4) [of p now "item_of (ls_db s) p"]
    by (auto simp: Cleanup epoch_reached_def floor_fields_eq_iff)
next
  case (OnFloor op now)
  then show ?thesis using op_epoch [OF assms, of op] by simp
qed

end

sublocale dynamo \<subseteq> locks: lock_service "stream_locks send" "row_lock item_of" "row_keyed item_of"
  by unfold_locales
    ((unfold stream_locks_sel,
      rule acquire_promise release_promise refresh_promise cleanup_promise floor_promise; assumption)+)

context dynamo
begin

lemma stream_locks_exclude:
  assumes "lease_reach (stream_locks send) p db0 s" and "row_keyed item_of db0 p"
    and "map_of (ls_lease s) i = Some t" and "ls_clock s - t \<le> kinesis_lock_stale_ms"
    and "map_of (ls_lease s) j = Some u" and "ls_clock s - u \<le> kinesis_lock_stale_ms"
  shows "i = j"
  by (rule locks.fresh_leases_exclude [OF assms])

end

text \<open>C3. Two instances never both hold a fresh lease on a port. Whatever order the instances,
  the cleanup and the floor writes act in, and whichever of their writes are lost or retried:
  if two instances each believe in a lease not older than the five minutes after which others
  may take it, they are the same instance.\<close>

theorem one_fresh_lease:
  assumes "dynamo send item_of" and "row_keyed item_of db0 p"
    and "lease_reach (stream_locks send) p db0 s"
    and "map_of (ls_lease s) i = Some t" and "ls_clock s - t \<le> kinesis_lock_stale_ms"
    and "map_of (ls_lease s) j = Some u" and "ls_clock s - u \<le> kinesis_lock_stale_ms"
  shows "i = j"
  using dynamo.stream_locks_exclude [OF assms(1,3,2,4-7)] .

text \<open>An instance takes the lock and crashes; the cleanup runs early and spares it; the second
  instance asks in vain.\<close>

definition contended :: "table lease_sys" where
  "contended =
     lease_step (stream_locks table_send) 5000 (Acquire (js ''b'') 1700000240000 1700000240000)
      (lease_step (stream_locks table_send) 5000 (Cleanup 1699999900000 1700000200000)
        (lease_step (stream_locks table_send) 5000 (Acquire (js ''a'') 1700000000000 1700000000000)
          \<lparr>ls_db = free_table, ls_clock = 1699999999000, ls_lease = [], ls_updates = []\<rparr>))"

lemma contended_eval:
  "ls_lease contended = [(js ''a'', 1700000000000)]" "ls_clock contended = 1700000240000"
  by (simp_all add: contended_def stream_locks_def tryAcquireKinesisLock_def cleanup_port_def
      free_table_def table_item_def next_fault_def table_write_def table_skip_def row_simps
      may_acquire_def lease_update_def kinesis_lock_stale_ms_def acquire_actions_def updated_def
      key_item_def owner_of_def lease_of_def get_def js_Cons Let_def)

lemma contended_reach: "lease_reach (stream_locks table_send) 5000 free_table contended"
  unfolding contended_def
  by (intro lease_reach.step lease_reach.init)
    (simp_all add: stream_locks_def tryAcquireKinesisLock_def cleanup_port_def lease_update_def
      inactivity_threshold_ms_def Let_def split: prod.splits sum.splits bool.splits)

lemma one_fresh_lease_witness: "js ''a'' = fst (hd (ls_lease contended))"
proof (rule one_fresh_lease [OF dynamo_table _ contended_reach,
      where t = 1700000000000 and u = 1700000000000])
  show "row_keyed table_item free_table 5000"
    by (simp add: row_keyed_def free_table_def table_item_def)
qed (simp_all add: contended_eval kinesis_lock_stale_ms_def)

end
