(* ===== verification/ChildExit.thy ===== *)
theory ChildExit
imports Prelude
begin

text \<open>
  Ending a producer's child process (\<open>backend/src/ChildProcessExit.ts\<close>). The asynchronous
  function is a machine: it is started with the child's exit fields as they are, and then
  takes the child's \<open>exit\<close> and \<open>error\<close> events and its own timers, each with the fields as they
  are when it is delivered. Its phase is \<open>Ended\<close> when the promise has resolved.

  Shown: it resolves only once the child has been seen to be gone, whenever that is seen it
  resolves, and the signals go out in their order, each after its time has passed.
\<close>

section \<open>The child\<close>

record exiting_child =
  ec_exit_code :: "int option"
  ec_signal_code :: "js_string option"

definition hasExited :: "exiting_child \<Rightarrow> bool" where
  "hasExited child \<longleftrightarrow> ec_exit_code child \<noteq> None \<or> ec_signal_code child \<noteq> None"

datatype child_event =
    ExitEvent exiting_child
  | ErrorEvent exiting_child
  | TimerFired exiting_child

section \<open>Waiting\<close>

text \<open>What a watch makes of an event: whether it is done.\<close>

fun watch_event :: "child_event \<Rightarrow> bool" where
  "watch_event (ExitEvent child) \<longleftrightarrow> True"
| "watch_event (ErrorEvent child) \<longleftrightarrow> hasExited child"
| "watch_event (TimerFired child) \<longleftrightarrow> False"

text \<open>A wait with or without a deadline: Some of what it resolves with, None while it waits.\<close>

definition wait_start :: "exiting_child \<Rightarrow> bool option" where
  "wait_start child = (if hasExited child then Some True else None)"

definition wait_event :: "bool \<Rightarrow> child_event \<Rightarrow> bool option" where
  "wait_event deadline e =
     (if watch_event e then Some True
      else case e of TimerFired child \<Rightarrow> (if deadline then Some False else None) | _ \<Rightarrow> None)"

section \<open>Ending\<close>

datatype child_signal = SIGTERM | SIGKILL

record end_options =
  eo_drain_ms :: "int option"
  eo_sigkill_after_ms :: int

datatype end_phase = Draining | Terminating | Killing | Ended

record end_state =
  es_phase :: end_phase
  es_signals :: "child_signal list"

text \<open>Sending a signal and starting to wait: the wait first looks at the exit fields.\<close>

definition send_signal :: "child_signal \<Rightarrow> end_phase \<Rightarrow> exiting_child \<Rightarrow> end_state \<Rightarrow> end_state" where
  "send_signal sig phase child s =
     \<lparr>es_phase = (case wait_start child of Some _ \<Rightarrow> Ended | None \<Rightarrow> phase),
      es_signals = es_signals s @ [sig]\<rparr>"

definition end_start :: "end_options \<Rightarrow> exiting_child \<Rightarrow> end_state" where
  "end_start options child =
     (if hasExited child then \<lparr>es_phase = Ended, es_signals = []\<rparr>
      else case eo_drain_ms options of
        Some ms \<Rightarrow>
          \<lparr>es_phase = (case wait_start child of Some _ \<Rightarrow> Ended | None \<Rightarrow> Draining), es_signals = []\<rparr>
      | None \<Rightarrow> send_signal SIGTERM Terminating child \<lparr>es_phase = Draining, es_signals = []\<rparr>)"

fun event_child :: "child_event \<Rightarrow> exiting_child" where
  "event_child (ExitEvent child) = child"
| "event_child (ErrorEvent child) = child"
| "event_child (TimerFired child) = child"

definition end_event :: "child_event \<Rightarrow> end_state \<Rightarrow> end_state" where
  "end_event e s =
     (case es_phase s of
        Draining \<Rightarrow>
          (case wait_event True e of
             Some True \<Rightarrow> s\<lparr>es_phase := Ended\<rparr>
           | Some False \<Rightarrow> send_signal SIGTERM Terminating (event_child e) s
           | None \<Rightarrow> s)
      | Terminating \<Rightarrow>
          (case wait_event True e of
             Some True \<Rightarrow> s\<lparr>es_phase := Ended\<rparr>
           | Some False \<Rightarrow> send_signal SIGKILL Killing (event_child e) s
           | None \<Rightarrow> s)
      | Killing \<Rightarrow>
          (case wait_event False e of
             Some _ \<Rightarrow> s\<lparr>es_phase := Ended\<rparr>
           | None \<Rightarrow> s)
      | Ended \<Rightarrow> s)"

definition endChildProcess :: "end_options \<Rightarrow> exiting_child \<Rightarrow> child_event list \<Rightarrow> end_state" where
  "endChildProcess options child events = fold end_event events (end_start options child)"

section \<open>Properties\<close>

text \<open>The child has been seen to be gone: its exit was reported, or its exit fields were set
  when the function looked at them.\<close>

definition shows_gone :: "child_event \<Rightarrow> bool" where
  "shows_gone e \<longleftrightarrow> watch_event e \<or> hasExited (event_child e)"

lemma shows_gone_watch: "watch_event e \<Longrightarrow> shows_gone e"
  by (simp add: shows_gone_def)

lemma end_event_ended: "es_phase (end_event e s) = Ended \<Longrightarrow> es_phase s = Ended \<or> shows_gone e"
  by (cases "es_phase s"; cases e)
    (auto simp: end_event_def wait_event_def wait_start_def send_signal_def shows_gone_def
      split: if_splits)

lemma end_event_watch: "watch_event e \<Longrightarrow> es_phase (end_event e s) = Ended"
  by (cases "es_phase s") (auto simp: end_event_def wait_event_def)

lemma end_event_stays: "es_phase s = Ended \<Longrightarrow> end_event e s = s"
  by (simp add: end_event_def)

lemma end_events_stay: "es_phase s = Ended \<Longrightarrow> fold end_event es s = s"
  by (induction es) (simp_all add: end_event_stays)

lemma end_events:
  "es_phase (fold end_event es s) = Ended \<Longrightarrow> es_phase s = Ended \<or> list_ex shows_gone es"
  "list_ex watch_event es \<Longrightarrow> es_phase (fold end_event es s) = Ended"
  by (induction es arbitrary: s) (auto dest: end_event_ended simp: end_event_watch end_events_stay)

lemma end_start_ended: "es_phase (end_start options child) = Ended \<longleftrightarrow> hasExited child"
  by (auto simp: end_start_def send_signal_def wait_start_def split: option.splits)

text \<open>C22. The promise resolves if and only if the child is gone as far as anyone can tell: it
  does not resolve before the child's exit was reported, or its exit fields seen set, and it
  does resolve as soon as an exit, or an error with the exit fields set, is reported. An error
  from a child that is alive, and time passing, resolve nothing.\<close>

theorem end_resolves_iff_gone:
  "if es_phase (endChildProcess options child events) = Ended
   then hasExited child \<or> list_ex shows_gone events
   else hasExited child = False \<and> list_all (\<lambda>e. watch_event e = False) events"
  using end_events(1) [of events "end_start options child"]
    end_events(2) [of events "end_start options child"]
    end_events_stay [of "end_start options child" events]
  by (auto simp: endChildProcess_def end_start_ended list_ex_iff list_all_iff)

fun timers :: "child_event list \<Rightarrow> nat" where
  "timers [] = 0"
| "timers (e # es) = (case e of TimerFired child \<Rightarrow> Suc (timers es) | _ \<Rightarrow> timers es)"

lemma send_signals:
  "es_signals (send_signal sig phase child s) = es_signals s @ [sig]"
  "es_phase (send_signal sig phase child s) = phase \<or> es_phase (send_signal sig phase child s) = Ended"
  by (auto simp: send_signal_def split: option.splits)

text \<open>The signals that may have been sent in a phase.\<close>

definition signals_ok :: "end_state \<Rightarrow> bool" where
  "signals_ok s \<longleftrightarrow>
     (case es_phase s of
        Draining \<Rightarrow> es_signals s = []
      | Terminating \<Rightarrow> es_signals s = [SIGTERM]
      | Killing \<Rightarrow> es_signals s = [SIGTERM, SIGKILL]
      | Ended \<Rightarrow> List.member [[], [SIGTERM], [SIGTERM, SIGKILL]] (es_signals s))"

lemma end_event_signals:
  "signals_ok s \<Longrightarrow> signals_ok (end_event e s) \<and>
    length (es_signals (end_event e s)) \<le> length (es_signals s) + timers [e]"
  by (cases "es_phase s"; cases e)
    (auto simp: end_event_def wait_event_def send_signal_def signals_ok_def split: option.splits)

lemma end_events_signals:
  "signals_ok s \<Longrightarrow> signals_ok (fold end_event es s) \<and>
    length (es_signals (fold end_event es s)) \<le> length (es_signals s) + timers es"
proof (induction es arbitrary: s)
  case (Cons e es)
  from Cons.IH [of "end_event e s"] end_event_signals [OF Cons.prems, of e] show ?case
    by (cases e) auto
qed simp

text \<open>Signals escalate: nothing, then SIGTERM, then SIGKILL, each at most once and never out
  of order; each one but a first SIGTERM without a drain waits for its timer to fire, and a
  child that is gone from the start is not signalled at all.\<close>

theorem end_escalates:
  "List.member [[], [SIGTERM], [SIGTERM, SIGKILL]] (es_signals (endChildProcess options child events)) \<and>
   length (es_signals (endChildProcess options child events)) \<le>
     (if hasExited child then 0 else if eo_drain_ms options = None then Suc (timers events) else timers events)"
proof -
  have ok: "signals_ok (end_start options child)"
    by (auto simp: end_start_def signals_ok_def send_signal_def split: option.splits)
  have len: "length (es_signals (end_start options child)) =
      (if hasExited child \<or> eo_drain_ms options \<noteq> None then 0 else 1)"
    by (auto simp: end_start_def send_signal_def split: option.splits)
  show ?thesis
    using end_events_signals [OF ok, of events] len end_events_stay [of "end_start options child" events]
    by (auto simp: endChildProcess_def end_start_ended signals_ok_def split: end_phase.splits if_splits)
qed

end
