(* ===== verification/KeyStore.thy ===== *)
theory KeyStore
imports Json
begin

text \<open>
  The keys of the SRTP ports (\<open>backend/src/SrtpKeyStore.ts\<close>): the parameters fetched from the
  parameter store in requests of ten names, what makes one usable, and the map from port to
  key. The store's client \<open>send\<close> and the hash \<open>sha256_hex\<close> (the digest in hexadecimal) are
  parameters.

  Shown: every key in the map is usable and comes from an encrypted parameter of that port,
  whatever the service answers; and the requests cover the ports in order, ten at a time.
\<close>

section \<open>Keys\<close>

record port_key =
  pk_key_hex :: js_string
  pk_ssrc :: int
  pk_cipher :: js_string
  pk_auth :: js_string
  pk_fingerprint :: js_string
  pk_generation :: int

definition isValidSrtpKeyHex :: "js_string \<Rightarrow> bool" where
  "isValidSrtpKeyHex value \<longleftrightarrow> length value = 60 \<and> list_all is_hex value"

text \<open>\<open>toLowerCase\<close> on the ASCII letters, which is all that a hexadecimal key has.\<close>

definition lower_unit :: "nat \<Rightarrow> nat" where
  "lower_unit c = (if 65 \<le> c \<and> c \<le> 90 then c + 32 else c)"

definition keyFingerprint :: "(js_string \<Rightarrow> js_string) \<Rightarrow> js_string \<Rightarrow> js_string" where
  "keyFingerprint sha256_hex keyHex = take 16 (sha256_hex (map lower_unit keyHex))"

definition srtp_generation_base :: int where
  "srtp_generation_base = 2000000000"

definition supported_srtp_cipher :: js_string where
  "supported_srtp_cipher = js ''aes-128-icm''"

definition supported_srtp_auth :: js_string where
  "supported_srtp_auth = js ''hmac-sha1-80''"

definition max_uint32 :: int where
  "max_uint32 = 0xffffffff"

definition ssm_get_parameters_max_names :: nat where
  "ssm_get_parameters_max_names = 10"

record stored_key =
  sk_key :: js_string
  sk_ssrc :: int
  sk_cipher :: "js_string option"
  sk_auth :: "js_string option"

text \<open>\<open>isStoredSrtpKey\<close>: None where it is false, the fields where it is true.\<close>

definition suite_field :: "jsval option \<Rightarrow> js_string \<Rightarrow> js_string option option" where
  "suite_field v supported =
     (case v of
        None \<Rightarrow> Some None
      | Some w \<Rightarrow> (if w = JStr supported then Some (Some supported) else None))"

definition isStoredSrtpKey :: "jsval \<Rightarrow> stored_key option" where
  "isStoredSrtpKey value =
     (case value of
        JObj v \<Rightarrow>
          (case field v ''key'' of
             Some (JStr k) \<Rightarrow>
               (case field v ''ssrc'' of
                  Some (JNum (JInt ssrc)) \<Rightarrow>
                    (if ssrc < 0 \<or> ssrc > max_uint32 then None
                     else
                       (case (suite_field (field v ''cipher'') supported_srtp_cipher,
                              suite_field (field v ''auth'') supported_srtp_auth) of
                          (Some cipher, Some auth) \<Rightarrow>
                            Some \<lparr>sk_key = k, sk_ssrc = ssrc, sk_cipher = cipher, sk_auth = auth\<rparr>
                        | _ \<Rightarrow> None))
                | _ \<Rightarrow> None)
           | _ \<Rightarrow> None)
      | _ \<Rightarrow> None)"

section \<open>Loading\<close>

record ssm_parameter =
  sp_name :: "js_string option"
  sp_value :: "js_string option"
  sp_type :: "js_string option"
  sp_version :: "int option"

type_synonym key_map = "(int, port_key) js_map"

definition parameterNameForPort :: "js_string \<Rightarrow> int \<Rightarrow> js_string" where
  "parameterNameForPort prefix port = prefix @ js ''/'' @ int_string port @ js ''/key''"

text \<open>One parameter of the answer: only a named \<open>SecureString\<close> with a value is kept.\<close>

definition keep_parameter ::
  "ssm_parameter \<Rightarrow> (js_string, js_string \<times> int) js_map \<Rightarrow> (js_string, js_string \<times> int) js_map"
where
  "keep_parameter p paramsByName =
     (case (sp_name p, sp_value p) of
        (Some name, Some value) \<Rightarrow>
          (if sp_type p \<noteq> Some (js ''SecureString'') then paramsByName
           else
             AList.update name
               (value, case sp_version p of Some v \<Rightarrow> (if v \<ge> 1 then v else 1) | None \<Rightarrow> 1)
               paramsByName)
      | _ \<Rightarrow> paramsByName)"

text \<open>What is made of one port's parameter: None where it is logged and skipped.\<close>

definition key_of_parameter ::
  "(js_string \<Rightarrow> js_string) \<Rightarrow> js_string \<times> int \<Rightarrow> port_key option"
where
  "key_of_parameter sha256_hex param =
     (case json_parse (fst param) of
        None \<Rightarrow> None
      | Some parsed \<Rightarrow>
          (case isStoredSrtpKey parsed of
             None \<Rightarrow> None
           | Some k \<Rightarrow>
               (if \<not> isValidSrtpKeyHex (sk_key k) then None
                else Some \<lparr>pk_key_hex = sk_key k, pk_ssrc = sk_ssrc k,
                       pk_cipher = nullish (sk_cipher k) supported_srtp_cipher,
                       pk_auth = nullish (sk_auth k) supported_srtp_auth,
                       pk_fingerprint = keyFingerprint sha256_hex (sk_key k),
                       pk_generation = srtp_generation_base + snd param\<rparr>)))"

definition load_port ::
  "(js_string \<Rightarrow> js_string) \<Rightarrow> js_string \<Rightarrow> (js_string, js_string \<times> int) js_map \<Rightarrow> int \<Rightarrow> key_map \<Rightarrow>
    key_map"
where
  "load_port sha256_hex prefix paramsByName port keysByPort =
     (case map_of paramsByName (parameterNameForPort prefix port) of
        None \<Rightarrow> keysByPort
      | Some param \<Rightarrow>
          (case key_of_parameter sha256_hex param of
             None \<Rightarrow> keysByPort
           | Some k \<Rightarrow> AList.update port k keysByPort))"

text \<open>The client's answer has the parameters it found; \<open>Inl\<close> is a rejected call.\<close>

definition loadPortsChunk ::
  "(js_string \<Rightarrow> js_string) \<Rightarrow> (js_string list \<Rightarrow> 'w \<Rightarrow> ssm_parameter list outcome \<times> 'w) \<Rightarrow> js_string \<Rightarrow>
    int list \<Rightarrow> key_map \<Rightarrow> 'w \<Rightarrow> unit outcome \<times> key_map \<times> 'w"
where
  "loadPortsChunk sha256_hex send prefix ports keysByPort w =
     (if ports = [] then (Inr (), keysByPort, w)
      else
        (case send (map (parameterNameForPort prefix) ports) w of
           (Inl e, w') \<Rightarrow> (Inl e, keysByPort, w')
         | (Inr parameters, w') \<Rightarrow>
             (let paramsByName = fold keep_parameter parameters []
              in (Inr (), fold (load_port sha256_hex prefix paramsByName) ports keysByPort, w'))))"

function loadPorts ::
  "(js_string \<Rightarrow> js_string) \<Rightarrow> (js_string list \<Rightarrow> 'w \<Rightarrow> ssm_parameter list outcome \<times> 'w) \<Rightarrow> js_string \<Rightarrow>
    int list \<Rightarrow> key_map \<Rightarrow> 'w \<Rightarrow> unit outcome \<times> key_map \<times> 'w"
where
  "loadPorts sha256_hex send prefix ports keysByPort w =
     (if ports = [] then (Inr (), keysByPort, w)
      else
        (case loadPortsChunk sha256_hex send prefix (take ssm_get_parameters_max_names ports)
                keysByPort w of
           (Inl e, keys', w') \<Rightarrow> (Inl e, keys', w')
         | (Inr _, keys', w') \<Rightarrow>
             loadPorts sha256_hex send prefix (drop ssm_get_parameters_max_names ports) keys' w'))"
  by pat_completeness auto
termination
  by (relation "measure (\<lambda>(h, s, p, ports, k, w). length ports)")
    (auto simp: ssm_get_parameters_max_names_def)

declare loadPorts.simps [simp del]

definition getKeyForPort :: "key_map \<Rightarrow> int \<Rightarrow> port_key option" where
  "getKeyForPort keysByPort port = map_of keysByPort port"

definition hasKeyForPort :: "key_map \<Rightarrow> int \<Rightarrow> bool" where
  "hasKeyForPort keysByPort port \<longleftrightarrow> js_has keysByPort port"

definition keyedPorts :: "key_map \<Rightarrow> int list" where
  "keyedPorts keysByPort = sort (js_keys keysByPort)"

section \<open>Every key in the map is usable\<close>

definition key_usable :: "(js_string \<Rightarrow> js_string) \<Rightarrow> port_key \<Rightarrow> bool" where
  "key_usable sha256_hex k \<longleftrightarrow>
     isValidSrtpKeyHex (pk_key_hex k) \<and> 0 \<le> pk_ssrc k \<and> pk_ssrc k \<le> max_uint32 \<and>
     pk_cipher k = supported_srtp_cipher \<and> pk_auth k = supported_srtp_auth \<and>
     pk_fingerprint k = keyFingerprint sha256_hex (pk_key_hex k) \<and>
     srtp_generation_base < pk_generation k"

lemma suite_field_Some: "suite_field v s = Some w \<Longrightarrow> nullish w s = s"
  by (auto simp: suite_field_def split: option.splits if_splits)

lemma stored_key_suite:
  "isStoredSrtpKey value = Some k \<Longrightarrow>
    0 \<le> sk_ssrc k \<and> sk_ssrc k \<le> max_uint32 \<and>
    nullish (sk_cipher k) supported_srtp_cipher = supported_srtp_cipher \<and>
    nullish (sk_auth k) supported_srtp_auth = supported_srtp_auth"
  by (auto simp: isStoredSrtpKey_def split: jsval.splits jsnum.splits option.splits if_splits
      dest: suite_field_Some)

lemma key_of_parameter_usable:
  "key_of_parameter sha param = Some k \<Longrightarrow> 1 \<le> snd param \<Longrightarrow> key_usable sha k"
  by (auto simp: key_of_parameter_def key_usable_def split: option.splits if_splits
      dest!: stored_key_suite)

text \<open>What the answer's parameters are reduced to: values of encrypted ones, by name.\<close>

definition from_answer :: "ssm_parameter list \<Rightarrow> js_string \<Rightarrow> js_string \<times> int \<Rightarrow> bool" where
  "from_answer parameters name param \<longleftrightarrow> 1 \<le> snd param \<and>
     (\<exists>p \<in> set parameters. sp_name p = Some name \<and> sp_value p = Some (fst param) \<and>
        sp_type p = Some (js ''SecureString''))"

lemma keep_parameter_from:
  "map_of (keep_parameter p m) name = Some param \<Longrightarrow>
    map_of m name = Some param \<or> from_answer [p] name param"
  by (auto simp: keep_parameter_def from_answer_def split: option.splits if_splits)

lemma kept_parameters:
  "map_of (fold keep_parameter ps m) name = Some param \<Longrightarrow>
    map_of m name = Some param \<or> from_answer ps name param"
proof (induction ps arbitrary: m)
  case (Cons p ps)
  from Cons.IH [of "keep_parameter p m"] Cons.prems keep_parameter_from [of p m name param]
  show ?case by (auto simp: from_answer_def)
qed simp

text \<open>Where a key may come from: what was there before, or a usable key made of a parameter of
  this port that satisfies \<open>ok\<close>.\<close>

lemma load_port_from:
  "map_of (load_port sha prefix pbn port keys) q = Some k \<Longrightarrow>
    map_of keys q = Some k \<or> (\<exists>param. q = port \<and>
      map_of pbn (parameterNameForPort prefix port) = Some param \<and> key_of_parameter sha param = Some k)"
  by (auto simp: load_port_def split: option.splits if_splits)

lemma load_ports_from:
  "map_of (fold (load_port sha prefix pbn) ports keys) q = Some k \<Longrightarrow>
    map_of keys q = Some k \<or> (\<exists>param. q \<in> set ports \<and>
      map_of pbn (parameterNameForPort prefix q) = Some param \<and> key_of_parameter sha param = Some k)"
proof (induction ports arbitrary: keys)
  case (Cons port ports)
  from Cons.IH [of "load_port sha prefix pbn port keys"] Cons.prems
    load_port_from [of sha prefix pbn port keys q k]
  show ?case by auto
qed simp

lemma chunk_from:
  assumes "loadPortsChunk sha send prefix ports keys w = (r, keys', w')" and "map_of keys' q = Some k"
  shows "map_of keys q = Some k \<or> (key_usable sha k \<and> q \<in> set ports)"
  using assms
  by (auto simp: loadPortsChunk_def Let_def split: if_splits sum.splits prod.splits
      dest!: load_ports_from kept_parameters intro: key_of_parameter_usable simp: from_answer_def)

lemma chunk_map_ok:
  "js_map_ok keys \<Longrightarrow> loadPortsChunk sha send prefix ports keys w = (r, keys', w') \<Longrightarrow> js_map_ok keys'"
proof -
  have "js_map_ok (fold (load_port sha prefix pbn) ports keys)" if "js_map_ok keys" for pbn
    using that by (induction ports arbitrary: keys) (auto simp: load_port_def split: option.splits)
  then show "js_map_ok keys \<Longrightarrow> loadPortsChunk sha send prefix ports keys w = (r, keys', w') \<Longrightarrow> js_map_ok keys'"
    by (auto simp: loadPortsChunk_def Let_def split: if_splits sum.splits prod.splits)
qed

lemma loadPorts_from:
  "loadPorts sha send prefix ports keys w = (r, keys', w') \<Longrightarrow> map_of keys' q = Some k \<Longrightarrow>
    map_of keys q = Some k \<or> (key_usable sha k \<and> q \<in> set ports)"
proof (induction sha send prefix ports keys w arbitrary: r keys' w' rule: loadPorts.induct)
  case (1 sha send prefix ports keys w)
  show ?case
  proof (cases "ports = []")
    case True
    then show ?thesis using 1(2,3) by (simp add: loadPorts.simps)
  next
    case False
    obtain r1 keys1 w1 where c: "loadPortsChunk sha send prefix (take ssm_get_parameters_max_names ports)
        keys w = (r1, keys1, w1)" by (rule prod_cases3)
    note froms = chunk_from [OF c, of q k] set_take_subset [of ssm_get_parameters_max_names ports]
      set_drop_subset [of ssm_get_parameters_max_names ports]
    show ?thesis
    proof (cases r1)
      case (Inl e)
      then show ?thesis using 1(2,3) False froms by (auto simp: loadPorts.simps [of sha send prefix ports] c)
    next
      case (Inr u)
      then have "loadPorts sha send prefix (drop ssm_get_parameters_max_names ports) keys1 w1 = (r, keys', w')"
        using 1(2) False by (simp add: loadPorts.simps [of sha send prefix ports] c)
      from 1(1) [OF False c [symmetric] Inr refl this 1(3)] Inr froms show ?thesis by auto
    qed
  qed
qed

lemma loadPorts_map_ok:
  "js_map_ok keys \<Longrightarrow> js_map_ok (fst (snd (loadPorts sha send prefix ports keys w)))"
proof (induction sha send prefix ports keys w rule: loadPorts.induct)
  case (1 sha send prefix ports keys w)
  obtain r1 keys1 w1 where c: "loadPortsChunk sha send prefix (take ssm_get_parameters_max_names ports)
      keys w = (r1, keys1, w1)" by (rule prod_cases3)
  from 1 chunk_map_ok [OF 1(2) c] show ?case
    by (subst loadPorts.simps) (auto simp: c split: sum.splits)
qed

text \<open>C23. Whatever the parameter store answers - missing parameters, malformed ones, other names,
  or a failure part of the way - the map holds at most one key per port, only for ports that
  were asked for, and only usable ones: 60 hexadecimal digits, a 32-bit SSRC, the one supported
  suite, the fingerprint of that very key, and a generation above every legacy one.\<close>

theorem loaded_keys_usable:
  "(let keysByPort = fst (snd (loadPorts sha256_hex send prefix ports [] w))
    in js_map_ok keysByPort \<and>
       list_all (\<lambda>(port, k). List.member ports port \<and> key_usable sha256_hex k) keysByPort)"
proof -
  obtain r keys w' where l: "loadPorts sha256_hex send prefix ports [] w = (r, keys, w')"
    by (rule prod_cases3)
  have ok: "js_map_ok keys" using loadPorts_map_ok [of "[]" sha256_hex send prefix ports w] by (simp add: l)
  have "list_all (\<lambda>(port, k). List.member ports port \<and> key_usable sha256_hex k) keys"
    using loadPorts_from [OF l] ok
    by (auto simp: list_all_iff js_map_ok_def js_keys_def dest!: map_of_is_SomeI [rotated])
  with ok show ?thesis by (simp add: l)
qed

section \<open>The requests\<close>

definition logging ::
  "(js_string list \<Rightarrow> 'w \<Rightarrow> ssm_parameter list outcome \<times> 'w) \<Rightarrow> js_string list \<Rightarrow>
    js_string list list \<times> 'w \<Rightarrow> ssm_parameter list outcome \<times> (js_string list list \<times> 'w)"
where
  "logging send names lw = (case send names (snd lw) of (r, w') \<Rightarrow> (r, (fst lw @ [names], w')))"

lemma loadPorts_log:
  "loadPorts sha (logging send) prefix ports keys (lg, w) = (r, keys', (lg', w')) \<Longrightarrow>
    \<exists>more. lg' = lg @ more \<and> list_all (\<lambda>names. names \<noteq> [] \<and> length names \<le> ssm_get_parameters_max_names) more \<and>
      (\<exists>rest. map (parameterNameForPort prefix) ports = concat more @ rest \<and> (r = Inr () \<longrightarrow> rest = []))"
proof (induction "length ports" arbitrary: ports keys lg w rule: less_induct)
  case less
  let ?n = ssm_get_parameters_max_names
  show ?case
  proof (cases "ports = []")
    case True
    then show ?thesis using less(2) by (auto simp: loadPorts.simps)
  next
    case False
    let ?names = "map (parameterNameForPort prefix) (take ?n ports)"
    have n: "0 < ?n" by (simp add: ssm_get_parameters_max_names_def)
    have split: "map (parameterNameForPort prefix) ports = ?names @ map (parameterNameForPort prefix) (drop ?n ports)"
      by (simp flip: map_append)
    obtain r1 w1 where s: "send ?names w = (r1, w1)" by fastforce
    show ?thesis
    proof (cases r1)
      case (Inl e)
      then have "lg' = lg @ [?names]" "r = Inl e"
        using less(2) False n by (auto simp: loadPorts.simps [of sha _ prefix ports] loadPortsChunk_def logging_def s)
      with False n show ?thesis
        by (intro exI [of _ "[?names]"]) (auto simp: split [simplified])
    next
      case (Inr ps)
      define keys1 where "keys1 = fold (load_port sha prefix (fold keep_parameter ps [])) (take ?n ports) keys"
      have rec: "loadPorts sha (logging send) prefix (drop ?n ports) keys1 (lg @ [?names], w1) = (r, keys', (lg', w'))"
        using less(2) False n Inr
        by (auto simp: loadPorts.simps [of sha _ prefix ports] loadPortsChunk_def logging_def s keys1_def)
      have "length (drop ?n ports) < length ports" using False n by simp
      from less(1) [OF this rec] obtain more rest where m: "lg' = (lg @ [?names]) @ more"
        "list_all (\<lambda>names. names \<noteq> [] \<and> length names \<le> ?n) more"
        "map (parameterNameForPort prefix) (drop ?n ports) = concat more @ rest" "r = Inr () \<longrightarrow> rest = []"
        by blast
      then show ?thesis
        using False n by (intro exI [of _ "?names # more"]) (auto simp: split)
    qed
  qed
qed

text \<open>The keys are requested ten at a time and in order: no request is empty or names more
  than ten parameters, and together the requests name exactly the ports' parameters - all of
  them, unless the service rejects one, in which case what was requested is a prefix.\<close>

theorem requests_cover_ports:
  "(let (r, keysByPort, (requests, w')) = loadPorts sha256_hex (logging send) prefix ports [] ([], w);
        names = map (parameterNameForPort prefix) ports
    in list_all (\<lambda>request. request \<noteq> [] \<and> length request \<le> 10) requests \<and>
       (case r of Inr _ \<Rightarrow> concat requests = names
        | Inl _ \<Rightarrow> (\<exists>rest. names = concat requests @ rest)))"
proof -
  obtain r keys lg w' where l: "loadPorts sha256_hex (logging send) prefix ports [] ([], w) = (r, keys, (lg, w'))"
    by (metis prod_cases4)
  from loadPorts_log [OF l] show ?thesis
    by (auto simp: l ssm_get_parameters_max_names_def split: sum.splits)
qed

text \<open>\<open>keyedPorts\<close> is the ports that have a key, each once, in ascending order.\<close>

lemma keyedPorts_keys:
  "js_map_ok keys \<Longrightarrow> sorted (keyedPorts keys) \<and> distinct (keyedPorts keys) \<and> (\<forall>p. p \<in> set (keyedPorts keys) \<longleftrightarrow> hasKeyForPort keys p)"
  by (auto simp: keyedPorts_def hasKeyForPort_def js_map_ok_def js_has_iff)

section \<open>Only encrypted parameters\<close>

lemma chunk_secure:
  assumes "loadPortsChunk sha send prefix ports keys w = (r, keys', w')" and "map_of keys q = None"
    and "\<And>names w ps w'. send names w = (Inr ps, w') \<Longrightarrow>
      list_all (\<lambda>p. sp_name p = Some (parameterNameForPort prefix q) \<longrightarrow> sp_type p \<noteq> Some (js ''SecureString'')) ps"
  shows "map_of keys' q = None"
proof (rule ccontr)
  assume "map_of keys' q \<noteq> None"
  then obtain k where k: "map_of keys' q = Some k" by blast
  with assms show False
    by (fastforce simp: loadPortsChunk_def Let_def from_answer_def list_all_iff split: if_splits sum.splits prod.splits
        dest!: load_ports_from kept_parameters)
qed

lemma loadPorts_secure:
  assumes "\<And>names w ps w'. send names w = (Inr ps, w') \<Longrightarrow>
      list_all (\<lambda>p. sp_name p = Some (parameterNameForPort prefix q) \<longrightarrow> sp_type p \<noteq> Some (js ''SecureString'')) ps"
    and "map_of keys q = None"
  shows "map_of (fst (snd (loadPorts sha send prefix ports keys w))) q = None"
  using assms(2)
proof (induction "length ports" arbitrary: ports keys w rule: less_induct)
  case less
  show ?case
  proof (cases "ports = []")
    case True
    then show ?thesis using less(2) by (simp add: loadPorts.simps)
  next
    case False
    obtain r1 keys1 w1 where c: "loadPortsChunk sha send prefix (take ssm_get_parameters_max_names ports)
        keys w = (r1, keys1, w1)" by (rule prod_cases3)
    have "map_of keys1 q = None" by (rule chunk_secure [OF c less(2) assms(1)])
    moreover have "length (drop ssm_get_parameters_max_names ports) < length ports"
      using False by (simp add: ssm_get_parameters_max_names_def)
    ultimately show ?thesis
      using False less(1) by (subst loadPorts.simps) (auto simp: c split: sum.splits)
  qed
qed

text \<open>A key provisioned without encryption is never used: if the service never returns a
  \<open>SecureString\<close> under a port's name, that port stays without a key.\<close>

theorem unencrypted_key_refused:
  assumes "\<And>names w ps w'. send names w = (Inr ps, w') \<Longrightarrow>
      list_all (\<lambda>p. sp_name p = Some (parameterNameForPort prefix q) \<longrightarrow>
        sp_type p \<noteq> Some (js ''SecureString'')) ps"
  shows "hasKeyForPort (fst (snd (loadPorts sha256_hex send prefix ports [] w))) q = False"
  using loadPorts_secure [of send prefix q "[]" sha256_hex ports w, OF assms]
  by (simp add: hasKeyForPort_def js_has_def)

text \<open>A store that has a plain string under the port's name.\<close>

definition plain_store :: "js_string list \<Rightarrow> unit \<Rightarrow> ssm_parameter list outcome \<times> unit" where
  "plain_store names w =
     (Inr [\<lparr>sp_name = Some (js ''/s/5000/key''), sp_value = Some (js ''{}''), sp_type = Some (js ''String''),
            sp_version = Some 3\<rparr>], w)"

lemma unencrypted_key_refused_witness:
  "hasKeyForPort (fst (snd (loadPorts (\<lambda>s. s) plain_store (js ''/s'') [5000, 5001] [] ()))) 5000 = False"
proof (rule unencrypted_key_refused)
  fix names w ps w'
  assume "plain_store names w = (Inr ps, w')"
  then show "list_all (\<lambda>p. sp_name p = Some (parameterNameForPort (js ''/s'') 5000) \<longrightarrow>
      sp_type p \<noteq> Some (js ''SecureString'')) ps"
    by (auto simp: plain_store_def)
qed

end
