(* ===== verification/Supervisor.thy ===== *)
theory Supervisor
imports HelperProtocol KeyStore
begin

text \<open>
  One port's supervision (\<open>backend/src/SrtpPortSupervisor.ts\<close>): the state machine that owns the
  helper process and the port's Kinesis lock.

  \<open>sup\<close> has the fields of the class, and \<open>calls\<close>: the calls it made on what was injected into
  it, in order, each with the answer, and between them what it was told, at the start of the
  step that handles it. What is injected - the clock, the lock and floor
  services, the spawner, the helper's input, \<open>endChildProcess\<close>, the acknowledgement race - is
  the record \<open>config\<close>, whose members answer from the calls made so far, so that quantifying
  over configurations is quantifying over every behaviour of the surroundings. A helper
  process is the number of the spawn that made it. Logging is left out.

  A handler is one function from state to state: it runs as one step of the serialized queue,
  and nothing else changes the state while it waits. The queue itself, and what reaches it, is
  at the end.
\<close>

section \<open>State\<close>

datatype sup_state =
    Idle | Starting | Searching | Acquiring | Producing | Stopping | Cooldown | Disabled | Terminated

datatype lease_outcome = LeaseOk | LeaseLost | LeaseError

type_synonym session = nat

text \<open>The stop's acknowledgement race: the \<open>stopped\<close> frame, the helper's end, or the time-out.\<close>

datatype ack = Acked "int option" | EndedFirst | TimedOut

datatype effect =
    DidAcquire "bool outcome"
  | DidRelease "unit outcome"
  | DidRefresh "lease_outcome outcome"
  | DidReadEpoch "int option outcome"
  | DidReadFloor "int option outcome"
  | DidRaise session int "int option" bool
  | DidSpawn session helper_init "unit outcome"
  | Wrote session helper_command js_string bool
  | EndedChild session
  | SawExited session
  | AckRace session ack
  | SawAuthenticated int "int option"
  | SawStats int int
  | Moved sup_state sup_state bool
  | HeardFrame session helper_message
  | HeardExit session
  | HeardError session
  | OtherStep

type_synonym history = "effect list"

record timeouts =
  ready_ms :: int
  acquire_retry_ms :: int
  stopped_ack_ms :: int
  frame_stall_ms :: int
  restart_ms :: int
  restart_max_ms :: int
  tick_ms :: int

definition default_timeouts :: timeouts where
  "default_timeouts =
     \<lparr>ready_ms = 10000, acquire_retry_ms = 30000, stopped_ack_ms = 15000, frame_stall_ms = 30000,
      restart_ms = 1000, restart_max_ms = 60000, tick_ms = 10000\<rparr>"

record config =
  c_key :: port_key
  c_timeouts :: timeouts
  dateNow :: "history \<Rightarrow> int"
  tryAcquire :: "history \<Rightarrow> bool outcome"
  releaseLockCall :: "history \<Rightarrow> unit outcome"
  updatePacketTime :: "history \<Rightarrow> lease_outcome outcome"
  getFloorEpoch :: "history \<Rightarrow> int option outcome"
  getIndexFloor :: "history \<Rightarrow> int option outcome"
  raiseIndexFloor :: "history \<Rightarrow> bool"
  spawnHelper :: "helper_init \<Rightarrow> history \<Rightarrow> unit outcome"
  stdinWrite :: "history \<Rightarrow> bool"
  ackRace :: "history \<Rightarrow> ack"
  childExited :: "session \<Rightarrow> history \<Rightarrow> bool"

record carry =
  ca_base :: int
  ca_search_from :: int

record sup =
  st :: sup_state
  lockHeld :: bool
  helper :: "session option"
  protocol_of :: protocol
  startedAtMs :: int
  stoppedSentAtMs :: int
  releaseAfterStop :: bool
  backoffMs :: int
  retryAtMs :: int
  fatalReason :: "js_string option"
  lastAcquireAttemptMs :: int
  lastFrameAtMs :: int
  lastHeartbeatAuthenticated :: int
  searchFromCarry :: "carry option"
  sessionFloorBase :: int
  sessionEpochs :: "(session, int option) js_map"
  ticking :: bool
  spawned :: nat
  calls :: history

definition new_supervisor :: "config \<Rightarrow> sup" where
  "new_supervisor c =
     \<lparr>st = Idle, lockHeld = False, helper = None, protocol_of = new_protocol, startedAtMs = 0,
      stoppedSentAtMs = 0, releaseAfterStop = True, backoffMs = restart_ms (c_timeouts c),
      retryAtMs = 0, fatalReason = None, lastAcquireAttemptMs = 0, lastFrameAtMs = 0,
      lastHeartbeatAuthenticated = 0, searchFromCarry = None, sessionFloorBase = 0,
      sessionEpochs = [], ticking = False, spawned = 0, calls = []\<rparr>"

record port_status =
  ps_state :: sup_state
  ps_lock_held :: bool
  ps_helper_up :: bool
  ps_producing :: bool

definition status :: "sup \<Rightarrow> port_status" where
  "status s =
     \<lparr>ps_state = st s, ps_lock_held = lockHeld s, ps_helper_up = (helper s \<noteq> None),
      ps_producing = (st s = Producing)\<rparr>"

section \<open>Transitions\<close>

definition emit :: "effect \<Rightarrow> sup \<Rightarrow> sup" where
  "emit e s = s\<lparr>calls := calls s @ [e]\<rparr>"

definition now_of :: "config \<Rightarrow> sup \<Rightarrow> int" where
  "now_of c s = dateNow c (calls s)"

definition transition :: "sup_state \<Rightarrow> sup \<Rightarrow> sup" where
  "transition to s =
     (if st s = to then s else emit (Moved (st s) to (lockHeld s)) (s\<lparr>st := to\<rparr>))"

definition isGivenUp :: "sup \<Rightarrow> bool" where
  "isGivenUp s \<longleftrightarrow> st s = Terminated \<or> st s = Disabled"

definition enterCooldown :: "config \<Rightarrow> sup \<Rightarrow> sup" where
  "enterCooldown c s =
     transition Cooldown
       (s\<lparr>retryAtMs := now_of c s + backoffMs s,
          backoffMs := min (backoffMs s * 2) (restart_max_ms (c_timeouts c))\<rparr>)"

definition writeCommand :: "config \<Rightarrow> helper_command \<Rightarrow> sup \<Rightarrow> sup" where
  "writeCommand c command s =
     (case helper s of
        None \<Rightarrow> s
      | Some h \<Rightarrow>
          emit (Wrote h command (serializeCommand command @ [newline]) (stdinWrite c (calls s))) s)"

section \<open>Starting a session\<close>

definition floor_base :: "int option \<Rightarrow> int" where
  "floor_base floor = (case floor of None \<Rightarrow> 0 | Some f \<Rightarrow> f div 65536)"

definition carried_search :: "carry option \<Rightarrow> int \<Rightarrow> int option" where
  "carried_search ca floorBase =
     (case ca of
        None \<Rightarrow> None
      | Some x \<Rightarrow> (if ca_base x = floorBase then Some (ca_search_from x) else None))"

definition session_init :: "config \<Rightarrow> int option \<Rightarrow> carry option \<Rightarrow> helper_init" where
  "session_init c floor ca =
     \<lparr>hi_v = helper_protocol_version, hi_key = pk_key_hex (c_key c),
      hi_cipher = Some (pk_cipher (c_key c)), hi_auth = Some (pk_auth (c_key c)),
      hi_ssrc = pk_ssrc (c_key c), hi_floor = floor,
      hi_search_from = carried_search ca (floor_base floor)\<rparr>"

definition adopt_session :: "config \<Rightarrow> helper_init \<Rightarrow> int option \<Rightarrow> sup \<Rightarrow> sup" where
  "adopt_session c init epoch s =
     (let h = spawned s;
          s1 = s\<lparr>helper := Some h, spawned := Suc h,
                 sessionEpochs := AList.update h epoch (sessionEpochs s),
                 protocol_of := new_protocol, startedAtMs := now_of c s, lastFrameAtMs := now_of c s\<rparr>
      in transition Starting (writeCommand c (InitCommand init) s1))"

definition spawnSession :: "config \<Rightarrow> sup \<Rightarrow> sup" where
  "spawnSession c s0 =
     (let s = s0\<lparr>fatalReason := None\<rparr> in
      if isGivenUp s then s
      else
        (let epoch = getFloorEpoch c (calls s);
             s1 = emit (DidReadEpoch epoch) s
         in case epoch of
              Inl _ \<Rightarrow> enterCooldown c s1
            | Inr e \<Rightarrow>
                (let floor = getIndexFloor c (calls s1);
                     s2 = emit (DidReadFloor floor) s1
                 in case floor of
                      Inl _ \<Rightarrow> enterCooldown c s2
                    | Inr f \<Rightarrow>
                        (if isGivenUp s2 then s2
                         else
                           (let init = session_init c f (searchFromCarry s2);
                                s3 = s2\<lparr>sessionFloorBase := floor_base f\<rparr>;
                                child = spawnHelper c init (calls s3);
                                s4 = emit (DidSpawn (spawned s3) init child) s3
                            in case child of
                                 Inl _ \<Rightarrow> enterCooldown c s4
                               | Inr _ \<Rightarrow> adopt_session c init e s4)))))"

section \<open>The lock\<close>

definition releaseLock :: "config \<Rightarrow> sup \<Rightarrow> sup" where
  "releaseLock c s =
     (if \<not> lockHeld s then s
      else
        (let s1 = s\<lparr>lockHeld := False\<rparr>
         in emit (DidRelease (releaseLockCall c (calls s1))) s1))"

definition attemptAcquire :: "config \<Rightarrow> sup \<Rightarrow> sup" where
  "attemptAcquire c s =
     (if st s \<noteq> Searching \<and> st s \<noteq> Acquiring then s
      else
        (let s1 = transition Acquiring (s\<lparr>lastAcquireAttemptMs := now_of c s\<rparr>);
             r = tryAcquire c (calls s1);
             s2 = emit (DidAcquire r) s1
         in case r of
              Inl _ \<Rightarrow> s2
            | Inr False \<Rightarrow> s2
            | Inr True \<Rightarrow>
                transition Producing
                  (writeCommand c (StartCommand helper_protocol_version)
                    (s2\<lparr>lockHeld := True, releaseAfterStop := True, lastHeartbeatAuthenticated := 0\<rparr>))))"

definition notProducing :: "config \<Rightarrow> sup \<Rightarrow> sup" where
  "notProducing c s =
     (if st s = Producing \<or> st s = Stopping then transition Searching (releaseLock c s)
      else if st s = Acquiring then transition Searching s
      else s)"

definition refreshLease :: "config \<Rightarrow> sup \<Rightarrow> sup" where
  "refreshLease c s =
     (if st s \<noteq> Producing then s
      else
        (let r = updatePacketTime c (calls s);
             s1 = emit (DidRefresh r) s
         in case r of
              Inr LeaseLost \<Rightarrow>
                (let s2 = writeCommand c (StopCommand helper_protocol_version)
                            (s1\<lparr>releaseAfterStop := False\<rparr>)
                 in transition Stopping (s2\<lparr>stoppedSentAtMs := now_of c s2\<rparr>))
            | _ \<Rightarrow> s1))"

text \<open>\<open>raiseFloor\<close>: whether the call resolved, and the state.\<close>

definition raiseFloor :: "config \<Rightarrow> int \<Rightarrow> session \<Rightarrow> sup \<Rightarrow> bool \<times> sup" where
  "raiseFloor c index session s =
     (let ok = raiseIndexFloor c (calls s)
      in (ok, emit (DidRaise session index (Option.bind (map_of (sessionEpochs s) session) id) ok) s))"

section \<open>Ending a session\<close>

text \<open>\<open>endChildProcess\<close> returns only when the child is gone.\<close>

definition endSession :: "config \<Rightarrow> sup \<Rightarrow> sup" where
  "endSession c s =
     (let s1 = (case helper s of
                  None \<Rightarrow> s
                | Some h \<Rightarrow>
                    (let s' = emit (EndedChild h) (s\<lparr>helper := None\<rparr>)
                     in if lockHeld s' then releaseLock c s' else s'))
      in if st s1 \<noteq> Terminated then enterCooldown c s1 else s1)"

definition handleFloorReset :: "config \<Rightarrow> sup \<Rightarrow> bool \<times> sup" where
  "handleFloorReset c s =
     (case helper s of
        None \<Rightarrow> (False, s)
      | Some h \<Rightarrow>
          (case map_of (sessionEpochs s) h of
             None \<Rightarrow> (False, s)
           | Some sessionEpoch \<Rightarrow>
               (if st s \<noteq> Starting \<and> st s \<noteq> Searching \<and> st s \<noteq> Acquiring \<and> st s \<noteq> Producing
                then (False, s)
                else
                  (let r = getFloorEpoch c (calls s);
                       s1 = emit (DidReadEpoch r) s
                   in case r of
                        Inl _ \<Rightarrow> (False, s1)
                      | Inr epoch \<Rightarrow>
                          (if helper s1 \<noteq> Some h \<or> epoch = sessionEpoch then (False, s1)
                           else
                             (let s2 = endSession c (s1\<lparr>searchFromCarry := None\<rparr>);
                                  s3 = s2\<lparr>backoffMs := restart_ms (c_timeouts c)\<rparr>
                              in (True, if st s3 = Cooldown then spawnSession c s3 else s3)))))))"

definition handleExit :: "config \<Rightarrow> session \<Rightarrow> sup \<Rightarrow> sup" where
  "handleExit c session s =
     (if helper s \<noteq> Some session then s
      else
        (let s1 = s\<lparr>helper := None\<rparr> in
         if st s1 = Terminated then s1
         else
           (let s2 = (if lockHeld s1 then releaseLock c s1 else s1)
            in case fatalReason s2 of
                 Some reason \<Rightarrow>
                   (if \<not> isRetryableFatal reason then transition Disabled s2
                    else enterCooldown c s2)
               | None \<Rightarrow> enterCooldown c s2)))"

text \<open>An \<open>error\<close> is not proof of death: the child is ended for real first.\<close>

definition handleError :: "config \<Rightarrow> session \<Rightarrow> sup \<Rightarrow> sup" where
  "handleError c session s = handleExit c session (emit (EndedChild session) s)"

section \<open>Frames\<close>

definition handleStopped :: "config \<Rightarrow> int option \<Rightarrow> session \<Rightarrow> sup \<Rightarrow> sup" where
  "handleStopped c index session s =
     (let (ok, s1) = (case index of None \<Rightarrow> (True, s) | Some i \<Rightarrow> raiseFloor c i session s) in
      if \<not> ok then s1
      else if st s1 = Stopping then
        transition Searching
          (if releaseAfterStop s1 then releaseLock c s1 else s1\<lparr>lockHeld := False\<rparr>)
      else if st s1 = Producing then transition Searching (releaseLock c s1)
      else s1)"

definition handleStats :: "config \<Rightarrow> int \<Rightarrow> int \<Rightarrow> sup \<Rightarrow> sup" where
  "handleStats c inputBytes authenticated s =
     (let s1 = emit (SawStats inputBytes authenticated) s;
          s2 = (if authenticated > lastHeartbeatAuthenticated s1
                then s1\<lparr>lastHeartbeatAuthenticated := authenticated\<rparr> else s1)
      in if st s2 = Producing then (if authenticated > 0 then refreshLease c s2 else s2)
         else if st s2 = Acquiring \<and> authenticated > 0 \<and>
           now_of c s2 - lastAcquireAttemptMs s2 \<ge> acquire_retry_ms (c_timeouts c)
         then attemptAcquire c s2
         else s2)"

definition handleReady :: "config \<Rightarrow> int \<Rightarrow> sup \<Rightarrow> sup" where
  "handleReady c v s =
     (if v \<noteq> helper_protocol_version then endSession c s
      else if st s \<noteq> Starting then s
      else transition Searching (s\<lparr>backoffMs := restart_ms (c_timeouts c)\<rparr>))"

definition handleFirstAuth :: "config \<Rightarrow> int \<Rightarrow> int option \<Rightarrow> sup \<Rightarrow> sup" where
  "handleFirstAuth c roc trials s =
     (let s1 = emit (SawAuthenticated roc trials) s
      in if st s1 = Searching \<or> st s1 = Acquiring then attemptAcquire c s1 else s1)"

text \<open>A frame of the current session.\<close>

definition handleOwnFrame :: "config \<Rightarrow> helper_message \<Rightarrow> session \<Rightarrow> sup \<Rightarrow> sup" where
  "handleOwnFrame c message session s =
     (case message of
        Ready v port pid \<Rightarrow> handleReady c v s
      | AuthOk first roc seq candidate trials authenticated \<Rightarrow>
          (if first then handleFirstAuth c roc trials s else s)
      | AuthFail candidate inputs drops searchFrom \<Rightarrow>
          (case searchFrom of
             None \<Rightarrow> s
           | Some x \<Rightarrow> s\<lparr>searchFromCarry := Some \<lparr>ca_base = sessionFloorBase s, ca_search_from = x\<rparr>\<rparr>)
      | AuthExhausted trials \<Rightarrow> s
      | AuthLost sinceMs drops \<Rightarrow> notProducing c s
      | StoppedFrame index \<Rightarrow> handleStopped c index session s
      | ProducingFrame \<Rightarrow> s
      | IndexFrame index \<Rightarrow> snd (raiseFloor c index session s)
      | Stats inputs inputBytes authenticated aus roc drops \<Rightarrow> handleStats c inputBytes authenticated s
      | FatalFrame reason m \<Rightarrow> s\<lparr>fatalReason := Some reason\<rparr>
      | ErrorFrame element m \<Rightarrow> s
      | WarningFrame element m \<Rightarrow> s
      | SearchingFrame candidate trial \<Rightarrow> s
      | Eos \<Rightarrow> s
      | Unparsed raw \<Rightarrow> s)"

text \<open>A frame of a session that has been replaced.\<close>

definition handleLateFrame :: "config \<Rightarrow> helper_message \<Rightarrow> session \<Rightarrow> sup \<Rightarrow> sup" where
  "handleLateFrame c message session s =
     (case message of
        IndexFrame index \<Rightarrow> snd (raiseFloor c index session s)
      | AuthFail candidate inputs drops (Some x) \<Rightarrow>
          s\<lparr>searchFromCarry := Some \<lparr>ca_base = sessionFloorBase s, ca_search_from = x\<rparr>\<rparr>
      | _ \<Rightarrow> s)"

definition handleFrame :: "config \<Rightarrow> helper_message \<Rightarrow> session \<Rightarrow> sup \<Rightarrow> sup" where
  "handleFrame c message session s =
     (if st s = Terminated \<or> st s = Idle then s
      else if helper s \<noteq> Some session then handleLateFrame c message session s
      else handleOwnFrame c message session (s\<lparr>lastFrameAtMs := now_of c s\<rparr>))"

section \<open>The tick and the shutdown\<close>

definition handleTick :: "config \<Rightarrow> sup \<Rightarrow> sup" where
  "handleTick c s0 =
     (if st s0 = Terminated \<or> st s0 = Idle \<or> st s0 = Disabled then s0
      else
        (let (restarted, s) = handleFloorReset c s0; t = now_of c s; tm = c_timeouts c in
         if restarted then s
         else
           (case st s of
              Starting \<Rightarrow> (if t - startedAtMs s > ready_ms tm then endSession c s else s)
            | Cooldown \<Rightarrow> (if t \<ge> retryAtMs s then spawnSession c s else s)
            | Stopping \<Rightarrow> (if t - stoppedSentAtMs s > stopped_ack_ms tm then endSession c s else s)
            | Producing \<Rightarrow> (if t - lastFrameAtMs s > frame_stall_ms tm then endSession c s else s)
            | Searching \<Rightarrow> (if t - lastFrameAtMs s > frame_stall_ms tm then endSession c s else s)
            | Acquiring \<Rightarrow> (if t - lastFrameAtMs s > frame_stall_ms tm then endSession c s else s)
            | _ \<Rightarrow> s)))"

definition awaitStopAck :: "config \<Rightarrow> session \<Rightarrow> sup \<Rightarrow> ack \<times> sup" where
  "awaitStopAck c h s =
     (let s1 = writeCommand c (StopCommand helper_protocol_version) s;
          a = ackRace c (calls s1)
      in (a, emit (AckRace h a) s1))"

text \<open>The part of the shutdown that ends a live helper: whether it ran to its end, and the state.\<close>

definition shutdownHelper :: "config \<Rightarrow> session \<Rightarrow> sup \<Rightarrow> bool \<times> sup" where
  "shutdownHelper c h s =
     (let (ok, s2) =
        (if st s = Producing \<or> st s = Stopping then
           (case awaitStopAck c h s of
              (a, s1) \<Rightarrow>
                (case a of
                   Acked (Some index) \<Rightarrow> raiseFloor c index h s1
                 | _ \<Rightarrow> (True, s1)))
         else (True, s))
      in if ok then (True, (emit (EndedChild h) s2)\<lparr>helper := None\<rparr>) else (False, s2))"

definition shutdown :: "config \<Rightarrow> sup \<Rightarrow> sup" where
  "shutdown c s0 =
     (if st s0 = Terminated then s0
      else
        (let s = s0\<lparr>ticking := False\<rparr>;
             (ok, s1) =
               (case helper s of
                  None \<Rightarrow> (True, s)
                | Some h \<Rightarrow>
                    (if childExited c h (calls s) then (True, emit (SawExited h) s)
                     else shutdownHelper c h s))
         in if \<not> ok then s1
            else transition Terminated (if lockHeld s1 then releaseLock c s1 else s1)))"

section \<open>The queue\<close>

datatype step =
    StartStep
  | StopStep
  | TickStep
  | CheckResetStep
  | FrameStep helper_message session
  | ExitStep session
  | ErrorStep session

fun run_step :: "config \<Rightarrow> step \<Rightarrow> sup \<Rightarrow> sup" where
  "run_step c StartStep s = (let s = emit OtherStep s in if st s \<noteq> Idle then s else spawnSession c s)"
| "run_step c StopStep s = shutdown c (emit OtherStep s)"
| "run_step c TickStep s = handleTick c (emit OtherStep s)"
| "run_step c CheckResetStep s = snd (handleFloorReset c (emit OtherStep s))"
| "run_step c (FrameStep m h) s = handleFrame c m h (emit (HeardFrame h m) s)"
| "run_step c (ExitStep h) s = handleExit c h (emit (HeardExit h) s)"
| "run_step c (ErrorStep h) s = handleError c h (emit (HeardError h) s)"

text \<open>The supervisor with its queue, and what reaches it from outside: the calls of its owner,
  its timer, and the listeners of a session's streams and process.\<close>

record port_system =
  sys_sup :: sup
  sys_queue :: "step list"

datatype port_event =
    CallStart
  | CallStop
  | CallCheckReset
  | TimerTick
  | StdoutData session js_string
  | ProcessExit session
  | ProcessError session
  | RunNext

definition enqueue :: "step list \<Rightarrow> port_system \<Rightarrow> port_system" where
  "enqueue steps p = p\<lparr>sys_queue := sys_queue p @ steps\<rparr>"

text \<open>The listener of a session's output feeds the one protocol object of the supervisor.\<close>

definition on_stdout :: "session \<Rightarrow> js_string \<Rightarrow> port_system \<Rightarrow> port_system" where
  "on_stdout session chunk p =
     (case push chunk (protocol_of (sys_sup p)) of
        (messages, protocol) \<Rightarrow>
          enqueue (map (\<lambda>m. FrameStep m session) messages)
            (p\<lparr>sys_sup := (sys_sup p)\<lparr>protocol_of := protocol\<rparr>\<rparr>))"

fun port_step :: "config \<Rightarrow> port_event \<Rightarrow> port_system \<Rightarrow> port_system" where
  "port_step c CallStart p =
     enqueue [StartStep] (p\<lparr>sys_sup := (sys_sup p)\<lparr>ticking := True\<rparr>\<rparr>)"
| "port_step c CallStop p = enqueue [StopStep] p"
| "port_step c CallCheckReset p = enqueue [CheckResetStep] p"
| "port_step c TimerTick p = (if ticking (sys_sup p) then enqueue [TickStep] p else p)"
| "port_step c (StdoutData session chunk) p = on_stdout session chunk p"
| "port_step c (ProcessExit session) p = enqueue [ExitStep session] p"
| "port_step c (ProcessError session) p = enqueue [ErrorStep session] p"
| "port_step c RunNext p =
     (case sys_queue p of
        [] \<Rightarrow> p
      | x # xs \<Rightarrow> p\<lparr>sys_queue := xs, sys_sup := run_step c x (sys_sup p)\<rparr>)"

definition new_port :: "config \<Rightarrow> port_system" where
  "new_port c = \<lparr>sys_sup = new_supervisor c, sys_queue = []\<rparr>"

inductive port_reach :: "config \<Rightarrow> port_system \<Rightarrow> bool" for c where
  new: "port_reach c (new_port c)"
| event: "port_reach c p \<Longrightarrow> port_reach c (port_step c e p)"

section \<open>Reading a history\<close>

text \<open>A check of a history: \<open>chk\<close> of each effect against what \<open>upd\<close> has gathered from the
  effects before it.\<close>

fun watched :: "('m \<Rightarrow> effect \<Rightarrow> bool) \<Rightarrow> ('m \<Rightarrow> effect \<Rightarrow> 'm) \<Rightarrow> 'm \<Rightarrow> history \<Rightarrow> bool" where
  "watched chk upd m [] = True"
| "watched chk upd m (e # es) = (chk m e \<and> watched chk upd (upd m e) es)"

lemma watched_append [simp]:
  "watched chk upd m (xs @ ys) \<longleftrightarrow> watched chk upd m xs \<and> watched chk upd (foldl upd m xs) ys"
  by (induction xs arbitrary: m) auto

fun holding :: "sup_state \<Rightarrow> bool" where
  "holding Producing = True"
| "holding Stopping = True"
| "holding _ = False"

fun active :: "sup_state \<Rightarrow> bool" where
  "active Starting = True"
| "active Searching = True"
| "active Acquiring = True"
| "active Producing = True"
| "active Stopping = True"
| "active _ = False"

text \<open>Every transition, as the hook sees it: the lock is held exactly in the states that hold it.\<close>

fun moved_ok :: "effect \<Rightarrow> bool" where
  "moved_ok (Moved f t held) \<longleftrightarrow> held = holding t"
| "moved_ok _ \<longleftrightarrow> True"

text \<open>The helpers told to produce that nothing has shown to be down since.\<close>

fun risk :: "session set \<Rightarrow> effect \<Rightarrow> session set" where
  "risk hs (Wrote h (StartCommand v) line ok) = insert h hs"
| "risk hs (EndedChild h) = hs - {h}"
| "risk hs (SawExited h) = hs - {h}"
| "risk hs (HeardExit h) = hs - {h}"
| "risk hs (HeardFrame h (StoppedFrame i)) = hs - {h}"
| "risk hs (HeardFrame h (AuthLost ms d)) = hs - {h}"
| "risk hs _ = hs"

fun release_safe :: "session set \<Rightarrow> effect \<Rightarrow> bool" where
  "release_safe hs (DidRelease r) \<longleftrightarrow> hs = {}"
| "release_safe hs _ \<longleftrightarrow> True"

text \<open>The helpers spawned that nothing has shown to be gone since.\<close>

fun alive :: "session set \<Rightarrow> effect \<Rightarrow> session set" where
  "alive hs (DidSpawn h init (Inr u)) = insert h hs"
| "alive hs (EndedChild h) = hs - {h}"
| "alive hs (SawExited h) = hs - {h}"
| "alive hs (HeardExit h) = hs - {h}"
| "alive hs _ = hs"

fun spawn_alone :: "session set \<Rightarrow> effect \<Rightarrow> bool" where
  "spawn_alone hs (DidSpawn h init r) \<longleftrightarrow> hs = {}"
| "spawn_alone hs _ \<longleftrightarrow> True"

text \<open>The frame being handled, and whether it reports authenticated traffic.\<close>

fun heard :: "(session \<times> helper_message) option \<Rightarrow> effect \<Rightarrow> (session \<times> helper_message) option" where
  "heard x (HeardFrame h m) = Some (h, m)"
| "heard x (HeardExit h) = None"
| "heard x (HeardError h) = None"
| "heard x OtherStep = None"
| "heard x _ = x"

fun reports_auth :: "helper_message \<Rightarrow> bool" where
  "reports_auth (AuthOk first roc seq candidate trials authenticated) = first"
| "reports_auth (Stats inputs inputBytes authenticated aus roc drops) = (0 < authenticated)"
| "reports_auth _ = False"

text \<open>An acquisition answers a report of authenticated traffic by a live helper.\<close>

type_synonym hearing = "session set \<times> (session \<times> helper_message) option"

definition hear :: "hearing \<Rightarrow> effect \<Rightarrow> hearing" where
  "hear hx e = (alive (fst hx) e, heard (snd hx) e)"

fun acquire_on_auth :: "hearing \<Rightarrow> effect \<Rightarrow> bool" where
  "acquire_on_auth hx (DidAcquire r) \<longleftrightarrow>
     (case snd hx of None \<Rightarrow> False | Some (h, m) \<Rightarrow> h \<in> fst hx \<and> reports_auth m)"
| "acquire_on_auth _ _ \<longleftrightarrow> True"

text \<open>The two effects before: a start follows its acquisition, a spawn the reads it rests on.\<close>

definition before :: "effect option \<times> effect option \<Rightarrow> effect \<Rightarrow> effect option \<times> effect option" where
  "before ab e = (snd ab, Some e)"

fun in_order :: "effect option \<times> effect option \<Rightarrow> effect \<Rightarrow> bool" where
  "in_order ab (Wrote h (StartCommand v) line ok) \<longleftrightarrow> snd ab = Some (DidAcquire (Inr True))"
| "in_order ab (DidSpawn h init r) \<longleftrightarrow>
     (case ab of
        (Some (DidReadEpoch (Inr e)), Some (DidReadFloor (Inr f))) \<Rightarrow> hi_floor init = f
      | _ \<Rightarrow> False)"
| "in_order _ _ \<longleftrightarrow> True"

text \<open>The epoch each session was started under: the one read last before it was spawned.\<close>

type_synonym epoch_log = "int option \<times> (session \<rightharpoonup> int option)"

fun epochs :: "epoch_log \<Rightarrow> effect \<Rightarrow> epoch_log" where
  "epochs xm (DidReadEpoch (Inr e)) = (e, snd xm)"
| "epochs xm (DidSpawn h init (Inr u)) = (fst xm, (snd xm)(h \<mapsto> fst xm))"
| "epochs xm _ = xm"

fun raise_fenced :: "epoch_log \<Rightarrow> effect \<Rightarrow> bool" where
  "raise_fenced xm (DidRaise h i e ok) \<longleftrightarrow> e = Option.bind (snd xm h) id"
| "raise_fenced _ _ \<longleftrightarrow> True"

text \<open>A session has a number of its own: above those of all before it.\<close>

fun sessions :: "nat \<Rightarrow> effect \<Rightarrow> nat" where
  "sessions n (DidSpawn h init (Inr u)) = Suc h"
| "sessions n _ = n"

fun new_session :: "nat \<Rightarrow> effect \<Rightarrow> bool" where
  "new_session n (DidSpawn h init r) \<longleftrightarrow> n \<le> h"
| "new_session n _ \<longleftrightarrow> True"

text \<open>What the answers of the lock service say of the lock, and that a lease is only refreshed while
  they say it is held; that a lost one is followed by nothing before the stop; and that the stop
  goes to every helper that may be producing.\<close>

fun lock_view :: "bool \<Rightarrow> effect \<Rightarrow> bool" where
  "lock_view b (DidAcquire (Inr True)) = True"
| "lock_view b (DidRelease r) = False"
| "lock_view b (DidRefresh (Inr LeaseLost)) = False"
| "lock_view b _ = b"

fun refresh_holding :: "bool \<Rightarrow> effect \<Rightarrow> bool" where
  "refresh_holding b (DidRefresh r) \<longleftrightarrow> b"
| "refresh_holding b _ \<longleftrightarrow> True"

fun stop_when_lost :: "effect option \<times> effect option \<Rightarrow> effect \<Rightarrow> bool" where
  "stop_when_lost ab (Wrote h (StopCommand v) line ok) \<longleftrightarrow> True"
| "stop_when_lost ab _ \<longleftrightarrow> snd ab \<noteq> Some (DidRefresh (Inr LeaseLost))"

fun stop_to_producer :: "session set \<Rightarrow> effect \<Rightarrow> bool" where
  "stop_to_producer hs (Wrote h (StopCommand v) line ok) \<longleftrightarrow> hs \<subseteq> {h}"
| "stop_to_producer hs _ \<longleftrightarrow> True"

section \<open>The invariant\<close>

definition history_ok :: "history \<Rightarrow> bool" where
  "history_ok hist \<longleftrightarrow>
     list_all moved_ok hist \<and> watched release_safe risk {} hist \<and>
     watched spawn_alone alive {} hist \<and> watched acquire_on_auth hear ({}, None) hist \<and>
     watched in_order before (None, None) hist \<and>
     watched raise_fenced epochs (None, Map.empty) hist \<and>
     watched new_session sessions 0 hist \<and>
     watched refresh_holding lock_view False hist \<and>
     watched stop_when_lost before (None, None) hist \<and> watched stop_to_producer risk {} hist"

definition backoff_ok :: "config \<Rightarrow> int \<Rightarrow> bool" where
  "backoff_ok c b \<longleftrightarrow>
     (let tm = c_timeouts c in
      if 0 \<le> restart_ms tm \<and> restart_ms tm \<le> restart_max_ms tm
      then restart_ms tm \<le> b \<and> b \<le> restart_max_ms tm else True)"

lemma backoff_ok_simps [simp]:
  "backoff_ok c (restart_ms (c_timeouts c))"
  "backoff_ok c b \<Longrightarrow> backoff_ok c (min (b * 2) (restart_max_ms (c_timeouts c)))"
  by (auto simp: backoff_ok_def Let_def)

lemma hear_fold: "foldl hear hx es = (foldl alive (fst hx) es, foldl heard (snd hx) es)"
  by (induction es arbitrary: hx) (auto simp: hear_def)

definition sup_inv :: "config \<Rightarrow> sup \<Rightarrow> bool" where
  "sup_inv c s \<longleftrightarrow>
     lockHeld s = holding (st s) \<and> (active (st s) \<longrightarrow> helper s \<noteq> None) \<and>
     (helper s \<noteq> None \<longrightarrow> active (st s) \<or> st s = Terminated) \<and>
     foldl alive {} (calls s) = (if st s = Terminated then {} else set_option (helper s)) \<and>
     foldl risk {} (calls s) \<subseteq> (if holding (st s) then set_option (helper s) else {}) \<and>
     snd (foldl epochs (None, Map.empty) (calls s)) = map_of (sessionEpochs s) \<and>
     foldl sessions 0 (calls s) \<le> spawned s \<and>
     (st s = Producing \<longrightarrow> foldl lock_view False (calls s)) \<and>
     snd (foldl before (None, None) (calls s)) \<noteq> Some (DidRefresh (Inr LeaseLost)) \<and>
     backoff_ok c (backoffMs s) \<and> history_ok (calls s)"

lemmas handler_defs = transition_def enterCooldown_def writeCommand_def releaseLock_def emit_def
  isGivenUp_def now_of_def raiseFloor_def

lemmas inv_defs = sup_inv_def history_ok_def hear_fold hear_def before_def

lemma epochs_snd [simp]: "snd (epochs xm (DidReadEpoch r)) = snd xm"
  by (cases r) simp_all

lemma attemptAcquire_inv:
  "sup_inv c s \<Longrightarrow> foldl heard None (calls s) = Some (h, m) \<Longrightarrow> reports_auth m \<Longrightarrow> helper s = Some h \<Longrightarrow>
    sup_inv c (attemptAcquire c s)"
  by (cases "st s")
    (auto simp add: attemptAcquire_def handler_defs inv_defs Let_def split: sum.split bool.split)

lemma endSession_inv:
  "sup_inv c s \<Longrightarrow> active (st s) \<Longrightarrow>
    sup_inv c (endSession c s) \<and> st (endSession c s) = Cooldown \<and> helper (endSession c s) = None"
  by (cases "st s"; cases "helper s")
    (simp_all add: endSession_def handler_defs inv_defs Let_def)

text \<open>Between sessions: what a start or a cooldown keeps.\<close>

lemma enterCooldown_inv:
  "sup_inv c s \<Longrightarrow> helper s = None \<Longrightarrow> st s = Idle \<or> st s = Cooldown \<Longrightarrow> sup_inv c (enterCooldown c s)"
  by (elim disjE) (simp_all add: handler_defs inv_defs)

lemma reads_inv:
  "sup_inv c s \<Longrightarrow> sup_inv c (emit (DidReadEpoch r) s)"
  "sup_inv c s \<Longrightarrow> sup_inv c (emit (DidReadFloor f) s)"
  by (cases "st s"; simp add: emit_def inv_defs)+

lemma spawn_failed_inv:
  assumes "sup_inv c s" and "helper s = None" and "st s = Idle \<or> st s = Cooldown"
    and "snd (foldl before (None, None) (calls s)) = Some (DidReadFloor (Inr f))"
      "fst (foldl before (None, None) (calls s)) = Some (DidReadEpoch (Inr e))" "hi_floor init = f"
  shows "sup_inv c (emit (DidSpawn (spawned s) init (Inl x)) s)"
  using assms by (cases "foldl before (None, None) (calls s)") (auto simp: emit_def inv_defs)

lemma adopt_inv:
  assumes "sup_inv c s" and "helper s = None" and "st s = Idle \<or> st s = Cooldown"
    and "snd (foldl before (None, None) (calls s)) = Some (DidReadFloor (Inr f))"
      "fst (foldl before (None, None) (calls s)) = Some (DidReadEpoch (Inr e))" "hi_floor init = f"
      "fst (foldl epochs (None, Map.empty) (calls s)) = e"
  shows "sup_inv c (adopt_session c init e (emit (DidSpawn (spawned s) init (Inr u)) s))"
  using assms(3)
proof (elim disjE)
qed (use assms in \<open>cases "foldl before (None, None) (calls s)"; auto simp: adopt_session_def handler_defs inv_defs Let_def\<close>)+

lemma spawnSession_inv:
  assumes "sup_inv c s" and "st s = Idle \<or> st s = Cooldown"
  shows "sup_inv c (spawnSession c s)"
proof -
  have h: "helper s = None" using assms by (auto simp: sup_inv_def)
  define t where "t = s\<lparr>fatalReason := None\<rparr>"
  have t: "sup_inv c t" "helper t = None" "st t = Idle \<or> st t = Cooldown"
    using assms h by (auto simp: t_def sup_inv_def)
  let ?e = "getFloorEpoch c (calls t)"
  define t1 where "t1 = emit (DidReadEpoch ?e) t"
  have t1: "sup_inv c t1" "helper t1 = None" "st t1 = Idle \<or> st t1 = Cooldown"
    using t reads_inv(1) by (auto simp: t1_def emit_def)
  let ?f = "getIndexFloor c (calls t1)"
  define t2 where "t2 = emit (DidReadFloor ?f) t1"
  have t2: "sup_inv c t2" "helper t2 = None" "st t2 = Idle \<or> st t2 = Cooldown"
    using t1 reads_inv(2) by (auto simp: t2_def emit_def)
  have up: "\<not> isGivenUp t" "\<not> isGivenUp t2" using t(3) t2(3) by (auto simp: isGivenUp_def)
  have eq: "spawnSession c s =
      (case ?e of
         Inl _ \<Rightarrow> enterCooldown c t1
       | Inr e \<Rightarrow>
           (case ?f of
              Inl _ \<Rightarrow> enterCooldown c t2
            | Inr f \<Rightarrow>
                (let init = session_init c f (searchFromCarry t2);
                     t3 = t2\<lparr>sessionFloorBase := floor_base f\<rparr>;
                     child = spawnHelper c init (calls t3);
                     t4 = emit (DidSpawn (spawned t3) init child) t3
                 in case child of Inl _ \<Rightarrow> enterCooldown c t4 | Inr _ \<Rightarrow> adopt_session c init e t4)))"
    by (simp only: spawnSession_def Let_def t_def [symmetric] t1_def [symmetric] t2_def [symmetric]
        up if_False)
  show ?thesis
  proof (cases ?e)
    case (Inl x)
    then show ?thesis using enterCooldown_inv t1 by (simp add: eq)
  next
    case e: (Inr e)
    show ?thesis
    proof (cases ?f)
      case (Inl x)
      then show ?thesis using enterCooldown_inv t2 by (simp add: eq e)
    next
      case f: (Inr f)
      let ?init = "session_init c f (searchFromCarry t2)"
      define t3 where "t3 = t2\<lparr>sessionFloorBase := floor_base f\<rparr>"
      have t3: "sup_inv c t3" "helper t3 = None" "st t3 = Idle \<or> st t3 = Cooldown"
        "snd (foldl before (None, None) (calls t3)) = Some (DidReadFloor (Inr f))"
        "fst (foldl before (None, None) (calls t3)) = Some (DidReadEpoch (Inr e))"
        "fst (foldl epochs (None, Map.empty) (calls t3)) = e" "hi_floor ?init = f"
        using t2 e f by (auto simp: t3_def sup_inv_def t2_def t1_def emit_def before_def session_init_def)
      show ?thesis
      proof (cases "spawnHelper c ?init (calls t3)")
        case (Inl x)
        then show ?thesis
          using enterCooldown_inv [OF spawn_failed_inv [OF t3(1-5,7)], of x] t3(2,3)
          by (simp add: eq e f Let_def t3_def [symmetric] emit_def)
      next
        case (Inr u)
        then show ?thesis using adopt_inv [OF t3(1-5,7,6), of u]
          by (simp add: eq e f Let_def t3_def [symmetric])
      qed
    qed
  qed
qed

lemma notProducing_inv:
  "sup_inv c s \<Longrightarrow> foldl risk {} (calls s) = {} \<Longrightarrow> sup_inv c (notProducing c s)"
  by (cases "st s"; cases "helper s")
    (simp_all add: notProducing_def handler_defs inv_defs Let_def)

lemma refreshLease_inv: "sup_inv c s \<Longrightarrow> sup_inv c (refreshLease c s)"
  by (cases "st s"; cases "helper s")
    (simp_all add: refreshLease_def handler_defs inv_defs Let_def split: sum.split lease_outcome.split)

lemma raiseFloor_inv: "sup_inv c s \<Longrightarrow> sup_inv c (snd (raiseFloor c i h s))"
  by (cases "st s") (simp_all add: handler_defs inv_defs Let_def)

lemma handleStopped_inv:
  "sup_inv c s \<Longrightarrow> foldl risk {} (calls s) = {} \<Longrightarrow> sup_inv c (handleStopped c index h s)"
  by (cases "st s"; cases "helper s"; cases index)
    (simp_all add: handleStopped_def handler_defs inv_defs Let_def)


lemma sup_inv_fields [simp]:
  "sup_inv c (s\<lparr>lastFrameAtMs := t\<rparr>) = sup_inv c s"
  "sup_inv c (s\<lparr>lastHeartbeatAuthenticated := t\<rparr>) = sup_inv c s"
  "sup_inv c (s\<lparr>searchFromCarry := x\<rparr>) = sup_inv c s"
  "sup_inv c (s\<lparr>fatalReason := r\<rparr>) = sup_inv c s"
  "sup_inv c (s\<lparr>ticking := b\<rparr>) = sup_inv c s"
  "sup_inv c (s\<lparr>protocol_of := p\<rparr>) = sup_inv c s"
  by (simp_all add: sup_inv_def)

text \<open>The facts about the calls so far that a frame's handler relies on.\<close>

definition hearing_own :: "helper_message \<Rightarrow> session \<Rightarrow> sup \<Rightarrow> bool" where
  "hearing_own m h s \<longleftrightarrow> helper s = Some h \<and> foldl heard None (calls s) = Some (h, m)"

lemma handleStats_inv:
  assumes "sup_inv c s" and "hearing_own (Stats inputs b a aus roc d) h s"
  shows "sup_inv c (handleStats c b a s)"
proof -
  let ?s = "emit (SawStats b a) s"
  have inv: "sup_inv c ?s" using assms(1) by (cases "st s") (simp_all add: emit_def inv_defs)
  have heard: "foldl heard None (calls ?s) = Some (h, Stats inputs b a aus roc d)" "helper ?s = Some h"
    using assms(2) by (simp_all add: hearing_own_def emit_def)
  show ?thesis
    using inv heard attemptAcquire_inv [of c "?s\<lparr>lastHeartbeatAuthenticated := a\<rparr>" h "Stats inputs b a aus roc d"]
      attemptAcquire_inv [of c "?s" h "Stats inputs b a aus roc d"]
    by (simp add: handleStats_def Let_def refreshLease_inv)
qed

lemma handleReady_inv: "sup_inv c s \<Longrightarrow> active (st s) \<Longrightarrow> sup_inv c (handleReady c v s)"
  by (cases "st s"; cases "helper s")
    (simp_all add: handleReady_def endSession_inv, simp_all add: inv_defs handler_defs)

lemma handleFirstAuth_inv:
  assumes "sup_inv c s" and "hearing_own (AuthOk True roc seq ca tr au) h s"
  shows "sup_inv c (handleFirstAuth c roc' t s)"
proof -
  let ?s = "emit (SawAuthenticated roc' t) s"
  have inv: "sup_inv c ?s" using assms(1) by (cases "st s") (simp_all add: emit_def inv_defs)
  have "foldl heard None (calls ?s) = Some (h, AuthOk True roc seq ca tr au)" "helper ?s = Some h"
    using assms(2) by (simp_all add: hearing_own_def emit_def)
  with inv show ?thesis
    using attemptAcquire_inv [of c ?s h "AuthOk True roc seq ca tr au"]
    by (simp add: handleFirstAuth_def Let_def)
qed

text \<open>Hearing a frame keeps the invariant, and a helper heard to be down is no risk.\<close>

lemma heard_frame_inv: "sup_inv c s \<Longrightarrow> sup_inv c (emit (HeardFrame h m) s)"
  by (cases "st s"; cases m) (auto simp: emit_def inv_defs)

lemma heard_down:
  assumes "sup_inv c s" and "helper s = Some h"
  shows "foldl risk {} (calls (emit (HeardFrame h (StoppedFrame i)) s)) = {}"
    and "foldl risk {} (calls (emit (HeardFrame h (AuthLost ms d)) s)) = {}"
  using assms by (auto simp: emit_def inv_defs split: if_splits)

lemma handleLateFrame_inv: "sup_inv c s \<Longrightarrow> sup_inv c (handleLateFrame c m h s)"
  by (cases m) (simp_all add: handleLateFrame_def raiseFloor_inv split: option.split)

lemma frame_step_inv:
  assumes "sup_inv c s"
  shows "sup_inv c (run_step c (FrameStep m h) s)"
proof -
  let ?s = "emit (HeardFrame h m) s"
  have inv: "sup_inv c ?s" using assms by (rule heard_frame_inv)
  show ?thesis
  proof (cases "st s = Terminated \<or> st s = Idle \<or> helper s \<noteq> Some h")
    case True
    then show ?thesis using inv by (auto simp: handleFrame_def emit_def handleLateFrame_inv)
  next
    case False
    define t where "t = ?s\<lparr>lastFrameAtMs := now_of c ?s\<rparr>"
    have t: "sup_inv c t" "hearing_own m h t" using inv False by (simp_all add: t_def hearing_own_def emit_def)
    have act: "active (st t)" using assms False by (auto simp: t_def emit_def inv_defs)
    have down: "foldl risk {} (calls t) = {}" if "m = StoppedFrame i \<or> m = AuthLost ms d" for i ms d
      using that heard_down [OF assms] False by (auto simp: t_def)
    have "run_step c (FrameStep m h) s = handleOwnFrame c m h t"
      using False by (simp add: handleFrame_def t_def emit_def)
    also have "sup_inv c \<dots>"
      using t act down
      by (cases m)
        (auto simp: handleOwnFrame_def handleReady_inv notProducing_inv handleStopped_inv raiseFloor_inv
          intro: handleStats_inv handleFirstAuth_inv split: option.split)
    finally show ?thesis .
  qed
qed

lemma handleFloorReset_inv:
  assumes "sup_inv c s"
  shows "sup_inv c (snd (handleFloorReset c s))"
    and "fst (handleFloorReset c s) = False \<Longrightarrow>
      st (snd (handleFloorReset c s)) = st s \<and> helper (snd (handleFloorReset c s)) = helper s"
proof -
  have e: "sup_inv c (emit (DidReadEpoch r) s)" for r
    using assms by (cases "st s") (simp_all add: emit_def inv_defs)
  have f: "st (emit e s) = st s" for e by (simp add: emit_def)
  have b: "sup_inv c (x\<lparr>backoffMs := restart_ms (c_timeouts c)\<rparr>)" if "sup_inv c x" for x
    using that by (cases "st x") (simp_all add: sup_inv_def)
  have ended: "sup_inv c (endSession c (emit (DidReadEpoch r) s\<lparr>searchFromCarry := None\<rparr>))"
      "st (endSession c (emit (DidReadEpoch r) s\<lparr>searchFromCarry := None\<rparr>)) = Cooldown" if "active (st s)" for r
    using endSession_inv [of c "emit (DidReadEpoch r) s\<lparr>searchFromCarry := None\<rparr>"] e that by (simp_all add: f)
  show "sup_inv c (snd (handleFloorReset c s))"
    using assms e ended
    by (cases "st s")
      (auto simp: handleFloorReset_def Let_def intro!: spawnSession_inv b split: option.split sum.split)
  show "fst (handleFloorReset c s) = False \<Longrightarrow>
      st (snd (handleFloorReset c s)) = st s \<and> helper (snd (handleFloorReset c s)) = helper s"
    by (auto simp: handleFloorReset_def Let_def emit_def split: option.split sum.split if_splits)
qed

lemma handleTick_inv: "sup_inv c s \<Longrightarrow> sup_inv c (handleTick c s)"
proof -
  assume inv: "sup_inv c s"
  obtain b t where r: "handleFloorReset c s = (b, t)" by fastforce
  note t = handleFloorReset_inv [OF inv]
  show ?thesis
    using t inv
    by (cases "st t")
      (auto simp: handleTick_def r Let_def endSession_inv intro!: spawnSession_inv)
qed

lemma gone_other_inv:
  assumes "sup_inv c s" and "helper s \<noteq> Some h"
  shows "sup_inv c (emit (HeardExit h) s)" and "sup_inv c (emit (EndedChild h) s)"
  using assms by (cases "st s"; cases "helper s"; auto simp: emit_def inv_defs)+

lemma gone_own_inv:
  assumes "sup_inv c s" and "helper s = Some h" and "e = HeardExit h \<or> e = EndedChild h"
  shows "sup_inv c (handleExit c h (emit e s))"
  using assms
  by (elim disjE; cases "st s"; cases "fatalReason s")
    (simp_all add: handleExit_def handler_defs inv_defs Let_def)

lemma handleExit_inv:
  assumes "sup_inv c s" and "e = HeardExit h \<or> e = EndedChild h"
  shows "sup_inv c (handleExit c h (emit e s))"
proof (cases "helper s = Some h")
  case True
  then show ?thesis using gone_own_inv assms by blast
next
  case False
  then have "handleExit c h (emit e s) = emit e s" by (simp add: handleExit_def emit_def)
  with False assms gone_other_inv show ?thesis by metis
qed

lemma heard_exit_inv:
  assumes "sup_inv c s"
  shows "sup_inv c (run_step c (ExitStep h) s)" and "sup_inv c (run_step c (ErrorStep h) s)"
proof -
  have "sup_inv c (emit (HeardError h) s)" using assms by (cases "st s") (simp_all add: emit_def inv_defs)
  then show "sup_inv c (run_step c (ErrorStep h) s)" by (simp add: handleError_def handleExit_inv)
qed (simp add: assms handleExit_inv)

text \<open>A supervisor whose helper is gone but which has not yet said so.\<close>

definition helper_down :: "config \<Rightarrow> sup \<Rightarrow> bool" where
  "helper_down c s \<longleftrightarrow> lockHeld s = holding (st s) \<and> foldl alive {} (calls s) = {} \<and>
     foldl risk {} (calls s) = {} \<and>
     snd (foldl epochs (None, Map.empty) (calls s)) = map_of (sessionEpochs s) \<and>
     foldl sessions 0 (calls s) \<le> spawned s \<and>
     snd (foldl before (None, None) (calls s)) \<noteq> Some (DidRefresh (Inr LeaseLost)) \<and>
     backoff_ok c (backoffMs s) \<and> history_ok (calls s)"

lemma helper_down_terminate:
  "helper_down c s \<Longrightarrow> sup_inv c (transition Terminated (if lockHeld s then releaseLock c s else s))"
  by (cases "st s") (simp_all add: helper_down_def handler_defs inv_defs Let_def)

lemma helper_down_end:
  "sup_inv c s \<Longrightarrow> helper s = Some h \<Longrightarrow> helper_down c ((emit (EndedChild h) s)\<lparr>helper := None\<rparr>)"
  "sup_inv c s \<Longrightarrow> helper s = Some h \<Longrightarrow> helper_down c (emit (SawExited h) s)"
  by (auto simp: helper_down_def emit_def inv_defs split: if_splits)

lemma awaitStopAck_inv:
  "sup_inv c s \<Longrightarrow> awaitStopAck c h s = (a, t) \<Longrightarrow> sup_inv c t \<and> helper t = helper s"
proof -
  have race: "sup_inv c (emit (AckRace h a) s)" if "sup_inv c s" for s a
    using that by (cases "st s") (simp_all add: emit_def inv_defs)
  have "sup_inv c (emit (Wrote h' (StopCommand v) l ok) s)" if "sup_inv c s" "helper s = Some h'" for h' v l ok
    using that by (cases "st s") (auto simp: emit_def inv_defs)
  note race this
  then show "sup_inv c s \<Longrightarrow> awaitStopAck c h s = (a, t) \<Longrightarrow> sup_inv c t \<and> helper t = helper s"
    by (auto simp: awaitStopAck_def writeCommand_def Let_def split: option.splits) (simp_all add: emit_def)
qed

lemma raiseFloor_helper [simp]: "helper (snd (raiseFloor c i h s)) = helper s"
  by (simp add: raiseFloor_def Let_def emit_def)

lemma shutdownHelper_inv:
  assumes "sup_inv c s" and "helper s = Some h" and "shutdownHelper c h s = (ok, t)"
  shows "if ok then helper_down c t else sup_inv c t"
proof -
  obtain a s1 where a: "awaitStopAck c h s = (a, s1)" by fastforce
  note s1 = awaitStopAck_inv [OF assms(1) a]
  have raised: "sup_inv c s2 \<and> helper s2 = Some h" if "raiseFloor c i h s1 = (b, s2)" for i b s2
    using s1 assms(2) raiseFloor_inv [of c s1 i h] raiseFloor_helper [of c i h s1] that by simp
  show ?thesis
    using assms s1 a
    by (auto simp: shutdownHelper_def Let_def split: if_splits ack.splits option.splits prod.splits
        dest!: raised intro: helper_down_end)
qed

lemma shutdown_inv: "sup_inv c s \<Longrightarrow> sup_inv c (shutdown c s)"
proof -
  assume inv: "sup_inv c s"
  let ?s = "s\<lparr>ticking := False\<rparr>"
  have inv': "sup_inv c ?s" using inv by simp
  have none: "helper_down c ?s" if "helper s = None" "st s \<noteq> Terminated"
    using inv' that by (cases "st s") (auto simp: helper_down_def inv_defs)
  have live: "if ok then helper_down c t else sup_inv c t"
    if "shutdownHelper c h ?s = (ok, t)" "helper s = Some h" for h ok t
    using shutdownHelper_inv [OF inv' _ that(1)] that(2) by simp
  have gone: "helper_down c (emit (SawExited h) ?s)" if "helper s = Some h" for h
    using helper_down_end(2) [OF inv'] that by simp
  show ?thesis
  proof (cases "st s = Terminated")
    case True
    then show ?thesis using inv by (simp add: shutdown_def)
  next
    case False
    show ?thesis
    proof (cases "helper s")
      case None
      then show ?thesis using helper_down_terminate [OF none] False by (simp add: shutdown_def Let_def)
    next
      case (Some h)
      obtain ok t where t: "shutdownHelper c h ?s = (ok, t)" by fastforce
      show ?thesis
        using helper_down_terminate [OF gone [OF Some]] helper_down_terminate [of c t] live [OF t Some] False
        by (auto simp: shutdown_def Let_def Some t split: if_splits)
    qed
  qed
qed

lemma other_step_inv: "sup_inv c s \<Longrightarrow> sup_inv c (emit OtherStep s)"
  by (cases "st s") (auto simp: emit_def inv_defs)

lemma run_step_inv: "sup_inv c s \<Longrightarrow> sup_inv c (run_step c x s)"
proof (cases x)
  case StartStep
  then show "sup_inv c s \<Longrightarrow> ?thesis"
    using other_step_inv [of c s] by (auto simp: Let_def intro!: spawnSession_inv)
next
  case (FrameStep m h)
  then show "sup_inv c s \<Longrightarrow> ?thesis" using frame_step_inv by blast
qed (auto simp del: run_step.simps(6,7) simp: shutdown_inv handleTick_inv handleFloorReset_inv other_step_inv heard_exit_inv)

section \<open>Every reachable supervisor\<close>

lemma new_inv: "sup_inv c (new_supervisor c)"
  by (simp add: sup_inv_def history_ok_def new_supervisor_def)

lemma port_step_inv: "sup_inv c (sys_sup p) \<Longrightarrow> sup_inv c (sys_sup (port_step c e p))"
  by (cases e) (auto simp: enqueue_def on_stdout_def run_step_inv simp del: run_step.simps
      split: prod.split list.split)

lemma port_reach_inv: "port_reach c p \<Longrightarrow> sup_inv c (sys_sup p)"
  by (induction rule: port_reach.induct) (simp_all add: new_port_def new_inv port_step_inv)

definition port_run :: "config \<Rightarrow> port_event list \<Rightarrow> sup" where
  "port_run c events = sys_sup (fold (port_step c) events (new_port c))"

lemma port_reach_fold: "port_reach c p \<Longrightarrow> port_reach c (fold (port_step c) events p)"
  by (induction events arbitrary: p) (auto intro: port_reach.event)

lemma port_run_inv: "sup_inv c (port_run c events)"
  unfolding port_run_def by (intro port_reach_inv port_reach_fold port_reach.new)

lemma port_run_history: "history_ok (calls (port_run c events))"
  using port_run_inv [of c events] by (simp add: sup_inv_def)

text \<open>C7. The lock is held exactly while the port is producing or stopping - after every step,
  and at every single transition in between - and a helper is up exactly in the five states
  that have one, a terminated port apart. This is so for every sequence of calls, timer ticks,
  frames, exits and errors, in any order, and for every behaviour of the lock and floor
  services, the spawner, the helper's input and the clock.\<close>

theorem lock_held_iff_producing:
  "(let s = port_run c events
    in lockHeld s = (st s = Producing \<or> st s = Stopping) \<and>
       list_all moved_ok (calls s) \<and>
       (if st s = Terminated then True else (helper s \<noteq> None) = active (st s)))"
  using port_run_inv [of c events]
  by (cases "st (port_run c events)") (auto simp: sup_inv_def history_ok_def Let_def)

text \<open>C6. The lock is never released while anything of ours could still be writing to the stream:
  at every release, each helper that was ever told to start has since reported itself stopped
  or lost, or is known to have exited.\<close>

theorem lock_released_only_when_down:
  "watched release_safe risk {} (calls (port_run c events))"
  using port_run_history by (simp add: history_ok_def)

text \<open>C9. The lock is only ever asked for in answer to a report of authenticated traffic by a live
  helper: the first authentication, or statistics with authenticated packets.\<close>

theorem lock_acquired_only_on_authenticated_traffic:
  "watched acquire_on_auth hear ({}, None) (calls (port_run c events))"
  using port_run_history by (simp add: history_ok_def)

text \<open>C8. One helper at a time: whenever one is spawned, every helper spawned before it is known to
  have exited, so that the port's socket has a single owner.\<close>

theorem one_helper_at_a_time:
  "watched spawn_alone alive {} (calls (port_run c events))"
  using port_run_history by (simp add: history_ok_def)

text \<open>A helper is started only on a floor that was read - the very floor of its init frame - and
  read after the epoch; and it is told to produce only right after the lock was granted.\<close>

theorem reads_before_spawn_and_lock_before_start:
  "watched in_order before (None, None) (calls (port_run c events))"
  using port_run_history by (simp add: history_ok_def)

text \<open>Every raise of the floor carries the epoch that was read for the session that reports
  the index, also when that session has been replaced since.\<close>

theorem floor_raises_fenced_by_session:
  "watched raise_fenced epochs (None, Map.empty) (calls (port_run c events))"
  using port_run_history by (simp add: history_ok_def)

text \<open>The restart backoff stays between the configured bounds, and a cooldown ends at most the
  upper bound after it was entered.\<close>

theorem backoff_bounded:
  assumes "0 \<le> restart_ms (c_timeouts c)" and "restart_ms (c_timeouts c) \<le> restart_max_ms (c_timeouts c)"
  shows "(let s = port_run c events; s' = enterCooldown c s
    in restart_ms (c_timeouts c) \<le> backoffMs s \<and> backoffMs s \<le> restart_max_ms (c_timeouts c) \<and>
       backoffMs s' = min (2 * backoffMs s) (restart_max_ms (c_timeouts c)) \<and>
       retryAtMs s' - now_of c s \<le> restart_max_ms (c_timeouts c))"
  using port_run_inv [of c events] assms
  by (auto simp: sup_inv_def backoff_ok_def Let_def enterCooldown_def transition_def emit_def)

section \<open>Stopping\<close>

lemma shutdown_terminates:
  assumes "\<And>h. raiseIndexFloor c h"
  shows "st (shutdown c s) = Terminated"
proof -
  have "fst (shutdownHelper c h t)" for h t
    using assms
    by (auto simp: shutdownHelper_def awaitStopAck_def raiseFloor_def Let_def split: ack.splits option.splits prod.splits)
  then show ?thesis
    by (auto simp: shutdown_def transition_def emit_def Let_def split: option.splits prod.splits)
      (metis fst_conv)+
qed

text \<open>C10. A stop ends with nothing held: whatever state the port is in and however the helper
  behaves, once its step has run the port is terminated, the lock is not held, and no helper is
  left alive. The one thing it relies on is that a raise of the floor does not throw.\<close>

theorem stop_leaves_nothing:
  assumes "\<And>h. raiseIndexFloor c h"
  shows "(let s = run_step c StopStep (port_run c events)
    in st s = Terminated \<and> \<not> lockHeld s \<and> foldl alive {} (calls s) = {} \<and> foldl risk {} (calls s) = {})"
proof -
  let ?s = "run_step c StopStep (port_run c events)"
  have "sup_inv c ?s" by (rule run_step_inv [OF port_run_inv])
  moreover have "st ?s = Terminated" using shutdown_terminates [OF assms] by simp
  ultimately show ?thesis by (simp add: sup_inv_def Let_def)
qed

text \<open>The effects that ask nothing of anyone.\<close>

fun inert :: "effect \<Rightarrow> bool" where
  "inert (HeardFrame h m) = True"
| "inert (HeardExit h) = True"
| "inert (HeardError h) = True"
| "inert (EndedChild h) = True"
| "inert OtherStep = True"
| "inert _ = False"

lemma emit_fields [simp]: "st (emit e s) = st s" "helper (emit e s) = helper s" "lockHeld (emit e s) = lockHeld s"
  "calls (emit e s) = calls s @ [e]"
  by (simp_all add: emit_def)

definition finished :: "history \<Rightarrow> sup \<Rightarrow> bool" where
  "finished hist s \<longleftrightarrow> st s = Terminated \<and> \<not> lockHeld s \<and> (\<exists>more. calls s = hist @ more \<and> list_all inert more)"

lemma finished_emit: "finished hist s \<Longrightarrow> inert e \<Longrightarrow> finished hist (emit e s)"
  by (auto simp: finished_def emit_def)

lemma finished_step: "finished hist s \<Longrightarrow> finished hist (run_step c x s)"
proof -
  assume fin: "finished hist s"
  then have t: "st s = Terminated" by (simp add: finished_def)
  have h: "finished hist (s'\<lparr>helper := None\<rparr>)" if "finished hist s'" for s' using that by (simp add: finished_def)
  show ?thesis
    using fin t
    by (cases x)
      (auto simp: shutdown_def handleTick_def handleFrame_def handleExit_def handleError_def handleFloorReset_def
        Let_def finished_emit intro!: h finished_emit split: option.splits)
qed

lemma finished_port:
  "finished hist (sys_sup p) \<Longrightarrow> finished hist (sys_sup (fold (port_step c) events p))"
proof (induction events arbitrary: p)
  case (Cons e events)
  have "finished hist (sys_sup (port_step c e p))"
    using Cons.prems
    by (cases e) (auto simp: enqueue_def on_stdout_def finished_step simp del: run_step.simps
        split: prod.split list.split, auto simp: finished_def)
  with Cons.IH show ?case by simp
qed simp

text \<open>Terminated is final: whatever is called, ticks or arrives after it, the port stays
  terminated, holds no lock, and asks nothing more of the services or of a helper but to be
  gone.\<close>

theorem terminated_is_final:
  assumes "st (port_run c events) = Terminated"
  shows "(let s = port_run c events; s' = port_run c (events @ later)
    in st s' = Terminated \<and> \<not> lockHeld s' \<and> (\<exists>more. calls s' = calls s @ more \<and> list_all inert more))"
proof -
  have "finished (calls (port_run c events)) (port_run c events)"
    using assms port_run_inv [of c events] by (simp add: finished_def sup_inv_def)
  then have "finished (calls (port_run c events)) (port_run c (events @ later))"
    unfolding port_run_def fold_append comp_apply by (rule finished_port)
  then show ?thesis by (simp add: finished_def Let_def)
qed


section \<open>Frames of a replaced session, and its output\<close>

text \<open>C11. A frame of a session that has been replaced cannot act; what it does is exactly this. On a port that is
  terminated or idle, nothing but being heard. Otherwise an index asks for one raise of the floor, to that index under
  the epoch of its own session, and leaves all else as it is; and a failed search that names a
  position leaves that position behind, filed under the
  floor base of the session that runs now and not of the one that reported it - so that every session started
  later on that base is told to search from there. Any other frame does nothing. The state, the
  lock, the helper, the timers and every other field stay as they are.\<close>

theorem late_frame_cannot_act:
  assumes "helper s \<noteq> Some h"
  shows "(let s' = run_step c (FrameStep m h) s; heard = s\<lparr>calls := calls s @ [HeardFrame h m]\<rparr> in
    if st s = Terminated \<or> st s = Idle then s' = heard
    else
      (case m of
         IndexFrame index \<Rightarrow>
           s' = heard\<lparr>calls := calls heard @
             [DidRaise h index (Option.bind (map_of (sessionEpochs s) h) id) (raiseIndexFloor c (calls heard))]\<rparr>
       | AuthFail candidate inputs drops (Some x) \<Rightarrow>
           s' = heard\<lparr>searchFromCarry := Some \<lparr>ca_base = sessionFloorBase s, ca_search_from = x\<rparr>\<rparr> \<and>
           (\<forall>floor. if floor_base floor = sessionFloorBase s
              then hi_search_from (session_init c floor (searchFromCarry s')) = Some x else True)
       | _ \<Rightarrow> s' = heard))"
  using assms
  by (cases m) (auto simp: handleFrame_def handleLateFrame_def raiseFloor_def emit_def session_init_def carried_search_def
      Let_def split: option.split)

text \<open>The listener of every session feeds the supervisor's one protocol object, so a last
  fragment of a replaced helper, arriving after its successor was spawned, becomes the start of
  the successor's first line: what is queued as that session's frame is the parse of the two
  joined, and the frame itself is lost.\<close>

theorem late_output_joins_next_frame:
  assumes "protocol_of (sys_sup p) = new_protocol" and "newline \<notin> set fragment" and "newline \<notin> set line"
    and "length (fragment @ line) \<le> max_line_bytes" and "js_trim (fragment @ line) \<noteq> []"
  shows "sys_queue (port_step c (StdoutData h' (line @ [newline])) (port_step c (StdoutData h fragment) p)) =
    sys_queue p @ [FrameStep (parseMessage (js_trim (fragment @ line))) h']"
proof -
  have whole: "newline \<notin> set (fragment @ line)" using assms(2,3) by simp
  have "push fragment new_protocol = ([], \<lparr>pr_buffer = fragment, pr_overlong = False\<rparr>)"
  proof -
    have "dropWhile (\<lambda>c. c \<noteq> newline) fragment = []" using no_line [of fragment] assms(2) by (rule iffD2)
    then have "push_lines False fragment = ([], False, fragment)"
      by (subst push_lines.simps) (simp only: list.case)
    then show ?thesis using assms(4) by (simp add: push_def new_protocol_def)
  qed
  moreover have "push (line @ [newline]) \<lparr>pr_buffer = fragment, pr_overlong = False\<rparr> =
      ([parseMessage (js_trim (fragment @ line))], new_protocol)"
  proof -
    have "dropWhile (\<lambda>c. c \<noteq> newline) ((fragment @ line) @ [newline]) = [newline]"
      "takeWhile (\<lambda>c. c \<noteq> newline) ((fragment @ line) @ [newline]) = fragment @ line"
      using whole by (subst dropWhile_append2 takeWhile_append2; auto)+
    moreover have "push_lines False [] = ([], False, [])" by (subst push_lines.simps) simp
    ultimately have "push_lines False ((fragment @ line) @ [newline]) = ([parseMessage (js_trim (fragment @ line))], False, [])"
      using assms(4,5) by (subst push_lines.simps) (simp add: Let_def)
    then show ?thesis by (simp add: push_def new_protocol_def)
  qed
  ultimately show ?thesis using assms(1) by (simp add: on_stdout_def enqueue_def)
qed

section \<open>Coming back\<close>

lemma handleFloorReset_None: "helper s = None \<Longrightarrow> handleFloorReset c s = (False, s)"
  by (simp add: handleFloorReset_def)

text \<open>A port in cooldown comes back: on the first tick after its time, if the epoch and the
  floor can be read and the helper spawned, it has a new helper that was sent its init frame -
  with the floor just read - and waits for it to be ready.\<close>

theorem cooldown_restarts:
  assumes "st (port_run c events) = Cooldown"
    and "dateNow c (calls (port_run c events) @ [OtherStep]) \<ge> retryAtMs (port_run c events)"
    and "\<And>hist. getFloorEpoch c hist = Inr epoch" and "\<And>hist. getIndexFloor c hist = Inr floor"
    and "\<And>init hist. spawnHelper c init hist = Inr ()"
  shows "(let s = port_run c events; s' = run_step c TickStep s
    in st s' = Starting \<and> helper s' = Some (spawned s) \<and> lastFrameAtMs s' = startedAtMs s' \<and>
       protocol_of s' = new_protocol \<and>
       (\<exists>line ok. Wrote (spawned s) (InitCommand (session_init c floor (searchFromCarry s))) line ok \<in> set (calls s')))"
proof -
  let ?s = "port_run c events"
  have "helper ?s = None" using port_run_inv [of c events] assms(1) by (auto simp: sup_inv_def)
  then have "run_step c TickStep ?s = spawnSession c (emit OtherStep ?s)"
    using assms(1,2) by (simp add: handleTick_def handleFloorReset_None Let_def now_of_def emit_def)
  then show ?thesis
    using assms(1,3-5)
    by (simp add: spawnSession_def adopt_session_def handler_defs Let_def) blast
qed

section \<open>Examples\<close>

definition sample_key :: port_key where
  "sample_key = \<lparr>pk_key_hex = js ''00'', pk_ssrc = 7, pk_cipher = supported_srtp_cipher,
     pk_auth = supported_srtp_auth, pk_fingerprint = js ''k'', pk_generation = 2000000001\<rparr>"

text \<open>Surroundings in which every call succeeds and time passes by a second with every call.\<close>

definition sample_config :: config where
  "sample_config = \<lparr>c_key = sample_key, c_timeouts = default_timeouts,
     dateNow = (\<lambda>hist. 1000 * int (length hist)), tryAcquire = (\<lambda>hist. Inr True),
     releaseLockCall = (\<lambda>hist. Inr ()), updatePacketTime = (\<lambda>hist. Inr LeaseOk),
     getFloorEpoch = (\<lambda>hist. Inr None), getIndexFloor = (\<lambda>hist. Inr (Some 4295032831)),
     raiseIndexFloor = (\<lambda>hist. True), spawnHelper = (\<lambda>init hist. Inr ()), stdinWrite = (\<lambda>hist. True),
     ackRace = (\<lambda>hist. Acked (Some 4295032900)), childExited = (\<lambda>h hist. False)\<rparr>"

lemma backoff_bounded_witness:
  "(let s = port_run sample_config [CallStart, RunNext, ProcessExit 0, RunNext]
    in 1000 \<le> backoffMs s \<and> backoffMs s \<le> 60000)"
  using backoff_bounded [of sample_config "[CallStart, RunNext, ProcessExit 0, RunNext]"]
  by (simp add: sample_config_def default_timeouts_def Let_def)

lemma stop_leaves_nothing_witness:
  "\<not> lockHeld (run_step sample_config StopStep (port_run sample_config [CallStart, RunNext]))"
  using stop_leaves_nothing [of sample_config "[CallStart, RunNext]"]
  by (simp add: sample_config_def Let_def)

lemma terminated_is_final_witness:
  "st (port_run sample_config ([CallStop, RunNext] @ [CallStart, RunNext, TimerTick, RunNext])) = Terminated"
proof -
  have "st (port_run sample_config [CallStop, RunNext]) = Terminated"
    by (simp add: port_run_def new_port_def new_supervisor_def enqueue_def shutdown_def transition_def Let_def)
  from terminated_is_final [OF this] show ?thesis by (simp add: Let_def)
qed

lemma late_frame_cannot_act_witness:
  "(let s = (new_supervisor sample_config)\<lparr>st := Searching, helper := Some 1, sessionFloorBase := 7\<rparr>;
        s' = run_step sample_config (FrameStep (AuthFail 3 None None (Some 9)) 0) s
    in st s' = Searching \<and> searchFromCarry s' = Some \<lparr>ca_base = 7, ca_search_from = 9\<rparr>)"
  using late_frame_cannot_act [of "(new_supervisor sample_config)\<lparr>st := Searching, helper := Some 1, sessionFloorBase := 7\<rparr>" 0
      sample_config "AuthFail 3 None None (Some 9)"]
  by (simp add: Let_def)

lemma late_output_joins_next_frame_witness:
  "sys_queue (port_step sample_config (StdoutData 1 (js ''{\"t\":\"eos\"}'' @ [newline]))
     (port_step sample_config (StdoutData 0 (js ''{\"t\"'')) (new_port sample_config))) =
   [FrameStep (parseMessage (js_trim (js ''{\"t\"{\"t\":\"eos\"}''))) 1]"
  using late_output_joins_next_frame [of "new_port sample_config" "js ''{\"t\"''" "js ''{\"t\":\"eos\"}''" sample_config 1 0]
  by (simp add: new_port_def new_supervisor_def newline_def js_Cons max_line_bytes_def js_trim_def js_space_def)

lemma sample_cooldown:
  "st (port_run sample_config [CallStart, RunNext, ProcessExit 0, RunNext]) = Cooldown"
  "retryAtMs (port_run sample_config [CallStart, RunNext, ProcessExit 0, RunNext]) = 8000"
  "length (calls (port_run sample_config [CallStart, RunNext, ProcessExit 0, RunNext])) = 8"
  by (simp_all add: port_run_def new_port_def new_supervisor_def enqueue_def spawnSession_def
      adopt_session_def handleExit_def handler_defs sample_config_def default_timeouts_def Let_def)

lemma cooldown_restarts_witness:
  "st (run_step sample_config TickStep (port_run sample_config [CallStart, RunNext, ProcessExit 0, RunNext])) = Starting"
proof -
  have "dateNow sample_config (calls (port_run sample_config [CallStart, RunNext, ProcessExit 0, RunNext]) @ [OtherStep])
      \<ge> retryAtMs (port_run sample_config [CallStart, RunNext, ProcessExit 0, RunNext])"
    by (simp add: sample_cooldown) (simp add: sample_config_def sample_cooldown [unfolded sample_config_def])
  from cooldown_restarts [OF sample_cooldown(1) this, of None "Some 4295032831"] show ?thesis
    by (simp add: sample_config_def Let_def)
qed

end
