(* ===== verification/Transport.thy ===== *)
theory Transport
imports Supervisor StreamMetadata
begin

text \<open>
  The SRTP transport around the ports' supervisors (\<open>backend/src/SrtpTransport.ts\<close>): its
  configuration from the environment, the credentials its helpers are spawned with, its start,
  what it makes of the supervisors' transitions and statistics, the floor reset, and its stop.

  The supervisors appear here by what the transport sees of them: the port, the current state,
  and the transitions they report. The calls on the metrics are recorded in order in
  \<open>tp_metrics\<close>.
\<close>

section \<open>Configuration\<close>

record transport_env =
  SRTP_KEY_PARAMETER_PREFIX :: "js_string option"
  SRTP_PORT_RANGE_START :: "js_string option"
  SRTP_PORT_RANGE_END :: "js_string option"

record port_range =
  pr_start :: int
  pr_end :: int

record transport_settings =
  ts_prefix :: js_string
  ts_range :: port_range

definition unencrypted_port_range :: port_range where
  "unencrypted_port_range = \<lparr>pr_start = 5000, pr_end = 5009\<rparr>"

text \<open>\<open>Number(value ?? fallback)\<close>.\<close>

definition number_or :: "js_string option \<Rightarrow> int \<Rightarrow> jsnum" where
  "number_or value fallback = (case value of None \<Rightarrow> JInt fallback | Some s \<Rightarrow> number_of s)"

definition srtpTransportConfigFromEnv :: "transport_env \<Rightarrow> transport_settings option outcome" where
  "srtpTransportConfigFromEnv env =
     (case map_option js_trim (SRTP_KEY_PARAMETER_PREFIX env) of
        None \<Rightarrow> Inr None
      | Some keyParameterPrefix \<Rightarrow>
          (if keyParameterPrefix = [] then Inr None
           else
             (case (number_or (SRTP_PORT_RANGE_START env) 6000, number_or (SRTP_PORT_RANGE_END env) 6009) of
                (JInt lo, JInt hi) \<Rightarrow>
                  (if lo > hi then Inl (js ''invalid SRTP port range'')
                   else if lo < 1 \<or> hi > 65535
                   then Inl (js ''invalid SRTP port range: both ports must be within 1-65535'')
                   else if lo \<le> pr_end unencrypted_port_range \<and> hi \<ge> pr_start unencrypted_port_range
                   then Inl (js ''the SRTP port range overlaps the unencrypted ports'')
                   else Inr (Some \<lparr>ts_prefix = keyParameterPrefix,
                               ts_range = \<lparr>pr_start = lo, pr_end = hi\<rparr>\<rparr>))
              | _ \<Rightarrow> Inl (js ''invalid SRTP port range''))))"

section \<open>Credentials\<close>

record credentials =
  cr_access_key_id :: js_string
  cr_secret_access_key :: js_string
  cr_session_token :: "js_string option"
  cr_expiration :: "int option"

definition max_credential_attempts :: nat where
  "max_credential_attempts = 3"

text \<open>The loop over the attempts that are left; the wait between two is not seen here.\<close>

fun resolve_attempts :: "('w \<Rightarrow> credentials outcome \<times> 'w) \<Rightarrow> nat \<Rightarrow> 'w \<Rightarrow> credentials option \<times> 'w" where
  "resolve_attempts provider 0 w = (None, w)"
| "resolve_attempts provider (Suc n) w =
     (case provider w of
        (Inr c, w') \<Rightarrow> (Some c, w')
      | (Inl e, w') \<Rightarrow> resolve_attempts provider n w')"

definition resolveHelperCredentials :: "('w \<Rightarrow> credentials outcome \<times> 'w) \<Rightarrow> 'w \<Rightarrow> credentials option \<times> 'w" where
  "resolveHelperCredentials provider w = resolve_attempts provider max_credential_attempts w"

text \<open>The cached value with the time it expires; None is never.\<close>

record cached_credentials =
  cc_value :: credentials
  cc_expires_at_ms :: "int option"

definition refresh_margin_ms :: int where
  "refresh_margin_ms = 5 * 60000"

definition HelperCredentials_get ::
  "('w \<Rightarrow> credentials outcome \<times> 'w) \<Rightarrow> int \<Rightarrow> cached_credentials option \<Rightarrow> 'w \<Rightarrow>
    credentials option \<times> cached_credentials option \<times> 'w"
where
  "HelperCredentials_get provider now cached w =
     (let fresh = (case cached of
                     None \<Rightarrow> False
                   | Some c \<Rightarrow> (case cc_expires_at_ms c of
                                 None \<Rightarrow> True
                               | Some t \<Rightarrow> t > now + refresh_margin_ms))
      in if fresh then (map_option cc_value cached, cached, w)
         else
           (case resolveHelperCredentials provider w of
              (None, w') \<Rightarrow> (None, cached, w')
            | (Some c, w') \<Rightarrow>
                (let entry = \<lparr>cc_value = c\<lparr>cr_expiration := None\<rparr>, cc_expires_at_ms = cr_expiration c\<rparr>
                 in (Some (cc_value entry), Some entry, w'))))"

section \<open>The transport\<close>

datatype metric_call = SetServing bool | RecordReceived int

record transport =
  tp_states :: "(int, sup_state) js_map"
  tp_keys :: "(int, port_key) js_map"
  tp_ever_ready :: "int list"
  tp_started :: bool
  tp_last_bytes :: "(int, int) js_map"
  tp_metrics :: "metric_call list"

definition new_transport :: transport where
  "new_transport = \<lparr>tp_states = [], tp_keys = [], tp_ever_ready = [], tp_started = False,
     tp_last_bytes = [], tp_metrics = []\<rparr>"

definition setServing :: "bool \<Rightarrow> transport \<Rightarrow> transport" where
  "setServing b t = t\<lparr>tp_metrics := tp_metrics t @ [SetServing b]\<rparr>"

definition should_serve :: "transport \<Rightarrow> bool" where
  "should_serve t \<longleftrightarrow>
     tp_ever_ready t \<noteq> [] \<and> \<not> list_all (\<lambda>(port, state). state = Disabled) (tp_states t)"

definition recomputeServing :: "transport \<Rightarrow> transport" where
  "recomputeServing t = (if tp_states t = [] then t else setServing (should_serve t) t)"

text \<open>A transition of a port's supervisor, whose state is the new one when the hook runs.\<close>

definition onSupervisorTransition :: "int \<Rightarrow> sup_state \<Rightarrow> transport \<Rightarrow> transport" where
  "onSupervisorTransition port to t =
     recomputeServing
       (if to = Searching then t\<lparr>tp_ever_ready := List.insert port (tp_ever_ready t)\<rparr> else t)"

definition onTransition :: "int \<Rightarrow> sup_state \<Rightarrow> transport \<Rightarrow> transport" where
  "onTransition port to t =
     (let t1 = t\<lparr>tp_states := (if js_has (tp_states t) port
                              then AList.update port to (tp_states t) else tp_states t)\<rparr>;
          t2 = (if to = Starting then t1\<lparr>tp_last_bytes := AList.delete port (tp_last_bytes t1)\<rparr> else t1)
      in onSupervisorTransition port to t2)"

definition onStats :: "int \<Rightarrow> int \<Rightarrow> transport \<Rightarrow> transport" where
  "onStats port inputBytes t =
     (let previous = nullish (map_of (tp_last_bytes t) port) 0;
          delta = (if inputBytes \<ge> previous then inputBytes - previous else inputBytes);
          t1 = t\<lparr>tp_last_bytes := AList.update port inputBytes (tp_last_bytes t)\<rparr>
      in if delta > 0 then t1\<lparr>tp_metrics := tp_metrics t1 @ [RecordReceived delta]\<rparr> else t1)"

text \<open>Stopping: what a supervisor that had not terminated reports while it stops is its last
  transition; then the list and the keys are dropped.\<close>

definition stop_ports :: "transport \<Rightarrow> transport" where
  "stop_ports t =
     fold (\<lambda>port. onTransition port Terminated)
       (map fst (List.filter (\<lambda>(port, state). state \<noteq> Terminated) (tp_states t))) t"

definition transport_stop :: "transport \<Rightarrow> transport" where
  "transport_stop t = (stop_ports (setServing False t))\<lparr>tp_states := [], tp_keys := []\<rparr>"

definition ports_of :: "port_range \<Rightarrow> int list" where
  "ports_of r = map (\<lambda>i. pr_start r + int i) [0..<nat (pr_end r - pr_start r + 1)]"

definition transport_start ::
  "(js_string \<Rightarrow> js_string) \<Rightarrow> ('w \<Rightarrow> credentials outcome \<times> 'w) \<Rightarrow>
    (js_string list \<Rightarrow> 'w \<Rightarrow> ssm_parameter list outcome \<times> 'w) \<Rightarrow> transport_settings \<Rightarrow> int \<Rightarrow>
    transport \<Rightarrow> 'w \<Rightarrow> bool \<times> transport \<times> 'w"
where
  "transport_start sha256_hex provider ssm settings now t0 w =
     (if tp_started t0 then (True, t0, w)
      else
        (let t = t0\<lparr>tp_started := True\<rparr> in
         case HelperCredentials_get provider now None w of
           (None, cached, w1) \<Rightarrow> (False, t, w1)
         | (Some c, cached, w1) \<Rightarrow>
             (case loadPorts sha256_hex ssm (ts_prefix settings) (ports_of (ts_range settings)) [] w1 of
                (Inl e, keysByPort, w2) \<Rightarrow> (False, transport_stop t, w2)
              | (Inr _, keysByPort, w2) \<Rightarrow>
                  (if keyedPorts keysByPort = [] then (False, t, w2)
                   else
                     (let keys = fold (\<lambda>port ks. case getKeyForPort keysByPort port of
                                         None \<Rightarrow> ks | Some k \<Rightarrow> AList.update port k ks)
                                   (keyedPorts keysByPort) (tp_keys t);
                          t1 = t\<lparr>tp_keys := keys,
                                 tp_states := map (\<lambda>port. (port, Idle)) (keyedPorts keysByPort)\<rparr>
                      in (True, recomputeServing t1, w2))))))"

definition keyForPort :: "transport \<Rightarrow> int \<Rightarrow> port_key option" where
  "keyForPort t port = map_of (tp_keys t) port"

text \<open>\<open>resetFloor\<close>: the outcome, and the port whose supervisor is told to check at once.\<close>

definition resetFloor ::
  "(request \<Rightarrow> 'db \<Rightarrow> response \<times> 'db) \<Rightarrow> transport \<Rightarrow> int \<Rightarrow> int \<Rightarrow> int \<Rightarrow> int \<Rightarrow> 'db \<Rightarrow>
    reset_result outcome \<times> int option \<times> 'db"
where
  "resetFloor send t port requestedAtMs floor now db =
     (case keyForPort t port of
        None \<Rightarrow> (Inr ResetStale, None, db)
      | Some k \<Rightarrow>
          (case resetSrtpIndexFloor send port
                  \<lparr>fr_requested_at = requestedAtMs, fr_floor = floor, fr_ssrc = pk_ssrc k,
                   fr_fingerprint = pk_fingerprint k, fr_generation = pk_generation k\<rparr> now db of
             (r, db') \<Rightarrow>
               (r, if r = Inr ResetDone \<and> js_has (tp_states t) port then Some port else None, db')))"

section \<open>Spawning\<close>

record process_env =
  KVS_LOG_CONFIG_PATH :: "js_string option"
  GST_PLUGIN_PATH :: "js_string option"
  LD_LIBRARY_PATH :: "js_string option"

text \<open>The argument vector and the environment of a helper process; the init frame and the key
  are arguments of the function and not of the process.\<close>

definition spawnHelperProcess ::
  "int \<Rightarrow> helper_init \<Rightarrow> port_key \<Rightarrow> js_string \<Rightarrow> js_string \<Rightarrow> js_string \<Rightarrow> process_env \<Rightarrow> credentials \<Rightarrow>
    js_string list \<times> (js_string \<times> js_string) list"
where
  "spawnHelperProcess port init key helperPath streamName region env c =
     ([js ''python3'', helperPath, js ''--port'', int_string port, js ''--stream-name'', streamName,
       js ''--aws-region'', region, js ''--kvs-log-config'',
       nullish (KVS_LOG_CONFIG_PATH env) (js ''/opt/video-streaming/kvs_log_configuration'')],
      [(js ''AWS_ACCESS_KEY_ID'', cr_access_key_id c),
       (js ''AWS_SECRET_ACCESS_KEY'', cr_secret_access_key c)] @
      (case cr_session_token c of None \<Rightarrow> [] | Some s \<Rightarrow> [(js ''AWS_SESSION_TOKEN'', s)]) @
      [(js ''AWS_REGION'', region)] @
      (case GST_PLUGIN_PATH env of None \<Rightarrow> [] | Some s \<Rightarrow> [(js ''GST_PLUGIN_PATH'', s)]) @
      (case LD_LIBRARY_PATH env of None \<Rightarrow> [] | Some s \<Rightarrow> [(js ''LD_LIBRARY_PATH'', s)]) @
      [(js ''GST_DEBUG'', js ''2'')])"

text \<open>The spawner the transport gives a supervisor: credentials first, then the process.\<close>

definition transport_spawn ::
  "('w \<Rightarrow> credentials outcome \<times> 'w) \<Rightarrow> (credentials \<Rightarrow> 'w \<Rightarrow> unit outcome \<times> 'w) \<Rightarrow> int \<Rightarrow>
    cached_credentials option \<Rightarrow> 'w \<Rightarrow> unit outcome \<times> cached_credentials option \<times> 'w"
where
  "transport_spawn provider spawnProcess now cached w =
     (case HelperCredentials_get provider now cached w of
        (None, cached', w1) \<Rightarrow> (Inl (js ''no AWS credentials for the SRTP helper''), cached', w1)
      | (Some c, cached', w1) \<Rightarrow>
          (case spawnProcess c w1 of (r, w2) \<Rightarrow> (r, cached', w2)))"

section \<open>Properties\<close>

text \<open>A configuration that is accepted can be served: the prefix is not blank, both ports are
  UDP ports in order, and the range is disjoint from the unencrypted ports. Without a prefix
  the transport is off, whatever else is set.\<close>

theorem transport_config_valid:
  "(case srtpTransportConfigFromEnv env of
      Inl e \<Rightarrow> True
    | Inr None \<Rightarrow> js_trim (nullish (SRTP_KEY_PARAMETER_PREFIX env) []) = []
    | Inr (Some c) \<Rightarrow>
        ts_prefix c \<noteq> [] \<and> 1 \<le> pr_start (ts_range c) \<and> pr_start (ts_range c) \<le> pr_end (ts_range c) \<and>
        pr_end (ts_range c) \<le> 65535 \<and> set (ports_of (ts_range c)) \<inter> {5000..5009} = {})"
  by (auto simp: srtpTransportConfigFromEnv_def js_trim_def unencrypted_port_range_def ports_of_def
      split: option.splits jsnum.splits if_splits)

section \<open>Received bytes\<close>

text \<open>What one port's supervisor reports: that a helper was spawned, or its cumulative count.\<close>

datatype bytes_event = SpawnedHelper | Sampled int

fun bytes_step :: "int \<Rightarrow> bytes_event \<Rightarrow> transport \<Rightarrow> transport" where
  "bytes_step port SpawnedHelper t = onTransition port Starting t"
| "bytes_step port (Sampled b) t = onStats port b t"

fun received :: "metric_call list \<Rightarrow> int" where
  "received [] = 0"
| "received (RecordReceived n # ms) = n + received ms"
| "received (SetServing b # ms) = received ms"

lemma received_append [simp]: "received (xs @ ys) = received xs + received ys"
  by (induction xs rule: received.induct) auto

text \<open>A helper's counter only rises; and the sum of the counters the helpers end with.\<close>

fun rising :: "int \<Rightarrow> bytes_event list \<Rightarrow> bool" where
  "rising c [] = True"
| "rising c (SpawnedHelper # es) = rising 0 es"
| "rising c (Sampled b # es) = (c \<le> b \<and> rising b es)"

fun final_counts :: "int \<Rightarrow> bytes_event list \<Rightarrow> int" where
  "final_counts c [] = c"
| "final_counts c (SpawnedHelper # es) = c + final_counts 0 es"
| "final_counts c (Sampled b # es) = final_counts b es"

lemma onTransition_received: "received (tp_metrics (onTransition p s t)) = received (tp_metrics t)"
  by (simp add: onTransition_def onSupervisorTransition_def recomputeServing_def setServing_def Let_def)

lemma onTransition_bytes:
  "map_of (tp_last_bytes (onTransition p Starting t)) p = None"
  by (simp add: onTransition_def onSupervisorTransition_def recomputeServing_def setServing_def Let_def)

lemma bytes_conserved:
  "rising c es \<Longrightarrow> nullish (map_of (tp_last_bytes t) port) 0 = c \<Longrightarrow>
    received (tp_metrics (fold (bytes_step port) es t)) + c = received (tp_metrics t) + final_counts c es"
proof (induction c es arbitrary: t rule: rising.induct)
  case (2 c es)
  from 2(1) [of "onTransition port Starting t"] 2(2) show ?case
    by (simp add: onTransition_received onTransition_bytes)
next
  case (3 c b es)
  have "nullish (map_of (tp_last_bytes (onStats port b t)) port) 0 = b"
    "received (tp_metrics (onStats port b t)) = received (tp_metrics t) + (b - c)"
    using 3(2,3) by (auto simp: onStats_def Let_def)
  with 3(1) [of "onStats port b t"] 3(2) show ?case by simp
qed simp

text \<open>No byte is lost or counted twice across restarts: over any sequence of spawns and
  statistics of a port, starting from a new supervisor, what is recorded as received is the sum
  of the counts its helpers ended with.\<close>

theorem received_bytes_conserved:
  assumes "rising 0 es" and "map_of (tp_last_bytes t) port = None"
  shows "received (tp_metrics (fold (bytes_step port) es t)) = received (tp_metrics t) + final_counts 0 es"
  using bytes_conserved [OF assms(1), of t port] assms(2) by simp

lemma received_bytes_conserved_witness:
  "received (tp_metrics (fold (bytes_step 6000)
     [SpawnedHelper, Sampled 100, Sampled 250, SpawnedHelper, Sampled 400] new_transport)) = 650"
  using received_bytes_conserved [of "[SpawnedHelper, Sampled 100, Sampled 250, SpawnedHelper, Sampled 400]"
      new_transport 6000]
  by (simp add: new_transport_def)

section \<open>The serving metric\<close>

text \<open>The value last published.\<close>

fun serving :: "bool option \<Rightarrow> metric_call list \<Rightarrow> bool option" where
  "serving b [] = b"
| "serving b (SetServing x # ms) = serving (Some x) ms"
| "serving b (RecordReceived n # ms) = serving b ms"

lemma serving_append [simp]: "serving b (xs @ ys) = serving (serving b xs) ys"
  by (induction b xs rule: serving.induct) auto

lemma onTransition_serving:
  "js_has (tp_states t) p \<Longrightarrow> serving b (tp_metrics (onTransition p s t)) = Some (should_serve (onTransition p s t))"
  by (auto simp: onTransition_def onSupervisorTransition_def recomputeServing_def setServing_def Let_def
      should_serve_def js_has_def)

lemma onTransition_keeps:
  "js_has (tp_states (onTransition p s t)) q = js_has (tp_states t) q"
  "set (tp_ever_ready t) \<subseteq> set (tp_ever_ready (onTransition p s t))"
  "js_has (tp_states t) p \<Longrightarrow> map_of (tp_states (onTransition p s t)) p = Some s"
  by (auto simp: onTransition_def onSupervisorTransition_def recomputeServing_def setServing_def Let_def)

lemma stop_ports_serving:
  "ps \<noteq> [] \<Longrightarrow> list_all (js_has (tp_states t)) ps \<Longrightarrow> tp_ever_ready t \<noteq> [] \<Longrightarrow>
    serving b (tp_metrics (fold (\<lambda>p. onTransition p Terminated) ps t)) = Some True"
proof (induction ps arbitrary: t)
  case (Cons p ps)
  let ?t = "onTransition p Terminated t"
  have ready: "tp_ever_ready ?t \<noteq> []" using onTransition_keeps(2) [of t p Terminated] Cons.prems(3) by auto
  show ?case
  proof (cases "ps = []")
    case True
    have "map_of (tp_states ?t) p = Some Terminated" using Cons.prems(2) onTransition_keeps(3) by simp
    then have "(p, Terminated) \<in> set (tp_states ?t)" by (rule map_of_SomeD)
    then have "should_serve ?t" using ready by (auto simp: should_serve_def list_all_iff)
    then show ?thesis using True Cons.prems(2) onTransition_serving [of t p b Terminated] by simp
  next
    case False
    have "list_all (js_has (tp_states ?t)) ps" using Cons.prems(2) by (simp add: onTransition_keeps(1) cong: list_all_cong)
    with Cons.IH [OF False _ ready] show ?thesis by simp
  qed
qed simp

text \<open>A stop does not leave the transport reported as not serving: it publishes false first, but
  each supervisor then reports its last transition, which publishes the value anew; so when any
  helper was ever ready and any port had not given up before, the value left behind is true.\<close>

theorem stop_leaves_serving_reported:
  assumes "tp_ever_ready t \<noteq> []" and "List.filter (\<lambda>(port, state). state \<noteq> Terminated) (tp_states t) \<noteq> []"
  shows "serving b (tp_metrics (transport_stop t)) = Some True"
proof -
  let ?ps = "map fst (List.filter (\<lambda>(port, state). state \<noteq> Terminated) (tp_states t))"
  have "list_all (js_has (tp_states (setServing False t))) ?ps"
    by (auto simp: list_all_iff js_has_iff js_keys_def setServing_def intro: rev_image_eqI)
  from stop_ports_serving [OF _ this, of b] assms show ?thesis
    by (auto simp: transport_stop_def stop_ports_def setServing_def)
qed

lemma stop_leaves_serving_reported_witness:
  "serving None (tp_metrics (transport_stop
     (onTransition 6000 Searching (new_transport\<lparr>tp_states := [(6000, Starting)]\<rparr>)))) = Some True"
  by (rule stop_leaves_serving_reported)
    (simp_all add: onTransition_def onSupervisorTransition_def recomputeServing_def setServing_def
      new_transport_def js_has_def Let_def)

section \<open>Credentials\<close>

lemma resolve_attempts_from:
  "resolve_attempts provider n w = (Some c, w') \<Longrightarrow> \<exists>w1. provider w1 = (Inr c, w')"
  by (induction provider n w rule: resolve_attempts.induct) (auto split: prod.splits sum.splits)

text \<open>A helper is never spawned with credentials about to expire while they could be refreshed:
  what the cache answers is either valid for more than five minutes, or was resolved just now;
  and a failed resolution leaves the cache as it was.\<close>

theorem helper_credentials_fresh:
  assumes "HelperCredentials_get provider now cached w = (r, cached', w')"
  shows "(case r of
      None \<Rightarrow> cached' = cached
    | Some v \<Rightarrow>
        (case cached' of
           None \<Rightarrow> False
         | Some entry \<Rightarrow>
             cc_value entry = v \<and>
             (cached = cached' \<and> w' = w \<and>
                (case cc_expires_at_ms entry of None \<Rightarrow> True | Some t \<Rightarrow> refresh_margin_ms < t - now) \<or>
              (\<exists>w1. provider w1 = (Inr (v\<lparr>cr_expiration := cc_expires_at_ms entry\<rparr>), w')))))"
proof (cases "\<exists>c. cached = Some c \<and> (case cc_expires_at_ms c of None \<Rightarrow> True | Some t \<Rightarrow> now + refresh_margin_ms < t)")
  case True
  then show ?thesis
    using assms by (auto simp: HelperCredentials_get_def Let_def split: option.splits)
next
  case False
  obtain c w1 where c: "resolveHelperCredentials provider w = (c, w1)" by fastforce
  have same: "x\<lparr>cr_expiration := cr_expiration x\<rparr> = x" for x :: credentials by simp
  show ?thesis
  proof (cases c)
    case None
    then show ?thesis
      using False assms c by (auto simp: HelperCredentials_get_def Let_def split: option.splits if_splits)
  next
    case (Some x)
    with c obtain w0 where "provider w0 = (Inr x, w1)"
      unfolding resolveHelperCredentials_def by (auto dest: resolve_attempts_from)
    moreover have "r = Some (x\<lparr>cr_expiration := None\<rparr>)" "w' = w1"
      "cached' = Some \<lparr>cc_value = x\<lparr>cr_expiration := None\<rparr>, cc_expires_at_ms = cr_expiration x\<rparr>"
      using False assms c Some by (auto simp: HelperCredentials_get_def Let_def split: option.splits if_splits)
    ultimately show ?thesis using same [of x] by (simp only: option.case cached_credentials.simps) auto
  qed
qed

definition sample_provider :: "unit \<Rightarrow> credentials outcome \<times> unit" where
  "sample_provider w = (Inr \<lparr>cr_access_key_id = js ''a'', cr_secret_access_key = js ''s'',
     cr_session_token = None, cr_expiration = Some 900000\<rparr>, w)"

lemma helper_credentials_fresh_witness:
  "(case fst (snd (HelperCredentials_get sample_provider 0 None ())) of None \<Rightarrow> False | Some entry \<Rightarrow> True)"
proof -
  obtain r c w where eq: "HelperCredentials_get sample_provider 0 None () = (r, c, w)" by (rule prod_cases3)
  have "r \<noteq> None"
    using eq by (auto simp: HelperCredentials_get_def resolveHelperCredentials_def sample_provider_def
        max_credential_attempts_def numeral_3_eq_3 Let_def)
  then show ?thesis using helper_credentials_fresh [OF eq] by (auto simp: eq split: option.splits)
qed

text \<open>Neither the key nor the init frame can reach the argument vector or the environment.\<close>

lemma spawn_independent_of_key:
  "spawnHelperProcess port init key helperPath stream region env c =
   spawnHelperProcess port init' key' helperPath stream region env c"
  by (simp add: spawnHelperProcess_def)

end
