(* ===== verification/FloorReset.thy ===== *)
theory FloorReset
imports Transport
begin

text \<open>
  The floor reset API (\<open>backend/src/SrtpFloorResetServer.ts\<close>) and its client
  (\<open>scripts/reset-srtp-floor.ts\<close>). The HMAC and the decoding of a body as UTF-8 are
  parameters, as are the two calls on the transport. A request is what the handler reads of
  it; the answer is a status and a body.

  Shown: the transport is asked to reset a floor only for a request that is addressed, ranged,
  timed and signed for exactly that reset; the signed text names its three numbers
  unambiguously; and what the client sends is accepted as what it meant.
\<close>

section \<open>Signing\<close>

definition max_clock_skew_ms :: int where "max_clock_skew_ms = 60000"

definition max_floor :: int where "max_floor = 2 ^ 48 - 1"

definition max_body_bytes :: nat where "max_body_bytes = 1024"

definition signature_context :: js_string where
  "signature_context = js ''video.thingy.rocks/srtp-floor-reset/v1''"

text \<open>\<open>Buffer.from(s, 'hex')\<close>: the bytes of the leading pairs of digits.\<close>

fun hex_bytes :: "js_string \<Rightarrow> nat list" where
  "hex_bytes (a # b # r) =
     (case (hex_value a, hex_value b) of
        (Some x, Some y) \<Rightarrow> (16 * x + y) # hex_bytes r
      | _ \<Rightarrow> [])"
| "hex_bytes _ = []"

text \<open>\<open>digest('hex')\<close>.\<close>

definition hex_text :: "nat list \<Rightarrow> js_string" where
  "hex_text bytes = concat (map (\<lambda>b. [hex_digit (b div 16 mod 16), hex_digit (b mod 16)]) bytes)"

definition reset_message :: "int \<Rightarrow> int \<Rightarrow> int \<Rightarrow> js_string" where
  "reset_message port timestampMs floor =
     int_string port @ [10] @ int_string timestampMs @ [10] @ int_string floor"

definition signFloorReset ::
  "(nat list \<Rightarrow> nat list \<Rightarrow> nat list) \<Rightarrow> js_string \<Rightarrow> int \<Rightarrow> int \<Rightarrow> int \<Rightarrow> js_string"
where
  "signFloorReset hmac keyHex port timestampMs floor =
     hex_text (hmac (hmac (hex_bytes keyHex) signature_context) (reset_message port timestampMs floor))"

text \<open>\<open>Buffer.from(s)\<close> of a header's text, whose code units are below 256.\<close>

definition utf8_bytes :: "js_string \<Rightarrow> nat list" where
  "utf8_bytes s = concat (map (\<lambda>c. if c < 128 then [c] else [192 + c div 64 mod 32, 128 + c mod 64]) s)"

definition signatureMatches :: "js_string \<Rightarrow> js_string \<Rightarrow> bool" where
  "signatureMatches expected given =
     (length (utf8_bytes expected) = length (utf8_bytes given) \<and> utf8_bytes expected = utf8_bytes given)"

section \<open>The server\<close>

record http_request =
  rq_url :: "js_string option"
  rq_method :: "js_string option"
  rq_body :: "nat list list outcome"
  rq_timestamp :: "js_string option"
  rq_signature :: "js_string option"

type_synonym http_response = "int \<times> jsval"

definition error_body :: "string \<Rightarrow> jsval" where
  "error_body e = JObj [(js ''error'', JStr (js e))]"

text \<open>The port of \<open>/srtp/600n/floor-reset\<close>.\<close>

definition path_port :: "js_string \<Rightarrow> int option" where
  "path_port url =
     (case strip_prefix (js ''/srtp/600'') url of
        Some (d # rest) \<Rightarrow>
          (if is_digit d \<and> rest = js ''/floor-reset'' then Some (6000 + int (d - 48)) else None)
      | _ \<Rightarrow> None)"

text \<open>The chunks of a body: None when they exceed the limit together.\<close>

fun read_chunks :: "nat \<Rightarrow> nat list list \<Rightarrow> nat list option" where
  "read_chunks sofar [] = Some []"
| "read_chunks sofar (chunk # chunks) =
     (if sofar + length chunk > max_body_bytes then None
      else map_option ((@) chunk) (read_chunks (sofar + length chunk) chunks))"

definition body_floor :: "jsval \<Rightarrow> int option" where
  "body_floor parsed =
     (case parsed of
        JObj ob \<Rightarrow>
          (case field ob ''floor'' of
             Some (JNum (JInt i)) \<Rightarrow>
               (if is_safe_integer (JInt i) \<and> 0 \<le> i \<and> i \<le> max_floor then Some i else None)
           | _ \<Rightarrow> None)
      | _ \<Rightarrow> None)"

definition header_timestamp :: "js_string option \<Rightarrow> int option" where
  "header_timestamp h =
     (case h of
        None \<Rightarrow> None
      | Some s \<Rightarrow>
          (if 1 \<le> length s \<and> length s \<le> 16 \<and> list_all is_digit s
           then (case number_of s of JInt i \<Rightarrow> Some i | _ \<Rightarrow> None) else None))"

definition authorized ::
  "(nat list \<Rightarrow> nat list \<Rightarrow> nat list) \<Rightarrow> (int \<Rightarrow> port_key option) \<Rightarrow> int \<Rightarrow> http_request \<Rightarrow> int \<Rightarrow> int \<Rightarrow>
    int option"
where
  "authorized hmac keyFor now req port floor =
     (case (keyFor port, header_timestamp (rq_timestamp req), rq_signature req) of
        (Some k, Some timestamp, Some signature) \<Rightarrow>
          (if \<bar>now - timestamp\<bar> > max_clock_skew_ms then None
           else if \<not> signatureMatches (signFloorReset hmac (pk_key_hex k) port timestamp floor) signature
           then None
           else Some timestamp)
      | _ \<Rightarrow> None)"

text \<open>The handler; a throw of a call it awaits is answered 503 by the listener.\<close>

definition handle_reset ::
  "(nat list \<Rightarrow> nat list \<Rightarrow> nat list) \<Rightarrow> (nat list \<Rightarrow> js_string) \<Rightarrow> (int \<Rightarrow> port_key option) \<Rightarrow>
    (int \<Rightarrow> int \<Rightarrow> int \<Rightarrow> 'w \<Rightarrow> reset_result outcome \<times> 'w) \<Rightarrow> int \<Rightarrow> http_request \<Rightarrow> 'w \<Rightarrow>
    http_response \<times> 'w"
where
  "handle_reset hmac decode keyFor resetCall now req w =
     (case path_port (nullish (rq_url req) []) of
        None \<Rightarrow> ((404, error_body ''not found''), w)
      | Some port \<Rightarrow>
          (if rq_method req \<noteq> Some (js ''POST'') then ((405, error_body ''POST only''), w)
           else
             (case rq_body req of
                Inl e \<Rightarrow> ((503, error_body ''unavailable''), w)
              | Inr chunks \<Rightarrow>
                  (case read_chunks 0 chunks of
                     None \<Rightarrow> ((413, error_body ''body too large''), w)
                   | Some raw \<Rightarrow>
                       (case json_parse (decode raw) of
                          None \<Rightarrow> ((400, error_body ''body must be JSON''), w)
                        | Some parsed \<Rightarrow>
                            (case body_floor parsed of
                               None \<Rightarrow>
                                 ((400, error_body ''floor is required: an integer from 0 to 281474976710655''), w)
                             | Some floor \<Rightarrow>
                                 (case authorized hmac keyFor now req port floor of
                                    None \<Rightarrow> ((401, error_body ''unauthorized''), w)
                                  | Some timestamp \<Rightarrow>
                                      (case resetCall port timestamp floor w of
                                         (Inl e, w') \<Rightarrow> ((503, error_body ''unavailable''), w')
                                       | (Inr ResetStale, w') \<Rightarrow>
                                           ((409, JObj [(js ''error'', JStr (js ''stale'')),
                                              (js ''message'', JStr (js
                                                 ''a reset with a newer timestamp has already been made''))]), w')
                                       | (Inr ResetDone, w') \<Rightarrow>
                                           ((200, JObj [(js ''port'', integer_value port),
                                              (js ''floor'', integer_value floor)]), w')))))))))"

section \<open>The client\<close>

text \<open>The arguments of the script: Some of the port and the floor, None where it exits 1.\<close>

definition script_args :: "js_string option \<Rightarrow> js_string option \<Rightarrow> js_string option \<Rightarrow> (int \<times> int) option" where
  "script_args host portArg floorArg =
     (case (host, portArg, floorArg) of
        (Some h, Some p, Some f) \<Rightarrow>
          (if length p = 4 \<and> take 3 p = js ''600'' \<and> list_all is_digit p \<and>
              f \<noteq> [] \<and> list_all is_digit f \<and> is_safe_integer (number_of f)
           then (case (number_of p, number_of f) of
                   (JInt port, JInt floor) \<Rightarrow> Some (port, floor)
                 | _ \<Rightarrow> None)
           else None)
      | _ \<Rightarrow> None)"

definition script_key :: "js_string \<Rightarrow> js_string option" where
  "script_key file = (let keyHex = js_trim file in if isValidSrtpKeyHex keyHex then Some keyHex else None)"

text \<open>The request as the server reads it; \<open>encode\<close> is the body's encoding.\<close>

definition script_request ::
  "(nat list \<Rightarrow> nat list \<Rightarrow> nat list) \<Rightarrow> (js_string \<Rightarrow> nat list) \<Rightarrow> js_string \<Rightarrow> int \<Rightarrow> int \<Rightarrow> int \<Rightarrow> http_request"
where
  "script_request hmac encode keyHex port floor timestamp =
     \<lparr>rq_url = Some (js ''/srtp/'' @ int_string port @ js ''/floor-reset''), rq_method = Some (js ''POST''),
      rq_body = Inr [encode (json_text (JObj [(js ''floor'', integer_value floor)]))],
      rq_timestamp = Some (int_string timestamp),
      rq_signature = Some (signFloorReset hmac keyHex port timestamp floor)\<rparr>"

section \<open>The signed text\<close>

lemma digits_or_minus: "c \<in> set (int_string i) \<Longrightarrow> is_digit c \<or> c = 45"
  using nat_digits_digits by (auto simp: int_string_def split: if_splits)

lemma int_string_no_separator [simp]: "10 \<notin> set (int_string i)"
  using digits_or_minus [of 10 i] by (auto simp: is_digit_def)

lemma reset_message_inj:
  "reset_message p t f = reset_message p' t' f' \<Longrightarrow> p = p' \<and> t = t' \<and> f = f'"
  unfolding reset_message_def
  by (auto dest!: split_at_separator [rotated 2])

section \<open>What the client sends\<close>

lemma dyadic_nonneg: "dyadic m k = JInt i \<Longrightarrow> 0 \<le> m \<Longrightarrow> 0 \<le> i"
proof (induction m k rule: dyadic.induct)
  case (1 m k)
  then show ?case by (subst (asm) dyadic.simps) (auto split: if_splits)
qed

lemma number_of_digits_nonneg:
  assumes "number_of ds = JInt i" "ds \<noteq> []" "\<forall>c \<in> set ds. is_digit c"
  shows "0 \<le> i"
  using assms
  by (auto simp: number_of_digits decimal_value_def round_double_def Let_def
      dest!: dyadic_nonneg split: if_splits)

lemma length_nat_digits: "n < 10 ^ Suc k \<Longrightarrow> length (nat_digits n) \<le> Suc k"
proof (induction k arbitrary: n)
  case 0
  then show ?case by (simp add: nat_digits.simps [of n])
next
  case (Suc k)
  then have "n div 10 < 10 ^ Suc k" by (simp add: less_mult_imp_div_less)
  then show ?case using Suc.IH by (subst nat_digits.simps) simp
qed

lemma header_timestamp_text:
  assumes "0 \<le> i" "i < 2 ^ 53"
  shows "header_timestamp (Some (int_string i)) = Some i"
proof -
  have "length (nat_digits (nat i)) \<le> 16"
    using length_nat_digits [of "nat i" 15] assms by (simp add: nat_less_iff)
  moreover have "length (nat_digits (nat i)) \<ge> 1"
    by (cases "nat_digits (nat i)") auto
  moreover have "list_all is_digit (nat_digits (nat i))"
    by (simp add: list_all_iff)
  ultimately show ?thesis
    using assms number_of_nat_digits [of "nat i"]
    by (simp add: header_timestamp_def int_string_def nat_less_iff)
qed

definition ascii_faithful :: "(js_string \<Rightarrow> nat list) \<Rightarrow> (nat list \<Rightarrow> js_string) \<Rightarrow> bool" where
  "ascii_faithful encode decode \<longleftrightarrow> ascii_identity encode \<and> ascii_identity decode"

abbreviation floor_object :: "int \<Rightarrow> jsval" where
  "floor_object f \<equiv> JObj [(js ''floor'', integer_value f)]"

lemma floor_body_text:
  "json_text (floor_object f) = [123, 34, 102, 108, 111, 111, 114, 34, 58] @ int_string f @ [125]"
  by (simp add: integer_value_def js_Cons json_string_def quote_unit_def surrogate_def
      leading_def trailing_def)

lemma floor_body_ascii: "list_all (\<lambda>c. c < 128) (json_text (floor_object f))"
  unfolding floor_body_text by (auto simp: list_all_iff is_digit_def dest!: digits_or_minus)

lemma floor_body_length:
  assumes "0 \<le> f" "f \<le> max_safe_integer"
  shows "length (json_text (floor_object f)) \<le> 26"
proof -
  have "length (nat_digits (nat f)) \<le> 16"
    using length_nat_digits [of "nat f" 15] assms by (simp add: max_safe_integer_def nat_less_iff)
  then show ?thesis using assms(1) unfolding floor_body_text by (simp add: int_string_def)
qed

text \<open>Every safe integer is read back from the body; a floor only if it is a packet index.\<close>

lemma floor_body_read:
  assumes "0 \<le> f" "f \<le> max_safe_integer"
  shows "json_parse (json_text (floor_object f)) = Some (floor_object f)"
    and "body_floor (floor_object f) = (if f \<le> max_floor then Some f else None)"
  using assms json_round_trip [of "floor_object f"]
  by (simp_all add: body_floor_def integer_value_def field_def code_units_def js_Cons is_safe_integer_def
      max_safe_integer_def del: json_text.simps)

lemma max_floor_safe: "f \<le> max_floor \<Longrightarrow> f \<le> max_safe_integer"
  by (simp add: max_floor_def max_safe_integer_def)

lemma path_of_port:
  assumes "6000 \<le> p" "p \<le> 6009"
  shows "path_port (js ''/srtp/'' @ int_string p @ js ''/floor-reset'') = Some p"
proof -
  have "p = 6000 \<or> p = 6001 \<or> p = 6002 \<or> p = 6003 \<or> p = 6004 \<or> p = 6005 \<or> p = 6006 \<or> p = 6007 \<or>
      p = 6008 \<or> p = 6009"
    using assms by presburger
  then show ?thesis
    by (elim disjE) (simp_all add: int_string_def nat_digits.simps path_port_def strip_prefix_def js_Cons is_digit_def)
qed

lemma read_single: "length body \<le> 1024 \<Longrightarrow> read_chunks 0 [body] = Some body"
  by (simp add: max_body_bytes_def)

lemma script_port_number:
  assumes "length p = 4" "take 3 p = js ''600''" "list_all is_digit p"
  shows "\<exists>port. number_of p = JInt port \<and> 6000 \<le> port \<and> port \<le> 6009"
proof -
  obtain d where p: "p = [54, 48, 48, d]"
    using assms(1,2) by (auto simp: length_Suc_conv numeral_eq_Suc js_Cons)
  have d: "is_digit d" using assms(3) by (simp add: p)
  have "number_of p = JInt (int (6000 + (d - 48)))"
    using d by (simp add: number_of_digits p decimal_value_def digits_value_def round_double_exact
        is_digit_def Let_def)
  then show ?thesis using d by (auto simp: is_digit_def)
qed

lemma script_args_ranges:
  assumes "script_args host portArg floorArg = Some (port, floor)"
  shows "6000 \<le> port \<and> port \<le> 6009 \<and> 0 \<le> floor \<and> floor \<le> max_safe_integer"
proof -
  obtain p f where pf: "portArg = Some p" "floorArg = Some f" "length p = 4" "take 3 p = js ''600''"
      "list_all is_digit p" "f \<noteq> []" "list_all is_digit f" "number_of p = JInt port" "number_of f = JInt floor"
      "floor \<le> max_safe_integer"
    using assms by (auto simp: script_args_def is_safe_integer_def split: option.splits if_splits jsnum.splits)
  then show ?thesis
    using script_port_number [of p] number_of_digits_nonneg [of f floor] by (auto simp: list_all_iff)
qed

lemma script_request_served:
  assumes "ascii_faithful encode decode" and "6000 \<le> port" "port \<le> 6009" and "0 \<le> floor" "floor \<le> max_floor"
    and "keyFor port = Some k" and "hex_bytes (pk_key_hex k) = hex_bytes keyHex"
    and "0 \<le> timestamp" "timestamp < 2 ^ 53" and "\<bar>now - timestamp\<bar> \<le> max_clock_skew_ms"
  shows "handle_reset hmac decode keyFor resetCall now (script_request hmac encode keyHex port floor timestamp) w =
    (case resetCall port timestamp floor w of
       (Inl e, w') \<Rightarrow> ((503, error_body ''unavailable''), w')
     | (Inr ResetStale, w') \<Rightarrow>
         ((409, JObj [(js ''error'', JStr (js ''stale'')),
            (js ''message'', JStr (js ''a reset with a newer timestamp has already been made''))]), w')
     | (Inr ResetDone, w') \<Rightarrow>
         ((200, JObj [(js ''port'', integer_value port), (js ''floor'', integer_value floor)]), w'))"
proof -
  let ?body = "json_text (floor_object floor)"
  have utf: "encode ?body = ?body" "decode ?body = ?body"
    using assms(1) floor_body_ascii [of floor] by (auto simp: ascii_faithful_def ascii_identity_def)
  have body: "read_chunks 0 [?body] = Some ?body"
    using floor_body_length [OF assms(4) max_floor_safe [OF assms(5)]] by (intro read_single) simp
  have auth: "authorized hmac keyFor now (script_request hmac encode keyHex port floor timestamp) port floor =
      Some timestamp"
    using assms(6-10) header_timestamp_text [of timestamp]
    by (simp add: authorized_def script_request_def signFloorReset_def signatureMatches_def)
  show ?thesis
    using auth path_of_port [OF assms(2,3)] body utf floor_body_read [OF assms(4) max_floor_safe [OF assms(5)]] assms(5)
    by (simp add: handle_reset_def script_request_def del: json_text.simps js_append)
qed

text \<open>A floor beyond the packet indices is refused before the signature is looked at.\<close>

lemma script_request_refused:
  assumes "ascii_faithful encode decode" and "6000 \<le> port" "port \<le> 6009"
    and "0 \<le> floor" "max_floor < floor" "floor \<le> max_safe_integer"
  shows "handle_reset hmac decode keyFor resetCall now (script_request hmac encode keyHex port floor timestamp) w =
    ((400, error_body ''floor is required: an integer from 0 to 281474976710655''), w)"
proof -
  let ?body = "json_text (floor_object floor)"
  have utf: "encode ?body = ?body" "decode ?body = ?body"
    using assms(1) floor_body_ascii [of floor] by (auto simp: ascii_faithful_def ascii_identity_def)
  have body: "read_chunks 0 [?body] = Some ?body"
    using floor_body_length [OF assms(4,6)] by (intro read_single) simp
  show ?thesis
    using path_of_port [OF assms(2,3)] body utf floor_body_read [OF assms(4,6)] assms(5)
    by (simp add: handle_reset_def script_request_def del: json_text.simps js_append)
qed

lemma handle_reset_cases:
  "(case handle_reset hmac decode keyFor resetCall now req w of
      ((code, body), w') \<Rightarrow>
        w' = w \<and> (code = 404 \<or> code = 405 \<or> code = 413 \<or> code = 400 \<or> code = 401 \<or> code = 503) \<or>
        (\<exists>port timestamp floor k signature r.
           path_port (nullish (rq_url req) []) = Some port \<and> rq_method req = Some (js ''POST'') \<and>
           0 \<le> floor \<and> floor \<le> max_floor \<and> keyFor port = Some k \<and>
           header_timestamp (rq_timestamp req) = Some timestamp \<and> \<bar>now - timestamp\<bar> \<le> max_clock_skew_ms \<and>
           rq_signature req = Some signature \<and>
           signatureMatches (signFloorReset hmac (pk_key_hex k) port timestamp floor) signature \<and>
           resetCall port timestamp floor w = (r, w') \<and>
           code = (case r of Inl e \<Rightarrow> 503 | Inr ResetStale \<Rightarrow> 409 | Inr ResetDone \<Rightarrow> 200)))"
  by (auto simp: handle_reset_def authorized_def body_floor_def
      split: option.split sum.split prod.split reset_result.split jsval.splits jsnum.splits if_splits)

lemma handle_reset_calls:
  assumes "handle_reset hmac decode keyFor resetCall now req w = ((code, body), w')"
  shows "w' = w \<and> code \<noteq> 200 \<or>
    (\<exists>port timestamp floor r. path_port (nullish (rq_url req) []) = Some port \<and>
       header_timestamp (rq_timestamp req) = Some timestamp \<and> resetCall port timestamp floor w = (r, w') \<and>
       (code = 200 \<longleftrightarrow> r = Inr ResetDone))"
proof -
  have status: "(case r of Inl e \<Rightarrow> 503 | Inr ResetStale \<Rightarrow> 409 | Inr ResetDone \<Rightarrow> 200) = (200 :: int) \<longleftrightarrow>
      r = Inr ResetDone" for r :: "reset_result outcome"
    by (simp split: sum.split reset_result.split)
  from handle_reset_cases [where resetCall = resetCall and w = w and keyFor = keyFor and hmac = hmac
      and decode = decode and now = now and req = req, unfolded assms prod.case]
  show ?thesis
  proof (elim disjE exE conjE)
    fix port timestamp floor k signature and r :: "reset_result outcome"
    assume code: "code = (case r of Inl e \<Rightarrow> 503 | Inr ResetStale \<Rightarrow> 409 | Inr ResetDone \<Rightarrow> 200)"
    have "code = 200 \<longleftrightarrow> r = Inr ResetDone" unfolding code by (rule status)
    moreover assume "path_port (nullish (rq_url req) []) = Some port"
      and "header_timestamp (rq_timestamp req) = Some timestamp" "resetCall port timestamp floor w = (r, w')"
    ultimately show ?thesis by blast
  qed simp_all
qed

section \<open>Properties\<close>

text \<open>C17. What the client sends and the server makes of it, for all arguments that the script accepts, when the
  server holds the same key and its clock is within a minute of the script's (whose time has at most 53 bits, and
  whose UTF-8 coding keeps ASCII as it is). A floor that is a packet index is
  authorized, and the transport is asked once, for exactly the reset that was meant; the answer is 200 when it was
  applied, 409 when it was stale and 503 when it failed. But the script accepts every safe integer, and a
  floor above the largest packet index is refused with 400, whatever the key, and changes nothing.\<close>

theorem client_request_accepted:
  assumes "ascii_faithful encode decode"
    and "script_args host portArg floorArg = Some (port, floor)"
    and "keyFor port = Some k" and "hex_bytes (pk_key_hex k) = hex_bytes keyHex"
    and "0 \<le> timestamp" "timestamp < 2 ^ 53" and "\<bar>now - timestamp\<bar> \<le> max_clock_skew_ms"
  shows "floor \<le> max_safe_integer \<and>
    handle_reset hmac decode keyFor resetCall now (script_request hmac encode keyHex port floor timestamp) w =
    (if floor \<le> max_floor
     then
       (case resetCall port timestamp floor w of
          (Inl e, w') \<Rightarrow> ((503, error_body ''unavailable''), w')
        | (Inr ResetStale, w') \<Rightarrow>
            ((409, JObj [(js ''error'', JStr (js ''stale'')),
               (js ''message'', JStr (js ''a reset with a newer timestamp has already been made''))]), w')
        | (Inr ResetDone, w') \<Rightarrow>
            ((200, JObj [(js ''port'', integer_value port), (js ''floor'', integer_value floor)]), w'))
     else ((400, error_body ''floor is required: an integer from 0 to 281474976710655''), w))"
proof -
  note args = script_args_ranges [OF assms(2)]
  show ?thesis
  proof (cases "floor \<le> max_floor")
    case True
    with args assms show ?thesis by (simp add: script_request_served)
  next
    case False
    with args assms show ?thesis by (simp add: script_request_refused)
  qed
qed

definition reset_key :: port_key where
  "reset_key = \<lparr>pk_key_hex = js ''ab'', pk_ssrc = 7, pk_cipher = supported_srtp_cipher,
     pk_auth = supported_srtp_auth, pk_fingerprint = js ''k'', pk_generation = 2\<rparr>"

definition sample_hmac :: "nat list \<Rightarrow> nat list \<Rightarrow> nat list" where
  "sample_hmac key message = [sum_list key mod 256, sum_list message mod 256]"

lemma ascii_faithful_id: "ascii_faithful (\<lambda>s. s) (\<lambda>s. s)"
  by (simp add: ascii_faithful_def ascii_identity_def)

lemma client_request_accepted_witness:
  "fst (fst (handle_reset sample_hmac (\<lambda>s. s) (\<lambda>p. Some reset_key) (\<lambda>p t f u. (Inr ResetDone, u)) 1700000030000
     (script_request sample_hmac (\<lambda>s. s) (js ''AB'') 6001 70000 1700000000000) ())) = 200 \<and>
   fst (fst (handle_reset sample_hmac (\<lambda>s. s) (\<lambda>p. Some reset_key) (\<lambda>p t f u. (Inr ResetDone, u)) 1700000030000
     (script_request sample_hmac (\<lambda>s. s) (js ''AB'') 6001 281474976710656 1700000000000) ())) = 400"
proof -
  have args: "script_args (Some []) (Some (js ''6001'')) (Some (js ''70000'')) = Some (6001, 70000)"
    "script_args (Some []) (Some (js ''6001'')) (Some (js ''281474976710656'')) = Some (6001, 281474976710656)"
    by (simp_all add: script_args_def number_of_digits decimal_value_def digits_value_def round_double_exact
        js_Cons is_digit_def is_safe_integer_def max_safe_integer_def)
  have key: "hex_bytes (pk_key_hex reset_key) = hex_bytes (js ''AB'')"
    by (simp add: reset_key_def hex_value_def js_Cons)
  note accepted = client_request_accepted [OF ascii_faithful_id _ _ key, where keyFor = "\<lambda>p. Some reset_key" and
      timestamp = 1700000000000 and now = 1700000030000 and resetCall = "\<lambda>p t f u. (Inr ResetDone, u)" and
      hmac = sample_hmac and w = "()"]
  show ?thesis
    using accepted [OF args(1)] accepted [OF args(2)] by (simp add: max_floor_def max_clock_skew_ms_def)
qed

text \<open>C16. The transport is asked for a reset only by a request that names a port of the range, is a
  POST, carries a floor that is a packet index, and is signed with that port's key over exactly
  this port, timestamp and floor, within a minute of this clock; and then exactly that reset is
  asked for. Any other request changes nothing, and is never answered 200 or 409.\<close>

theorem reset_only_when_signed:
  "(case handle_reset hmac decode keyFor resetCall now req w of
      ((code, body), w') \<Rightarrow>
        w' = w \<and> (code = 404 \<or> code = 405 \<or> code = 413 \<or> code = 400 \<or> code = 401 \<or> code = 503) \<or>
        (\<exists>port timestamp floor k signature r.
           path_port (nullish (rq_url req) []) = Some port \<and> rq_method req = Some (js ''POST'') \<and>
           0 \<le> floor \<and> floor \<le> max_floor \<and> keyFor port = Some k \<and>
           header_timestamp (rq_timestamp req) = Some timestamp \<and> \<bar>now - timestamp\<bar> \<le> max_clock_skew_ms \<and>
           rq_signature req = Some signature \<and>
           signatureMatches (signFloorReset hmac (pk_key_hex k) port timestamp floor) signature \<and>
           resetCall port timestamp floor w = (r, w') \<and>
           code = (case r of Inl e \<Rightarrow> 503 | Inr ResetStale \<Rightarrow> 409 | Inr ResetDone \<Rightarrow> 200)))"
  by (rule handle_reset_cases)

text \<open>The server's call of \<open>SrtpTransport.resetFloor\<close>.\<close>

definition reset_call ::
  "(request \<Rightarrow> 'db \<Rightarrow> response \<times> 'db) \<Rightarrow> transport \<Rightarrow> int \<Rightarrow> int \<Rightarrow> int \<Rightarrow> int \<Rightarrow> 'db \<Rightarrow> reset_result outcome \<times> 'db"
where
  "reset_call send t now port timestamp floor db =
     (case resetFloor send t port timestamp floor now db of (r, _, db') \<Rightarrow> (r, db'))"

lemma reset_call_used:
  assumes "reset_call send t now port timestamp floor db = (r, db')"
  shows "r = Inr ResetStale \<and> db' = db \<or>
    (\<exists>fr. fr_requested_at fr = timestamp \<and> resetSrtpIndexFloor send port fr now db = (r, db'))"
  using assms
  by (force simp: reset_call_def resetFloor_def split: option.splits prod.splits)

text \<open>C15. A signed request is good for one reset: once it was answered 200, replaying it - to this
  instance or another, at any clock, after any further history of the row - is never answered 200
  and changes nothing.\<close>

theorem signed_request_single_use:
  assumes "dynamo send item_of"
    and "handle_reset hmac decode (keyForPort t) (reset_call send t clock) now req db = ((200, body), db1)"
    and "handle_reset hmac decode (keyForPort t') (reset_call send t' clock') now' req (run_ops send ops db1) =
      ((code, body'), db2)"
  shows "item_of db2 = item_of (run_ops send ops db1) \<and> code \<noteq> 200"
proof -
  obtain port ts floor where first: "path_port (nullish (rq_url req) []) = Some port"
      "header_timestamp (rq_timestamp req) = Some ts"
      "reset_call send t clock port ts floor db = (Inr ResetDone, db1)"
    using handle_reset_calls [OF assms(2)] by auto
  then obtain fr where fr: "fr_requested_at fr = ts" "resetSrtpIndexFloor send port fr clock db = (Inr ResetDone, db1)"
    using reset_call_used [OF first(3)] by auto
  let ?db = "run_ops send ops db1"
  consider "db2 = ?db" "code \<noteq> 200"
    | floor' r where "reset_call send t' clock' port ts floor' ?db = (r, db2)"
        "code = 200 \<longrightarrow> r = Inr ResetDone"
    using handle_reset_calls [OF assms(3)] first(1,2) by auto
  then show ?thesis
  proof cases
    case 2
    from reset_call_used [OF 2(1)] show ?thesis
    proof (elim disjE exE conjE)
      fix fr'
      assume again: "fr_requested_at fr' = ts" "resetSrtpIndexFloor send port fr' clock' ?db = (r, db2)"
      show ?thesis
        using reset_replay_refused [OF assms(1) fr(2) _ again(2)] again(1) fr(1) 2(2) by simp
    qed (use 2(2) in simp)
  qed auto
qed

definition keyed_transport :: transport where
  "keyed_transport = new_transport\<lparr>tp_keys := [(6001, reset_key)]\<rparr>"

definition signed_request :: http_request where
  "signed_request = script_request sample_hmac (\<lambda>s. s) (js ''AB'') 6001 70000 1700000000000"

lemma keyed_transport_key: "keyForPort keyed_transport 6001 = Some reset_key"
  by (simp add: keyForPort_def keyed_transport_def getKeyForPort_def)

lemma sample_port_reset:
  "fst (reset_call table_send keyed_transport 1 6001 1700000000000 70000 free_table) = Inr ResetDone"
  by (simp add: reset_call_def resetFloor_def keyed_transport_key resetSrtpIndexFloor_def free_table_def
      table_item_def next_fault_def row_simps epoch_of_def generation_of_def Let_def)

lemma signed_request_done:
  "handle_reset sample_hmac (\<lambda>s. s) (keyForPort keyed_transport) (reset_call table_send keyed_transport 1)
     1700000030000 signed_request free_table =
   ((200, JObj [(js ''port'', integer_value 6001), (js ''floor'', integer_value 70000)]),
    snd (reset_call table_send keyed_transport 1 6001 1700000000000 70000 free_table))"
  using sample_port_reset unfolding signed_request_def
  by (subst script_request_served [OF ascii_faithful_id, of _ _ _ reset_key])
    (auto simp: keyed_transport_key max_floor_def max_clock_skew_ms_def reset_key_def js_Cons hex_value_def
      split: prod.split)

lemma signed_request_single_use_witness:
  "fst (fst (handle_reset sample_hmac (\<lambda>s. s) (keyForPort keyed_transport) (reset_call table_send keyed_transport 9)
     1700000040000 signed_request
     (run_ops table_send [AcquireOp 6001 (js ''a'') 2 2]
       (snd (reset_call table_send keyed_transport 1 6001 1700000000000 70000 free_table))))) \<noteq> 200"
  using signed_request_single_use [OF dynamo_table signed_request_done prod.collapse [symmetric, THEN trans,
      OF arg_cong2 [of _ _ _ _ Pair, OF prod.collapse [symmetric] refl]]]
  by blast

end
