(* ===== verification/Traffic.thy ===== *)
theory Traffic
imports Prelude
begin

text \<open>
  The per-transport traffic metrics (\<open>backend/src/TrafficMetrics.ts\<close>,
  \<open>TrafficMetricRequest.ts\<close>, \<open>TrafficMetricNames.ts\<close>). The publisher is a machine: its owner
  records bytes and sets the serving flag, its timer and its owner call for a publish, the
  publishes wait in a chain, one request is in flight at a time, and CloudWatch answers it. The
  requests that reached CloudWatch are recorded in \<open>tm_landed\<close>, which no code reads: a request
  may reach it and its answer be lost.

  Shown: no byte that was recorded is ever missing from what was published and what is still
  counted, whatever is recorded while a request is in flight and however requests fail; none is
  counted twice unless an answer was lost; and every request reports both transports.
\<close>

section \<open>Names\<close>

definition trafficMetricNamespace :: "js_string \<Rightarrow> js_string" where
  "trafficMetricNamespace stackName = stackName @ js ''/ingest''"

definition received_bytes_metric :: js_string where "received_bytes_metric = js ''ReceivedBytes''"

definition serving_metric :: js_string where "serving_metric = js ''TransportServing''"

definition transport_dimension :: js_string where "transport_dimension = js ''Transport''"

definition unencrypted_transport :: js_string where "unencrypted_transport = js ''unencrypted''"

definition srtp_transport :: js_string where "srtp_transport = js ''srtp''"

section \<open>The request\<close>

record traffic_sample =
  sa_transport :: js_string
  sa_bytes :: int
  sa_serving :: int
  sa_at :: int

record metric_datum =
  MetricName :: js_string
  Value :: int
  Unit :: js_string
  Timestamp :: int
  Dimensions :: "(js_string \<times> js_string) list"

record metric_request =
  Namespace :: js_string
  MetricData :: "metric_datum list"

definition sample_data :: "traffic_sample \<Rightarrow> metric_datum list" where
  "sample_data sample =
     (let ds = [(transport_dimension, sa_transport sample)] in
      [\<lparr>MetricName = received_bytes_metric, Value = sa_bytes sample, Unit = js ''Bytes'',
        Timestamp = sa_at sample, Dimensions = ds\<rparr>,
       \<lparr>MetricName = serving_metric, Value = sa_serving sample, Unit = js ''None'',
        Timestamp = sa_at sample, Dimensions = ds\<rparr>])"

definition trafficMetricRequest :: "traffic_sample list \<Rightarrow> js_string \<Rightarrow> metric_request" where
  "trafficMetricRequest samples stackName =
     \<lparr>Namespace = trafficMetricNamespace stackName, MetricData = concat (map sample_data samples)\<rparr>"

section \<open>The publisher\<close>

record traffic =
  tm_client :: bool
  tm_stack :: js_string
  tm_received :: "(js_string, int) js_map"
  tm_serving :: "(js_string, bool) js_map"
  tm_timer :: bool
  tm_chain :: nat
  tm_in_flight :: "traffic_sample list option"
  tm_publish_count :: nat
  tm_landed :: "metric_request list"

definition new_traffic :: "js_string option \<Rightarrow> traffic" where
  "new_traffic stackName =
     \<lparr>tm_client = (stackName \<noteq> None \<and> stackName \<noteq> Some []), tm_stack = nullish stackName (js ''local''),
      tm_received = [(unencrypted_transport, 0), (srtp_transport, 0)],
      tm_serving = [(unencrypted_transport, False), (srtp_transport, False)],
      tm_timer = False, tm_chain = 0, tm_in_flight = None, tm_publish_count = 0, tm_landed = []\<rparr>"

text \<open>\<open>publish\<close> appends to the chain; a link runs when the one before it has settled.\<close>

definition publish :: "traffic \<Rightarrow> traffic" where
  "publish s = s\<lparr>tm_chain := Suc (tm_chain s)\<rparr>"

definition traffic_start :: "traffic \<Rightarrow> traffic" where
  "traffic_start s = (if tm_timer s \<or> \<not> tm_client s then s else (publish s)\<lparr>tm_timer := True\<rparr>)"

definition traffic_stop :: "traffic \<Rightarrow> traffic" where
  "traffic_stop s = publish (if tm_timer s then s\<lparr>tm_timer := False\<rparr> else s)"

definition count_bytes :: "js_string \<Rightarrow> int \<Rightarrow> (js_string, int) js_map \<Rightarrow> (js_string, int) js_map" where
  "count_bytes transport bytes m = AList.update transport (nullish (map_of m transport) 0 + bytes) m"

definition recordReceived :: "js_string \<Rightarrow> int \<Rightarrow> traffic \<Rightarrow> traffic" where
  "recordReceived transport bytes s = s\<lparr>tm_received := count_bytes transport bytes (tm_received s)\<rparr>"

definition traffic_setServing :: "js_string \<Rightarrow> bool \<Rightarrow> traffic \<Rightarrow> traffic" where
  "traffic_setServing transport serving s = s\<lparr>tm_serving := AList.update transport serving (tm_serving s)\<rparr>"

definition snapshot :: "int \<Rightarrow> traffic \<Rightarrow> traffic_sample list" where
  "snapshot at s =
     map (\<lambda>(transport, bytes).
            \<lparr>sa_transport = transport, sa_bytes = bytes,
             sa_serving = (if nullish (map_of (tm_serving s) transport) False then 1 else 0), sa_at = at\<rparr>)
       (tm_received s)"

text \<open>\<open>publishNow\<close> up to its await: the snapshot is taken and the counters are cleared.\<close>

definition publish_begin :: "int \<Rightarrow> traffic \<Rightarrow> traffic" where
  "publish_begin at s =
     (if \<not> tm_client s then s
      else s\<lparr>tm_in_flight := Some (snapshot at s),
             tm_received := map (\<lambda>(transport, bytes). (transport, 0)) (tm_received s)\<rparr>)"

datatype cloudwatch_answer = Accepted | LostAnswer | Refused

definition restore :: "traffic_sample list \<Rightarrow> (js_string, int) js_map \<Rightarrow> (js_string, int) js_map" where
  "restore samples m =
     fold (\<lambda>sample m. if sa_bytes sample > 0 then count_bytes (sa_transport sample) (sa_bytes sample) m else m)
       samples m"

text \<open>Its rest: what it does with the answer.\<close>

definition publish_end :: "cloudwatch_answer \<Rightarrow> traffic_sample list \<Rightarrow> traffic \<Rightarrow> traffic" where
  "publish_end answer samples s0 =
     (let s = (if answer = Refused then s0
               else s0\<lparr>tm_landed := tm_landed s0 @ [trafficMetricRequest samples (tm_stack s0)]\<rparr>)\<lparr>tm_in_flight := None\<rparr>
      in if answer = Accepted then s\<lparr>tm_publish_count := Suc (tm_publish_count s)\<rparr>
         else s\<lparr>tm_received := restore samples (tm_received s)\<rparr>)"

datatype traffic_event =
    StartTraffic
  | StopTraffic
  | TrafficTimer
  | Recorded js_string nat
  | ServingIs js_string bool
  | NextLink int
  | Answered cloudwatch_answer

fun traffic_step :: "traffic_event \<Rightarrow> traffic \<Rightarrow> traffic" where
  "traffic_step StartTraffic s = traffic_start s"
| "traffic_step StopTraffic s = traffic_stop s"
| "traffic_step TrafficTimer s = (if tm_timer s then publish s else s)"
| "traffic_step (Recorded transport n) s = recordReceived transport (int n) s"
| "traffic_step (ServingIs transport b) s = traffic_setServing transport b s"
| "traffic_step (NextLink at) s =
     (if tm_in_flight s = None \<and> tm_chain s > 0
      then publish_begin at (s\<lparr>tm_chain := tm_chain s - 1\<rparr>) else s)"
| "traffic_step (Answered answer) s =
     (case tm_in_flight s of None \<Rightarrow> s | Some samples \<Rightarrow> publish_end answer samples s)"

definition traffic_run :: "js_string option \<Rightarrow> traffic_event list \<Rightarrow> traffic" where
  "traffic_run stackName events = fold traffic_step events (new_traffic stackName)"

section \<open>Counting\<close>

text \<open>What the alarms see: the sum of a metric under one transport's dimension.\<close>

definition metric_sum :: "js_string \<Rightarrow> js_string \<Rightarrow> metric_request \<Rightarrow> int" where
  "metric_sum name transport r =
     sum_list (map Value (filter (\<lambda>d. MetricName d = name \<and> Dimensions d = [(transport_dimension, transport)])
       (MetricData r)))"

definition published :: "js_string \<Rightarrow> traffic \<Rightarrow> int" where
  "published transport s = sum_list (map (metric_sum received_bytes_metric transport) (tm_landed s))"

definition sampled :: "js_string \<Rightarrow> traffic_sample list \<Rightarrow> int" where
  "sampled transport samples = sum_list (map sa_bytes (filter (\<lambda>x. sa_transport x = transport) samples))"

definition counted :: "js_string \<Rightarrow> traffic \<Rightarrow> int" where
  "counted transport s =
     nullish (map_of (tm_received s) transport) 0 + sampled transport (nullish (tm_in_flight s) [])"

fun recorded :: "js_string \<Rightarrow> traffic_event list \<Rightarrow> int" where
  "recorded transport [] = 0"
| "recorded transport (Recorded t n # es) = (if t = transport then int n else 0) + recorded transport es"
| "recorded transport (_ # es) = recorded transport es"

lemma metric_sum_request [simp]:
  "metric_sum received_bytes_metric transport (trafficMetricRequest samples stack) = sampled transport samples"
  by (induction samples)
    (auto simp: metric_sum_def trafficMetricRequest_def sampled_def sample_data_def Let_def
      received_bytes_metric_def serving_metric_def)

definition traffic_inv :: "traffic \<Rightarrow> bool" where
  "traffic_inv s \<longleftrightarrow>
     js_map_ok (tm_received s) \<and> js_has (tm_received s) unencrypted_transport \<and>
     js_has (tm_received s) srtp_transport \<and> list_all (\<lambda>(t, b). 0 \<le> b) (tm_received s) \<and>
     list_all (\<lambda>x. 0 \<le> sa_bytes x) (nullish (tm_in_flight s) [])"

lemma js_map_ok_Cons: "js_map_ok ((k, v) # m) \<longleftrightarrow> map_of m k = None \<and> js_map_ok m"
  by (auto simp: js_map_ok_def js_keys_def map_of_eq_None_iff)

lemma sampled_snapshot:
  "js_map_ok m \<Longrightarrow> sampled t (map (\<lambda>(k, b). \<lparr>sa_transport = k, sa_bytes = b, sa_serving = f k, sa_at = at\<rparr>) m) =
    nullish (map_of m t) 0"
proof (induction m)
  case (Cons x m)
  then show ?case by (cases x) (auto simp: sampled_def js_map_ok_Cons)
qed (simp add: sampled_def)

lemma map_of_cleared: "map_of (map (\<lambda>(k, b). (k, 0)) m) t = (if js_has m t then Some 0 else None)"
  by (induction m) (auto simp: js_has_def)

lemma count_bytes_get:
  "nullish (map_of (count_bytes k b m) t) 0 = nullish (map_of m t) 0 + (if k = t then b else 0)"
  by (simp add: count_bytes_def)

lemma restore_get:
  "list_all (\<lambda>x. 0 \<le> sa_bytes x) samples \<Longrightarrow>
    nullish (map_of (restore samples m) t) 0 = nullish (map_of m t) 0 + sampled t samples"
  by (induction samples arbitrary: m) (auto simp: restore_def sampled_def count_bytes_get)

lemma list_all_update:
  "list_all (\<lambda>(k, v). P v) m \<Longrightarrow> P v \<Longrightarrow> list_all (\<lambda>(k, v). P v) (AList.update k v m)"
  by (induction m) auto

lemma nonneg_get: "list_all (\<lambda>(t, b). 0 \<le> b) m \<Longrightarrow> 0 \<le> nullish (map_of m t) (0 :: int)"
  by (induction m) auto

lemma count_bytes_ok:
  assumes "js_map_ok m" "list_all (\<lambda>(t, b). 0 \<le> b) m" "0 \<le> b"
  shows "js_map_ok (count_bytes k b m)" "list_all (\<lambda>(t, b). 0 \<le> b) (count_bytes k b m)"
    "js_has (count_bytes k b m) j \<longleftrightarrow> j = k \<or> js_has m j"
  using assms nonneg_get [OF assms(2), of k] by (auto simp: count_bytes_def intro!: list_all_update)

lemma restore_ok:
  assumes "js_map_ok m" "list_all (\<lambda>(t, b). 0 \<le> b) m"
  shows "js_map_ok (restore samples m)" "list_all (\<lambda>(t, b). 0 \<le> b) (restore samples m)"
    "js_has m j \<Longrightarrow> js_has (restore samples m) j"
  using assms
  by (induction samples arbitrary: m) (auto simp: restore_def count_bytes_ok)


lemma traffic_inv_new: "traffic_inv (new_traffic stackName)"
  by (simp add: traffic_inv_def new_traffic_def js_map_ok_def js_keys_def js_has_def unencrypted_transport_def
      srtp_transport_def)

lemma cleared_ok:
  "js_map_ok (map (\<lambda>(k, b). (k, 0 :: int)) m) = js_map_ok m"
  "js_has (map (\<lambda>(k, b). (k, 0 :: int)) m) t = js_has m t"
  "list_all (\<lambda>(t, b). 0 \<le> b) (map (\<lambda>(k, b). (k, 0 :: int)) m)"
  by (auto simp: js_map_ok_def js_keys_def js_has_def map_of_cleared list_all_iff comp_def case_prod_beta)

text \<open>Each event keeps the invariant and moves bytes between the three places it can.\<close>

definition balance :: "js_string \<Rightarrow> traffic \<Rightarrow> int" where
  "balance t s = published t s + counted t s"

lemma begin_inv:
  assumes "traffic_inv s" "tm_in_flight s = None"
  shows "traffic_inv (publish_begin at s)" "balance t (publish_begin at s) = balance t s"
proof -
  have pending: "list_all (\<lambda>x. 0 \<le> sa_bytes x) (snapshot at s)"
    using assms(1) by (auto simp: traffic_inv_def snapshot_def list_all_iff)
  show "traffic_inv (publish_begin at s)"
    using assms pending by (simp add: publish_begin_def traffic_inv_def cleared_ok)
  show "balance t (publish_begin at s) = balance t s"
    using assms sampled_snapshot [of "tm_received s" t]
    by (auto simp: publish_begin_def balance_def counted_def published_def traffic_inv_def snapshot_def
        map_of_cleared sampled_def [of t "[]"] split: if_splits)
qed

lemma end_inv:
  assumes "traffic_inv s" "tm_in_flight s = Some samples"
  shows "traffic_inv (publish_end answer samples s)"
    and "balance t (publish_end answer samples s) =
      balance t s + (if answer = LostAnswer then sampled t samples else 0)"
proof -
  have nonneg: "list_all (\<lambda>x. 0 \<le> sa_bytes x) samples" using assms by (simp add: traffic_inv_def)
  show "traffic_inv (publish_end answer samples s)"
    using assms by (cases answer) (simp_all add: publish_end_def traffic_inv_def restore_ok Let_def)
  show "balance t (publish_end answer samples s) =
      balance t s + (if answer = LostAnswer then sampled t samples else 0)"
    using assms(2) restore_get [OF nonneg, of "tm_received s" t]
    by (cases answer) (simp_all add: publish_end_def balance_def counted_def published_def Let_def sampled_def [of t "[]"])
qed

lemma sampled_nonneg: "list_all (\<lambda>x. 0 \<le> sa_bytes x) samples \<Longrightarrow> 0 \<le> sampled t samples"
  by (induction samples) (auto simp: sampled_def)

lemma balance_unchanged [simp]:
  "balance t (s\<lparr>tm_chain := n\<rparr>) = balance t s"
  "balance t (s\<lparr>tm_timer := b\<rparr>) = balance t s"
  "balance t (s\<lparr>tm_serving := m\<rparr>) = balance t s"
  "traffic_inv (s\<lparr>tm_chain := n\<rparr>) = traffic_inv s"
  "traffic_inv (s\<lparr>tm_timer := b\<rparr>) = traffic_inv s"
  "traffic_inv (s\<lparr>tm_serving := m\<rparr>) = traffic_inv s"
  by (simp_all add: balance_def published_def counted_def traffic_inv_def)

lemma record_inv:
  assumes "traffic_inv s"
  shows "traffic_inv (recordReceived k (int n) s)"
    "balance t (recordReceived k (int n) s) = balance t s + (if k = t then int n else 0)"
  using assms
  by (simp_all add: recordReceived_def traffic_inv_def count_bytes_ok balance_def published_def counted_def
      count_bytes_get)

text \<open>One step: the balance grows by what is recorded, and beyond that only when an answer is lost.\<close>

lemma step_inv:
  assumes "traffic_inv s"
  shows "traffic_inv (traffic_step e s)"
    and "balance t s + recorded t [e] \<le> balance t (traffic_step e s)"
    and "e \<noteq> Answered LostAnswer \<Longrightarrow> balance t (traffic_step e s) = balance t s + recorded t [e]"
proof -
  have "traffic_inv (traffic_step e s) \<and> balance t s + recorded t [e] \<le> balance t (traffic_step e s) \<and>
      (e \<noteq> Answered LostAnswer \<longrightarrow> balance t (traffic_step e s) = balance t s + recorded t [e])"
  proof (cases e)
    case (Answered answer)
    show ?thesis
    proof (cases "tm_in_flight s")
      case (Some samples)
      have "0 \<le> sampled t samples"
        using assms Some by (intro sampled_nonneg) (simp add: traffic_inv_def)
      then show ?thesis
        using end_inv [OF assms Some] by (simp add: Answered Some)
    qed (simp add: Answered assms)
  next
    case (NextLink at)
    then show ?thesis
      using assms begin_inv(1) [of "s\<lparr>tm_chain := tm_chain s - 1\<rparr>" at]
        begin_inv(2) [of "s\<lparr>tm_chain := tm_chain s - 1\<rparr>" t at] by simp
  qed (simp_all add: assms record_inv traffic_start_def traffic_stop_def publish_def traffic_setServing_def)
  then show "traffic_inv (traffic_step e s)"
    and "balance t s + recorded t [e] \<le> balance t (traffic_step e s)"
    and "e \<noteq> Answered LostAnswer \<Longrightarrow> balance t (traffic_step e s) = balance t s + recorded t [e]"
    by auto
qed

lemma recorded_Cons: "recorded t (e # es) = recorded t [e] + recorded t es"
  by (cases e) simp_all

lemma run_inv:
  assumes "traffic_inv s"
  shows "traffic_inv (fold traffic_step es s)"
    and "balance t s + recorded t es \<le> balance t (fold traffic_step es s)"
    and "\<not> List.member es (Answered LostAnswer) \<Longrightarrow>
      balance t (fold traffic_step es s) = balance t s + recorded t es"
  using assms
proof (induction es arbitrary: s)
  case (Cons e es)
  {
    case 1
    show ?case using Cons(1) step_inv(1) [OF 1, of e] by simp
  next
    case 2
    show ?case
      using Cons(2) [OF step_inv(1) [OF 2, of e]] step_inv(2) [OF 2, where t = t and e = e]
      by (simp add: recorded_Cons [of t e es])
  next
    case 3
    show ?case
      using Cons(3) [OF _ step_inv(1) [OF 3(2), of e]] step_inv(3) [OF 3(2), where t = t and e = e] 3(1)
      by (auto simp: recorded_Cons [of t e es])
  }
qed simp_all

section \<open>Properties\<close>

text \<open>C25. Traffic is never under-reported: after any sequence of starts, stops, timer ticks, recorded
  bytes, publishes and answers, in any interleaving, what was recorded on a transport is covered
  by what reached CloudWatch and what is still counted or in flight. Unless an answer was lost -
  a request that reached CloudWatch and was reported as failed - the two are equal, so no byte
  is counted twice either.\<close>

theorem traffic_conserved:
  "(let s = traffic_run stackName events; reported = published transport s + counted transport s
    in recorded transport events \<le> reported \<and>
       (if List.member events (Answered LostAnswer) then True else reported = recorded transport events))"
proof -
  have "balance transport (new_traffic stackName) = 0"
    by (simp add: balance_def published_def counted_def new_traffic_def sampled_def nullish_def)
  then show ?thesis
    using run_inv(2) [OF traffic_inv_new, where t = transport and es = events and stackName1 = stackName]
      run_inv(3) [OF traffic_inv_new, where t = transport and es = events and stackName1 = stackName]
    by (simp add: Let_def traffic_run_def balance_def)
qed


definition reports :: "js_string \<Rightarrow> js_string \<Rightarrow> metric_request \<Rightarrow> int list" where
  "reports name transport r =
     map Value (filter (\<lambda>d. MetricName d = name \<and> Dimensions d = [(transport_dimension, transport)]) (MetricData r))"

definition samples_of :: "js_string \<Rightarrow> traffic_sample list \<Rightarrow> traffic_sample list" where
  "samples_of transport samples = filter (\<lambda>x. sa_transport x = transport) samples"

lemma reports_request:
  "reports received_bytes_metric t (trafficMetricRequest samples stack) = map sa_bytes (samples_of t samples)"
  "reports serving_metric t (trafficMetricRequest samples stack) = map sa_serving (samples_of t samples)"
  by (induction samples)
    (auto simp: reports_def trafficMetricRequest_def samples_of_def sample_data_def Let_def
      received_bytes_metric_def serving_metric_def)

lemma samples_of_snapshot:
  "js_map_ok m \<Longrightarrow> samples_of t (map (\<lambda>(k, b). \<lparr>sa_transport = k, sa_bytes = b, sa_serving = f k, sa_at = at\<rparr>) m) =
    (case map_of m t of None \<Rightarrow> [] | Some b \<Rightarrow> [\<lparr>sa_transport = t, sa_bytes = b, sa_serving = f t, sa_at = at\<rparr>])"
proof (induction m)
  case (Cons x m)
  then show ?case by (cases x) (auto simp: samples_of_def js_map_ok_Cons)
qed (simp add: samples_of_def)

text \<open>One sample of a transport, with a count and a flag.\<close>

definition one_sample :: "js_string \<Rightarrow> traffic_sample list \<Rightarrow> bool" where
  "one_sample t samples \<longleftrightarrow>
     (case samples_of t samples of [x] \<Rightarrow> 0 \<le> sa_bytes x \<and> (sa_serving x = 0 \<or> sa_serving x = 1) | _ \<Rightarrow> False)"

definition whole_request :: "js_string \<Rightarrow> metric_request \<Rightarrow> bool" where
  "whole_request stackName r \<longleftrightarrow>
     Namespace r = trafficMetricNamespace stackName \<and>
     list_all (\<lambda>t. (case reports received_bytes_metric t r of [n] \<Rightarrow> 0 \<le> n | _ \<Rightarrow> False) \<and>
                   (case reports serving_metric t r of [b] \<Rightarrow> b = 0 \<or> b = 1 | _ \<Rightarrow> False))
       [unencrypted_transport, srtp_transport]"

definition requests_inv :: "js_string \<Rightarrow> traffic \<Rightarrow> bool" where
  "requests_inv stackName s \<longleftrightarrow>
     tm_stack s = stackName \<and> list_all (whole_request stackName) (tm_landed s) \<and>
     (case tm_in_flight s of None \<Rightarrow> True
      | Some samples \<Rightarrow> one_sample unencrypted_transport samples \<and> one_sample srtp_transport samples)"

lemma request_namespace: "Namespace (trafficMetricRequest samples stack) = trafficMetricNamespace stack"
  by (simp add: trafficMetricRequest_def)

lemma whole_request_samples:
  "one_sample unencrypted_transport samples \<Longrightarrow> one_sample srtp_transport samples \<Longrightarrow>
    whole_request stack (trafficMetricRequest samples stack)"
  by (simp add: whole_request_def reports_request one_sample_def request_namespace split: list.splits)

lemma one_sample_snapshot:
  assumes "traffic_inv s" "js_has (tm_received s) t"
  shows "one_sample t (snapshot at s)"
proof -
  obtain b where b: "map_of (tm_received s) t = Some b" using assms(2) by (auto simp: js_has_def)
  have "0 \<le> b" using assms(1) map_of_SomeD [OF b] by (auto simp: traffic_inv_def list_all_iff)
  then show ?thesis
    using assms(1) samples_of_snapshot [of "tm_received s" t] b
    by (simp add: one_sample_def snapshot_def traffic_inv_def)
qed

lemma requests_step:
  assumes "traffic_inv s" "requests_inv stackName s"
  shows "requests_inv stackName (traffic_step e s)"
proof (cases e)
  case (Answered answer)
  then show ?thesis
    using assms(2)
    by (cases answer)
      (auto simp: requests_inv_def publish_end_def Let_def split: option.split intro!: whole_request_samples)
next
  case (NextLink at)
  have "one_sample unencrypted_transport (snapshot at (s\<lparr>tm_chain := n\<rparr>))"
    "one_sample srtp_transport (snapshot at (s\<lparr>tm_chain := n\<rparr>))" for n
    using assms(1) by (auto simp: traffic_inv_def intro!: one_sample_snapshot)
  then show ?thesis
    using assms(2) NextLink by (auto simp: requests_inv_def publish_begin_def)
qed (use assms in \<open>auto simp: requests_inv_def traffic_start_def traffic_stop_def publish_def
      recordReceived_def traffic_setServing_def\<close>)

lemma requests_run:
  "traffic_inv s \<Longrightarrow> requests_inv stackName s \<Longrightarrow> requests_inv stackName (fold traffic_step es s)"
  by (induction es arbitrary: s) (simp_all add: requests_step step_inv(1))

text \<open>Every request that reaches CloudWatch, an idle or an unbound transport's included, reports
  both transports under the stack's namespace: one byte count, zero or more, and one serving
  flag each - so a gap in a metric is a gap of this instance.\<close>

theorem requests_report_both_transports:
  "list_all (whole_request (nullish stackName (js ''local''))) (tm_landed (traffic_run stackName events))"
proof -
  have "requests_inv (nullish stackName (js ''local'')) (new_traffic stackName)"
    by (simp add: requests_inv_def new_traffic_def)
  from requests_run [OF traffic_inv_new this, of events] show ?thesis
    by (simp add: requests_inv_def traffic_run_def)
qed

end
