(* ===== verification/Pipeline.thy ===== *)
theory Pipeline
imports Json
begin

text \<open>
  The unencrypted pipeline (\<open>backend/src/KinesisIngestionPipeline.ts\<close>): one GStreamer process
  per port, started through a FIFO and fed with packets. A start runs from await to await, so it
  is three operations: the call, the answer of the credential provider and the opened FIFO; what
  a process does - it exits, it fails, its input drains - are events of their own. A process is
  the number of its spawn; \<open>pl_running\<close> is the processes that have not exited, which no code
  reads. A packet is its bytes.

  Shown: whatever the reorder buffer's size, packets are written at once and in the order of
  their arrival, none lost or repeated, and draining ends; concurrent starts of a port make one
  process; and the exit of a stopped process takes the pipeline of its successor with it, which
  nobody owns from then on.
\<close>

section \<open>Configuration\<close>

type_synonym packet = "nat list"

record pipeline_config =
  streamNamePrefix :: js_string
  pl_region :: js_string
  pl_range_start :: int
  pl_range_end :: int
  reorderBufferSize :: "int option"
  logGstreamerOutput :: "bool option"

definition default_reorder_buffer_size :: int where "default_reorder_buffer_size = 128"

definition max_buffer :: "pipeline_config \<Rightarrow> int" where
  "max_buffer c = nullish (reorderBufferSize c) default_reorder_buffer_size"

definition streamNameForPort :: "pipeline_config \<Rightarrow> int \<Rightarrow> js_string" where
  "streamNameForPort c port = streamNamePrefix c @ js ''-'' @ int_string port"

definition isPortInRange :: "pipeline_config \<Rightarrow> int \<Rightarrow> bool" where
  "isPortInRange c port \<longleftrightarrow> port \<ge> pl_range_start c \<and> port \<le> pl_range_end c"

section \<open>Logging of the process's output\<close>

definition lower :: "nat \<Rightarrow> nat" where
  "lower ch = (if 65 \<le> ch \<and> ch \<le> 90 then ch + 32 else ch)"

text \<open>Case-insensitive search; what follows the first occurrence.\<close>

fun after_match :: "js_string \<Rightarrow> js_string \<Rightarrow> js_string option" where
  "after_match pat [] = (if pat = [] then Some [] else None)"
| "after_match pat (ch # s) =
     (if map lower (take (length pat) (ch # s)) = map lower pat then Some (drop (length pat) (ch # s))
      else after_match pat s)"

definition contains :: "string \<Rightarrow> js_string \<Rightarrow> bool" where
  "contains pat s \<longleftrightarrow> after_match (js pat) s \<noteq> None"

text \<open>\<open>/a.*b/i\<close>: the part between the two has no line terminator.\<close>

definition follows :: "string \<Rightarrow> js_string \<Rightarrow> bool" where
  "follows pat s =
     contains pat (takeWhile (\<lambda>ch. ch \<noteq> 10 \<and> ch \<noteq> 13 \<and> ch \<noteq> 8232 \<and> ch \<noteq> 8233) s)"

fun contains_seq :: "string \<Rightarrow> string \<Rightarrow> js_string \<Rightarrow> bool" where
  "contains_seq a b [] = False"
| "contains_seq a b (ch # s) =
     ((map lower (take (length a) (ch # s)) = map lower (js a) \<and> follows b (drop (length a) (ch # s))) \<or>
      contains_seq a b s)"

text \<open>\<open>/CONTINUITY:\s*Mismatch/i\<close>.\<close>

fun continuity_mismatch :: "js_string \<Rightarrow> bool" where
  "continuity_mismatch [] = False"
| "continuity_mismatch (ch # s) =
     ((map lower (take 11 (ch # s)) = map lower (js ''CONTINUITY:'') \<and>
       map lower (take 8 (dropWhile js_space (drop 11 (ch # s)))) = map lower (js ''Mismatch'')) \<or>
      continuity_mismatch s)"

datatype gst_category = ErrorLine | WarningLine | Continuity | KvsPutFrame | WriteResource

definition stderr_category :: "js_string \<Rightarrow> gst_category option" where
  "stderr_category line =
     (if contains ''error'' line then Some ErrorLine
      else if contains ''warning'' line \<or> contains ''WARN'' line then Some WarningLine
      else None)"

definition stdout_skipped :: "js_string \<Rightarrow> bool" where
  "stdout_skipped line \<longleftrightarrow>
     contains ''streamLatencyPressure'' line \<or> contains ''droppedFrame callback'' line \<or>
     contains_seq ''viewItemRemoved'' ''Reporting a dropped frame/fragment'' line \<or>
     contains ''Failed to submit ACK'' line \<or> contains ''0x52000047'' line \<or> contains ''status code: 0x52'' line"

definition stdout_category :: "js_string \<Rightarrow> gst_category option" where
  "stdout_category line =
     (if continuity_mismatch line then Some Continuity
      else if contains ''0x30000005'' line \<or> contains_seq ''putKinesisVideoFrame'' ''Failed'' line \<or>
        contains_seq ''Put frame'' ''failed'' line
      then Some KvsPutFrame
      else if contains ''Could not write to resource'' line then Some WriteResource
      else None)"

definition gst_throttle_ms :: int where "gst_throttle_ms = 60000"

type_synonym throttle = "(gst_category, int) js_map"

text \<open>One line: whether it is logged, and the throttle.\<close>

definition throttle_line :: "int \<Rightarrow> gst_category option \<Rightarrow> throttle \<Rightarrow> bool \<times> throttle" where
  "throttle_line now category th =
     (case category of
        None \<Rightarrow> (True, th)
      | Some k \<Rightarrow>
          (if now - nullish (map_of th k) 0 < gst_throttle_ms then (False, th)
           else (True, AList.update k now th)))"

text \<open>The lines of a chunk, each trimmed (which drops the carriage return of \<open>\r\n\<close>).\<close>

fun log_lines ::
  "(js_string \<Rightarrow> gst_category option) \<Rightarrow> nat \<Rightarrow> int \<Rightarrow> js_string list \<Rightarrow> throttle \<Rightarrow> js_string list \<times> throttle"
where
  "log_lines categorize limit now [] th = ([], th)"
| "log_lines categorize limit now (raw # lines) th =
     (let line = js_trim raw in
      if line = [] then log_lines categorize limit now lines th
      else
        (case throttle_line now (categorize line) th of
           (logged, th') \<Rightarrow>
             apfst ((@) (if logged then [take limit line] else [])) (log_lines categorize limit now lines th')))"

definition logGstStderr :: "pipeline_config \<Rightarrow> int \<Rightarrow> js_string \<Rightarrow> throttle \<Rightarrow> js_string list \<times> throttle" where
  "logGstStderr c now text th =
     (if logGstreamerOutput c \<noteq> Some True then ([], th)
      else log_lines stderr_category 500 now (split_lines text) th)"

definition logGstStdout :: "pipeline_config \<Rightarrow> int \<Rightarrow> js_string \<Rightarrow> throttle \<Rightarrow> js_string list \<times> throttle" where
  "logGstStdout c now text th =
     (if logGstreamerOutput c \<noteq> Some True then ([], th)
      else log_lines stdout_category 1000 now
             (filter (\<lambda>raw. \<not> stdout_skipped (js_trim raw)) (split_lines text)) th)"


section \<open>Starting the process\<close>

text \<open>The environment as far as it is read; the rest of it is passed on unchanged.\<close>

record gst_env =
  KINESIS_GST_PLUGIN_PATH :: "js_string option"
  KINESIS_LD_LIBRARY_PATH :: "js_string option"
  GST_KVS_LOG_CONFIG_PATH :: "js_string option"

record gst_credentials =
  gc_access_key_id :: js_string
  gc_secret_access_key :: js_string
  gc_session_token :: "js_string option"

text \<open>The variables that are set over the inherited environment.\<close>

definition gst_env_set :: "pipeline_config \<Rightarrow> gst_env \<Rightarrow> gst_credentials \<Rightarrow> (js_string \<times> js_string) list" where
  "gst_env_set c env cr =
     [(js ''AWS_ACCESS_KEY_ID'', gc_access_key_id cr), (js ''AWS_SECRET_ACCESS_KEY'', gc_secret_access_key cr)] @
     (case gc_session_token cr of
        None \<Rightarrow> []
      | Some t \<Rightarrow> (if t = [] then [] else [(js ''AWS_SESSION_TOKEN'', t)])) @
     [(js ''AWS_REGION'', pl_region c)] @
     (case KINESIS_GST_PLUGIN_PATH env of None \<Rightarrow> [] | Some p \<Rightarrow> [(js ''GST_PLUGIN_PATH'', p)]) @
     (case KINESIS_LD_LIBRARY_PATH env of None \<Rightarrow> [] | Some p \<Rightarrow> [(js ''LD_LIBRARY_PATH'', p)])"

definition shell_command :: "pipeline_config \<Rightarrow> gst_env \<Rightarrow> int \<Rightarrow> js_string \<Rightarrow> js_string" where
  "shell_command c env port fifoPath =
     js ''gst-launch-1.0 filesrc location='' @ [34] @ fifoPath @ [34] @
     js '' ! capsfilter caps='' @ [34] @ js ''video/mpegts,systemstream=(boolean)true'' @ [34] @
     js '' ! queue ! tsparse set-timestamps=true ! tsdemux name=d d. ! queue ! h264parse ! capsfilter caps='' @
     [34] @ js ''video/x-h264,stream-format=avc,alignment=au'' @ [34] @ js '' ! kvssink stream-name='' @
     [34] @ streamNameForPort c port @ [34] @ js '' aws-region='' @ [34] @ pl_region c @ [34] @
     js '' storage-size=128 log-config='' @ [34] @
     nullish (GST_KVS_LOG_CONFIG_PATH env) (js ''/opt/video-streaming/kvs_log_configuration'') @ [34]"

section \<open>State\<close>

record reorder =
  nextSeq :: nat
  nextToEmit :: nat
  ro_buffer :: "(nat, packet) js_map"

definition new_reorder :: reorder where
  "new_reorder = \<lparr>nextSeq = 0, nextToEmit = 1, ro_buffer = []\<rparr>"

text \<open>A running pipeline; \<open>pp_input\<close> is what was written to the stream, \<open>pp_writable\<close> whether it can
  be written.\<close>

record pipe =
  pp_process :: nat
  pp_reorder :: reorder
  pp_input :: "packet list"
  pp_writable :: bool

datatype start_phase = Resolving nat | Opening nat

record pending_start =
  pd_phase :: start_phase
  pd_initial :: "packet option"

datatype pipeline_effect =
    Spawned int nat
  | EndedInput int nat "packet list"
  | PipelineExited int
  | StartRejected int
  | Terminate nat
  | Uncaught nat

record pipelines =
  pl_active :: "(int, pipe) js_map"
  pl_pending :: "(int, pending_start) js_map"
  pl_spawned :: nat
  pl_attached :: "nat list"
  pl_running :: "(nat \<times> int) list"
  pl_effects :: "pipeline_effect list"

definition new_pipelines :: pipelines where
  "new_pipelines = \<lparr>pl_active = [], pl_pending = [], pl_spawned = 0, pl_attached = [], pl_running = [], pl_effects = []\<rparr>"

definition did :: "pipeline_effect \<Rightarrow> pipelines \<Rightarrow> pipelines" where
  "did e s = s\<lparr>pl_effects := pl_effects s @ [e]\<rparr>"

text \<open>How a call of \<open>start\<close> goes on: it returns at once, it waits for a start that is under way, or
  it has begun one.\<close>

datatype start_call = Returned | Joined | Begun

definition pipeline_start :: "pipeline_config \<Rightarrow> int \<Rightarrow> packet option \<Rightarrow> pipelines \<Rightarrow> start_call \<times> pipelines" where
  "pipeline_start c port initialData s =
     (if \<not> isPortInRange c port then (Returned, s)
      else if js_has (pl_active s) port then (Returned, s)
      else if js_has (pl_pending s) port then (Joined, s)
      else (Begun, s\<lparr>pl_pending := AList.update port \<lparr>pd_phase = Resolving 1, pd_initial = initialData\<rparr> (pl_pending s)\<rparr>))"

definition max_resolution_attempts :: nat where "max_resolution_attempts = 3"

definition settle :: "int \<Rightarrow> pipelines \<Rightarrow> pipelines" where
  "settle port s = s\<lparr>pl_pending := AList.delete port (pl_pending s)\<rparr>"

text \<open>The credential provider has answered; with credentials the FIFO is made (or not) and the
  process spawned. A failure ends the start without an error.\<close>

definition credentials_answered :: "int \<Rightarrow> bool \<Rightarrow> bool \<Rightarrow> pipelines \<Rightarrow> pipelines" where
  "credentials_answered port resolved fifo_made s =
     (case map_of (pl_pending s) port of
        Some pd \<Rightarrow>
          (case pd_phase pd of
             Resolving attempt \<Rightarrow>
               (if \<not> resolved then
                  (if attempt = max_resolution_attempts then settle port s
                   else s\<lparr>pl_pending := AList.update port (pd\<lparr>pd_phase := Resolving (Suc attempt)\<rparr>) (pl_pending s)\<rparr>)
                else if \<not> fifo_made then settle port s
                else
                  did (Spawned port (pl_spawned s))
                    (s\<lparr>pl_pending := AList.update port (pd\<lparr>pd_phase := Opening (pl_spawned s)\<rparr>) (pl_pending s),
                       pl_running := (pl_spawned s, port) # pl_running s,
                       pl_spawned := Suc (pl_spawned s)\<rparr>))
           | Opening p \<Rightarrow> s)
      | None \<Rightarrow> s)"

text \<open>\<open>fs.open\<close> and the write of the initial data have ended, well or with an error.\<close>

definition fifo_opened :: "int \<Rightarrow> bool \<Rightarrow> pipelines \<Rightarrow> pipelines" where
  "fifo_opened port ok s =
     (case map_of (pl_pending s) port of
        Some pd \<Rightarrow>
          (case pd_phase pd of
             Opening process \<Rightarrow>
               (if \<not> ok then settle port (did (StartRejected port) s)
                else
                  settle port
                    (s\<lparr>pl_attached := process # pl_attached s,
                       pl_active := AList.update port
                         \<lparr>pp_process = process, pp_reorder = new_reorder,
                          pp_input = (case pd_initial pd of
                                        None \<Rightarrow> [] | Some d \<Rightarrow> (if d = [] then [] else [d])),
                          pp_writable = True\<rparr> (pl_active s)\<rparr>))
           | Resolving attempt \<Rightarrow> s)
      | None \<Rightarrow> s)"

text \<open>The process's \<open>exit\<close> and \<open>error\<close>; their listeners are attached once the FIFO is open, and
  look only at the port. An \<open>error\<close> before that has no listener and is thrown.\<close>

definition gst_exit :: "int \<Rightarrow> nat \<Rightarrow> pipelines \<Rightarrow> pipelines" where
  "gst_exit port process s0 =
     (let s = s0\<lparr>pl_running := filter (\<lambda>r. r \<noteq> (process, port)) (pl_running s0)\<rparr> in
      if \<not> List.member (pl_attached s) process then s
      else
        (let wasUnexpected = js_has (pl_active s) port;
             s1 = s\<lparr>pl_active := AList.delete port (pl_active s)\<rparr>
         in if wasUnexpected then did (PipelineExited port) s1 else s1))"

definition gst_error :: "int \<Rightarrow> nat \<Rightarrow> pipelines \<Rightarrow> pipelines" where
  "gst_error port process s =
     (if \<not> List.member (pl_attached s) process then did (Uncaught process) s
      else s\<lparr>pl_active := AList.delete port (pl_active s)\<rparr>)"

section \<open>Writing\<close>

text \<open>\<open>accepts\<close> is what \<open>write\<close> returns when the last of the given packets is written: false asks to
  wait for a drain, the packet is queued by the stream all the same.\<close>

function drain_loop ::
  "(packet list \<Rightarrow> bool) \<Rightarrow> reorder \<Rightarrow> packet list \<Rightarrow> bool \<times> reorder \<times> packet list"
where
  "drain_loop accepts r input =
     (case map_of (ro_buffer r) (nextToEmit r) of
        None \<Rightarrow> (True, r, input)
      | Some data \<Rightarrow>
          (let r' = r\<lparr>ro_buffer := AList.delete (nextToEmit r) (ro_buffer r), nextToEmit := Suc (nextToEmit r)\<rparr>
           in if accepts (input @ [data]) then drain_loop accepts r' (input @ [data])
              else (False, r', input @ [data])))"
  by pat_completeness auto
termination
proof (relation "measure (\<lambda>(accepts, r, input). length (ro_buffer r))")
  fix accepts :: "packet list \<Rightarrow> bool" and r input data r'
  assume "map_of (ro_buffer r) (nextToEmit r) = Some data"
    and r': "r' = r\<lparr>ro_buffer := AList.delete (nextToEmit r) (ro_buffer r), nextToEmit := Suc (nextToEmit r)\<rparr>"
  then have "length (AList.delete (nextToEmit r) (ro_buffer r)) < length (ro_buffer r)"
    by (auto simp: AList.delete_eq intro!: length_filter_less dest: map_of_SomeD)
  then show "((accepts, r', input @ [data]), (accepts, r, input)) \<in> measure (\<lambda>(accepts, r, input). length (ro_buffer r))"
    by (simp add: r')
qed simp

declare drain_loop.simps [simp del]

text \<open>Skipping missing packets counts up to a buffered one; with only older ones left it would not
  end, so the value is then None.\<close>

partial_function (option) skip_missing :: "reorder \<Rightarrow> reorder option" where
  "skip_missing r =
     (if \<not> js_has (ro_buffer r) (nextToEmit r) \<and> ro_buffer r \<noteq> []
      then skip_missing (r\<lparr>nextToEmit := Suc (nextToEmit r)\<rparr>) else Some r)"

partial_function (option) drain ::
  "int \<Rightarrow> (packet list \<Rightarrow> bool) \<Rightarrow> reorder \<Rightarrow> packet list \<Rightarrow> (reorder \<times> packet list) option"
where
  "drain maxBuf accepts r input =
     (let (all, r1, input1) = drain_loop accepts r input in
      if \<not> all then Some (r1, input1)
      else if maxBuf > 0 \<and> int (length (ro_buffer r1)) \<ge> maxBuf then
        (case skip_missing r1 of
           None \<Rightarrow> None
         | Some r2 \<Rightarrow> drain maxBuf accepts r2 input1)
      else Some (r1, input1))"

definition set_pipe :: "int \<Rightarrow> pipe \<Rightarrow> pipelines \<Rightarrow> pipelines" where
  "set_pipe port p s = s\<lparr>pl_active := AList.update port p (pl_active s)\<rparr>"

definition writePacket ::
  "pipeline_config \<Rightarrow> (packet list \<Rightarrow> bool) \<Rightarrow> int \<Rightarrow> packet \<Rightarrow> pipelines \<Rightarrow> pipelines option"
where
  "writePacket c accepts port data s =
     (case map_of (pl_active s) port of
        None \<Rightarrow> Some s
      | Some p \<Rightarrow>
          (if \<not> pp_writable p then Some s
           else if max_buffer c \<le> 0 then Some (set_pipe port (p\<lparr>pp_input := pp_input p @ [data]\<rparr>) s)
           else
             (let r = (pp_reorder p)\<lparr>nextSeq := Suc (nextSeq (pp_reorder p)),
                        ro_buffer := AList.update (Suc (nextSeq (pp_reorder p))) data (ro_buffer (pp_reorder p))\<rparr>
              in case drain (max_buffer c) accepts r (pp_input p) of
                   None \<Rightarrow> None
                 | Some (r', input) \<Rightarrow> Some (set_pipe port (p\<lparr>pp_reorder := r', pp_input := input\<rparr>) s))))"

text \<open>The input stream's \<open>drain\<close> event, for the pipeline that is active on the port by then.\<close>

definition input_drained ::
  "pipeline_config \<Rightarrow> (packet list \<Rightarrow> bool) \<Rightarrow> int \<Rightarrow> pipelines \<Rightarrow> pipelines option"
where
  "input_drained c accepts port s =
     (case map_of (pl_active s) port of
        None \<Rightarrow> Some s
      | Some p \<Rightarrow>
          (case drain (max_buffer c) accepts (pp_reorder p) (pp_input p) of
             None \<Rightarrow> None
           | Some (r', input) \<Rightarrow> Some (set_pipe port (p\<lparr>pp_reorder := r', pp_input := input\<rparr>) s)))"

text \<open>The stream has failed or was closed.\<close>

definition input_failed :: "int \<Rightarrow> pipelines \<Rightarrow> pipelines" where
  "input_failed port s =
     (case map_of (pl_active s) port of None \<Rightarrow> s | Some p \<Rightarrow> set_pipe port (p\<lparr>pp_writable := False\<rparr>) s)"

section \<open>Stopping\<close>

text \<open>\<open>stop\<close> up to its wait for the exit: the buffer is flushed and the input ended. Whether it goes
  on, and with which process, is the first value.\<close>

definition pipeline_stop :: "int \<Rightarrow> pipelines \<Rightarrow> nat option \<times> pipelines" where
  "pipeline_stop port s =
     (case map_of (pl_active s) port of
        None \<Rightarrow> (None, s)
      | Some p \<Rightarrow>
          (let s1 = s\<lparr>pl_active := AList.delete port (pl_active s)\<rparr>
           in (Some (pp_process p),
               if pp_writable p
               then did (EndedInput port (pp_process p)
                          (snd (snd (drain_loop (\<lambda>_. True) (pp_reorder p) (pp_input p))))) s1
               else s1)))"

text \<open>Its end, after the exit or fifteen seconds.\<close>

definition pipeline_stopped :: "int \<Rightarrow> nat \<Rightarrow> pipelines \<Rightarrow> pipelines" where
  "pipeline_stopped port process s = did (Terminate process) s"

text \<open>\<open>stopAll\<close>: every port's stop runs up to its wait before any of them goes on.\<close>

definition pipeline_stopAll :: "pipelines \<Rightarrow> pipelines" where
  "pipeline_stopAll s = fold (\<lambda>port s. snd (pipeline_stop port s)) (js_keys (pl_active s)) s"

section \<open>Runs\<close>

datatype pipeline_event =
    CallStart int "packet option"
  | CredentialsAnswered int bool bool
  | FifoOpened int bool
  | GstExit int nat
  | GstError int nat
  | Packet int packet "packet list \<Rightarrow> bool"
  | InputDrained int "packet list \<Rightarrow> bool"
  | InputFailed int
  | CallStop int
  | StopWaited int nat
  | CallStopAll

fun pipeline_step :: "pipeline_config \<Rightarrow> pipeline_event \<Rightarrow> pipelines \<Rightarrow> pipelines option" where
  "pipeline_step c (CallStart port initialData) s = Some (snd (pipeline_start c port initialData s))"
| "pipeline_step c (CredentialsAnswered port resolved fifo_made) s =
     Some (credentials_answered port resolved fifo_made s)"
| "pipeline_step c (FifoOpened port ok) s = Some (fifo_opened port ok s)"
| "pipeline_step c (GstExit port process) s = Some (gst_exit port process s)"
| "pipeline_step c (GstError port process) s = Some (gst_error port process s)"
| "pipeline_step c (Packet port data accepts) s = writePacket c accepts port data s"
| "pipeline_step c (InputDrained port accepts) s = input_drained c accepts port s"
| "pipeline_step c (InputFailed port) s = Some (input_failed port s)"
| "pipeline_step c (CallStop port) s = Some (snd (pipeline_stop port s))"
| "pipeline_step c (StopWaited port process) s = Some (pipeline_stopped port process s)"
| "pipeline_step c CallStopAll s = Some (pipeline_stopAll s)"

fun pipeline_run :: "pipeline_config \<Rightarrow> pipeline_event list \<Rightarrow> pipelines \<Rightarrow> pipelines option" where
  "pipeline_run c [] s = Some s"
| "pipeline_run c (e # es) s =
     (case pipeline_step c e s of None \<Rightarrow> None | Some s' \<Rightarrow> pipeline_run c es s')"

section \<open>The reorder buffer\<close>

text \<open>Between two operations nothing is buffered.\<close>

definition settled :: "reorder \<Rightarrow> bool" where
  "settled r \<longleftrightarrow> ro_buffer r = [] \<and> nextToEmit r = Suc (nextSeq r)"

lemma settled_new [simp]: "settled new_reorder"
  by (simp add: settled_def new_reorder_def)

lemma drain_loop_empty: "ro_buffer r = [] \<Longrightarrow> drain_loop accepts r input = (True, r, input)"
  by (subst drain_loop.simps) simp

lemma drain_settled: "settled r \<Longrightarrow> drain maxBuf accepts r input = Some (r, input)"
  by (subst drain.simps) (auto simp: settled_def drain_loop_empty)

lemma drain_one:
  assumes "settled r"
  shows "drain maxBuf accepts (r\<lparr>nextSeq := Suc (nextSeq r), ro_buffer := AList.update (Suc (nextSeq r)) data (ro_buffer r)\<rparr>)
      input = Some (\<lparr>nextSeq = Suc (nextSeq r), nextToEmit = Suc (Suc (nextSeq r)), ro_buffer = []\<rparr>, input @ [data])"
proof -
  let ?r = "r\<lparr>nextSeq := Suc (nextSeq r), ro_buffer := AList.update (Suc (nextSeq r)) data (ro_buffer r)\<rparr>"
  let ?r' = "\<lparr>nextSeq = Suc (nextSeq r), nextToEmit = Suc (Suc (nextSeq r)), ro_buffer = []\<rparr>"
  have one: "drain_loop accepts ?r input =
      (if accepts (input @ [data]) then drain_loop accepts ?r' (input @ [data]) else (False, ?r', input @ [data]))"
    using assms by (subst drain_loop.simps) (cases r, simp add: settled_def)
  then show ?thesis
    by (subst drain.simps) (auto simp: drain_loop_empty)
qed

text \<open>What is left of a state when the buffers are forgotten, and the plain pipeline without them.\<close>

definition plain_pipe :: "pipe \<Rightarrow> pipe" where
  "plain_pipe p = p\<lparr>pp_reorder := new_reorder\<rparr>"

definition plain :: "pipelines \<Rightarrow> pipelines" where
  "plain s = s\<lparr>pl_active := map (\<lambda>(port, p). (port, plain_pipe p)) (pl_active s)\<rparr>"

definition all_settled :: "pipelines \<Rightarrow> bool" where
  "all_settled s \<longleftrightarrow> list_all (\<lambda>(port, p). settled (pp_reorder p)) (pl_active s)"

definition plain_write :: "int \<Rightarrow> packet \<Rightarrow> pipelines \<Rightarrow> pipelines" where
  "plain_write port data s =
     (case map_of (pl_active s) port of
        Some p \<Rightarrow> (if pp_writable p then set_pipe port (p\<lparr>pp_input := pp_input p @ [data]\<rparr>) s else s)
      | None \<Rightarrow> s)"

lemma map_of_plain: "map_of (map (\<lambda>(k, p). (k, f p)) m) k = map_option f (map_of m k)"
  by (induction m) auto

lemma js_has_plain: "js_has (map (\<lambda>(k, p). (k, f p)) m) k = js_has m k"
  by (simp add: js_has_def map_of_plain)

lemma update_plain: "AList.update k (f v) (map (\<lambda>(k, p). (k, f p)) m) = map (\<lambda>(k, p). (k, f p)) (AList.update k v m)"
  by (induction m) auto

lemma delete_plain: "AList.delete k (map (\<lambda>(k, p). (k, f p)) m) = map (\<lambda>(k, p). (k, f p)) (AList.delete k m)"
  by (induction m) auto

lemma js_keys_plain: "js_keys (map (\<lambda>(k, p). (k, f p)) m) = js_keys m"
  by (induction m) (auto simp: js_keys_def)

lemma settled_of: "all_settled s \<Longrightarrow> map_of (pl_active s) port = Some p \<Longrightarrow> settled (pp_reorder p)"
  by (auto simp: all_settled_def list_all_iff dest: map_of_SomeD)

lemma settled_update:
  "list_all (\<lambda>(port, p). settled (pp_reorder p)) m \<Longrightarrow> settled (pp_reorder p) \<Longrightarrow>
    list_all (\<lambda>(port, p). settled (pp_reorder p)) (AList.update k p m)"
  by (induction m) auto

lemma settled_delete:
  "list_all (\<lambda>(port, p). settled (pp_reorder p)) m \<Longrightarrow>
    list_all (\<lambda>(port, p). settled (pp_reorder p)) (AList.delete k m)"
  by (induction m) auto

lemmas settled_simps = all_settled_def settled_update settled_delete

lemmas plain_simps = map_of_plain js_has_plain delete_plain js_keys_plain

lemma set_pipe_plain: "plain (set_pipe port p s) = set_pipe port (plain_pipe p) (plain s)"
  by (simp add: plain_def set_pipe_def update_plain)

lemma set_pipe_settled: "all_settled s \<Longrightarrow> settled (pp_reorder p) \<Longrightarrow> all_settled (set_pipe port p s)"
  by (simp add: set_pipe_def settled_simps)

lemma plain_lookup: "map_of (pl_active (plain s)) port = map_option plain_pipe (map_of (pl_active s) port)"
  by (simp add: plain_def map_of_plain)

lemma plain_pipe_simps [simp]:
  "plain_pipe (p\<lparr>pp_reorder := r\<rparr>) = plain_pipe p"
  "plain_pipe (p\<lparr>pp_input := ds\<rparr>) = (plain_pipe p)\<lparr>pp_input := ds\<rparr>"
  "plain_pipe (p\<lparr>pp_writable := b\<rparr>) = (plain_pipe p)\<lparr>pp_writable := b\<rparr>"
  "pp_input (plain_pipe p) = pp_input p" "pp_writable (plain_pipe p) = pp_writable p"
  "pp_process (plain_pipe p) = pp_process p" "pp_reorder (plain_pipe p) = new_reorder"
  by (simp_all add: plain_pipe_def)

lemma write_plain:
  assumes "all_settled s"
  shows "\<exists>s'. writePacket c accepts port data s = Some s' \<and> all_settled s' \<and>
    plain s' = plain_write port data (plain s)"
proof (cases "map_of (pl_active s) port")
  case None
  then show ?thesis using assms by (simp add: writePacket_def plain_write_def plain_lookup)
next
  case (Some p)
  have "settled (pp_reorder p)" by (rule settled_of [OF assms Some])
  then show ?thesis
    using assms Some drain_one [of "pp_reorder p" "max_buffer c" accepts data "pp_input p"]
    by (auto simp: writePacket_def plain_write_def plain_lookup set_pipe_plain Let_def settled_def
        intro!: set_pipe_settled)
qed

text \<open>The plain pipeline's step, and that the one with a reorder buffer does the same.\<close>

fun plain_step :: "pipeline_config \<Rightarrow> pipeline_event \<Rightarrow> pipelines \<Rightarrow> pipelines" where
  "plain_step c (Packet port data accepts) v = plain_write port data v"
| "plain_step c (InputDrained port accepts) v = v"
| "plain_step c e v = (case pipeline_step c e v of None \<Rightarrow> v | Some v' \<Rightarrow> v')"

lemma drained_plain:
  assumes "all_settled s"
  shows "\<exists>s'. input_drained c accepts port s = Some s' \<and> all_settled s' \<and> plain s' = plain s"
proof (cases "map_of (pl_active s) port")
  case None
  then show ?thesis using assms by (simp add: input_drained_def)
next
  case (Some p)
  have settled: "settled (pp_reorder p)" by (rule settled_of [OF assms Some])
  have same: "set_pipe port p s = s"
    using Some by (simp add: set_pipe_def update_triv)
  show ?thesis
    using assms Some settled same
    by (simp add: input_drained_def drain_settled)
qed


lemma stop_plain:
  assumes "all_settled s"
  shows "plain (snd (pipeline_stop port s)) = snd (pipeline_stop port (plain s))"
    and "fst (pipeline_stop port s) = fst (pipeline_stop port (plain s))"
    and "all_settled (snd (pipeline_stop port s))"
proof -
  have "drain_loop (\<lambda>_. True) (pp_reorder p) input = (True, pp_reorder p, input)"
    if "map_of (pl_active s) port = Some p" for p input
    using settled_of [OF assms that] by (simp add: drain_loop_empty settled_def)
  then show "plain (snd (pipeline_stop port s)) = snd (pipeline_stop port (plain s))"
    and "fst (pipeline_stop port s) = fst (pipeline_stop port (plain s))"
    and "all_settled (snd (pipeline_stop port s))"
    using assms
    by (auto simp: pipeline_stop_def plain_lookup did_def drain_loop_empty new_reorder_def settled_simps Let_def
        split: option.split)
      (auto simp: plain_def delete_plain)
qed

lemma stops_plain:
  "all_settled s \<Longrightarrow>
    plain (fold (\<lambda>port s. snd (pipeline_stop port s)) ports s) =
      fold (\<lambda>port s. snd (pipeline_stop port s)) ports (plain s) \<and>
    all_settled (fold (\<lambda>port s. snd (pipeline_stop port s)) ports s)"
  by (induction ports arbitrary: s) (simp_all add: stop_plain)

lemma other_fields_plain [simp]:
  "pl_pending (plain s) = pl_pending s" "pl_spawned (plain s) = pl_spawned s"
  "pl_attached (plain s) = pl_attached s" "pl_running (plain s) = pl_running s"
  "pl_effects (plain s) = pl_effects s" "js_has (pl_active (plain s)) port = js_has (pl_active s) port"
  by (simp_all add: plain_def js_has_plain)

lemma plain_update [simp]:
  "plain (s\<lparr>pl_pending := x1\<rparr>) = (plain s)\<lparr>pl_pending := x1\<rparr>"
  "plain (s\<lparr>pl_spawned := x2\<rparr>) = (plain s)\<lparr>pl_spawned := x2\<rparr>"
  "plain (s\<lparr>pl_attached := x3\<rparr>) = (plain s)\<lparr>pl_attached := x3\<rparr>"
  "plain (s\<lparr>pl_running := x4\<rparr>) = (plain s)\<lparr>pl_running := x4\<rparr>"
  "plain (s\<lparr>pl_effects := x5\<rparr>) = (plain s)\<lparr>pl_effects := x5\<rparr>"
  "plain (s\<lparr>pl_active := AList.delete port (pl_active s)\<rparr>) =
    (plain s)\<lparr>pl_active := AList.delete port (pl_active (plain s))\<rparr>"
  "all_settled (s\<lparr>pl_pending := x1\<rparr>) = all_settled s"
  "all_settled (s\<lparr>pl_spawned := x2\<rparr>) = all_settled s"
  "all_settled (s\<lparr>pl_attached := x3\<rparr>) = all_settled s"
  "all_settled (s\<lparr>pl_running := x4\<rparr>) = all_settled s"
  "all_settled (s\<lparr>pl_effects := x5\<rparr>) = all_settled s"
  "all_settled s \<Longrightarrow> all_settled (s\<lparr>pl_active := AList.delete port (pl_active s)\<rparr>)"
  by (simp_all add: plain_def delete_plain settled_simps)

lemma exit_plain:
  assumes "all_settled s"
  shows "plain (gst_exit port process s) = gst_exit port process (plain s)" "all_settled (gst_exit port process s)"
    "plain (gst_error port process s) = gst_error port process (plain s)" "all_settled (gst_error port process s)"
  using assms
  by (auto simp: gst_exit_def gst_error_def did_def Let_def) (auto simp: plain_def delete_plain settled_simps)

lemma opened_plain:
  assumes "all_settled s"
  shows "plain (fifo_opened port ok s) = fifo_opened port ok (plain s)" "all_settled (fifo_opened port ok s)"
  using assms set_pipe_plain [of port _ "s\<lparr>pl_attached := _\<rparr>"]
  by (auto simp: fifo_opened_def settle_def did_def settled_simps split: option.split start_phase.split)
    (auto simp: plain_def plain_pipe_def update_plain [symmetric])

lemma keys_plain: "js_keys (pl_active (plain s)) = js_keys (pl_active s)"
  by (simp add: plain_def js_keys_plain)

lemma step_plain:
  assumes "all_settled s"
  shows "\<exists>s'. pipeline_step c e s = Some s' \<and> all_settled s' \<and> plain s' = plain_step c e (plain s)"
proof (cases e)
  case (CallStart port initialData)
  then show ?thesis using assms by (simp add: pipeline_start_def)
next
  case (CredentialsAnswered port resolved fifo_made)
  then show ?thesis
    using assms by (simp add: credentials_answered_def settle_def did_def split: option.split start_phase.split)
next
  case (InputFailed port)
  then show ?thesis
    using assms
    by (auto simp: input_failed_def plain_lookup set_pipe_plain settled_of intro!: set_pipe_settled split: option.split)
qed (use assms in \<open>simp_all add: write_plain drained_plain exit_plain opened_plain stop_plain stops_plain
      pipeline_stopAll_def pipeline_stopped_def did_def keys_plain\<close>)


lemma run_plain:
  "all_settled s \<Longrightarrow> map_option plain (pipeline_run c es s) = Some (fold (plain_step c) es (plain s))"
proof (induction es arbitrary: s)
  case (Cons e es)
  obtain s' where "pipeline_step c e s = Some s'" "all_settled s'" "plain s' = plain_step c e (plain s)"
    using step_plain [OF Cons.prems] by blast
  with Cons.IH [of s'] show ?case by simp
qed simp

text \<open>\<open>stopAll\<close> leaves no pipeline.\<close>

lemma delete_absent: "map_of m k = None \<Longrightarrow> AList.delete k m = m"
  by (induction m) (auto split: if_splits)

lemma stop_removes: "pl_active (snd (pipeline_stop port s)) = AList.delete port (pl_active s)"
  by (simp add: pipeline_stop_def Let_def did_def delete_absent split: option.split)

lemma stops_remove:
  "pl_active (fold (\<lambda>port s. snd (pipeline_stop port s)) ports s) = fold AList.delete ports (pl_active s)"
  by (induction ports arbitrary: s) (simp_all add: stop_removes)

lemma delete_all: "set (map fst m) \<subseteq> set ks \<Longrightarrow> fold AList.delete ks m = []"
proof (induction ks arbitrary: m)
  case (Cons k ks)
  have "set (map fst (AList.delete k m)) \<subseteq> set ks" using Cons.prems by (auto simp: AList.delete_eq)
  from Cons.IH [OF this] show ?case by simp
qed simp

lemma stopAll_empties: "pl_active (pipeline_stopAll s) = []"
  by (simp add: pipeline_stopAll_def stops_remove delete_all js_keys_def)

lemma plain_step_size: "plain_step (c\<lparr>reorderBufferSize := n\<rparr>) e v = plain_step c e v"
  by (cases e) (simp_all add: pipeline_start_def isPortInRange_def)

section \<open>Who owns a process\<close>

text \<open>The process of a port's pipeline, and the one whose FIFO a start of the port is opening. A process is owned
  by one of these; what no pipeline and no start owns can neither be fed nor stopped.\<close>

definition active_process :: "pipelines \<Rightarrow> int \<Rightarrow> nat option" where
  "active_process s port = map_option pp_process (map_of (pl_active s) port)"

definition opening_process :: "pipelines \<Rightarrow> int \<Rightarrow> nat option" where
  "opening_process s port =
     (case map_of (pl_pending s) port of
        None \<Rightarrow> None
      | Some pd \<Rightarrow> (case pd_phase pd of Resolving attempt \<Rightarrow> None | Opening process \<Rightarrow> Some process))"

definition ownerless :: "nat \<Rightarrow> pipelines \<Rightarrow> bool" where
  "ownerless q s \<longleftrightarrow> q < pl_spawned s \<and> (\<forall>port. active_process s port \<noteq> Some q \<and> opening_process s port \<noteq> Some q)"

definition owned_once :: "pipelines \<Rightarrow> bool" where
  "owned_once s \<longleftrightarrow>
     (\<forall>port n. active_process s port = Some n \<or> opening_process s port = Some n \<longrightarrow> n < pl_spawned s) \<and>
     (\<forall>port port' n. active_process s port = Some n \<longrightarrow> opening_process s port' \<noteq> Some n) \<and>
     (\<forall>port port' n. active_process s port = Some n \<and> active_process s port' = Some n \<longrightarrow> port = port') \<and>
     (\<forall>port port' n. opening_process s port = Some n \<and> opening_process s port' = Some n \<longrightarrow> port = port')"

text \<open>How owners change: a pipeline ends, a start ends, a start takes a new process, or a started process
  becomes the pipeline of its port.\<close>

definition hands_over :: "pipelines \<Rightarrow> pipelines \<Rightarrow> bool" where
  "hands_over s s' \<longleftrightarrow> pl_spawned s \<le> pl_spawned s' \<and>
     (\<forall>port n. active_process s' port = Some n \<longrightarrow>
        active_process s port = Some n \<or> opening_process s port = Some n \<and> opening_process s' port = None) \<and>
     (\<forall>port n. opening_process s' port = Some n \<longrightarrow>
        opening_process s port = Some n \<or>
        opening_process s port = None \<and> n = pl_spawned s \<and> n < pl_spawned s') \<and>
     (\<forall>port port'. opening_process s' port = Some (pl_spawned s) \<and> opening_process s' port' = Some (pl_spawned s) \<longrightarrow>
        opening_process s port \<noteq> None \<or> opening_process s port' \<noteq> None \<or> port = port')"

lemma hands_over_owned:
  assumes "hands_over s s'" and "owned_once s"
  shows "owned_once s'"
proof -
  have active: "active_process s' k = Some n \<Longrightarrow>
      active_process s k = Some n \<or> opening_process s k = Some n \<and> opening_process s' k = None" for k n
    using assms(1) by (simp add: hands_over_def)
  have opens: "opening_process s' k = Some n \<Longrightarrow> opening_process s k = Some n \<or>
      opening_process s k = None \<and> n = pl_spawned s \<and> n < pl_spawned s'" for k n
    using assms(1) by (simp add: hands_over_def)
  have fresh: "opening_process s' k = Some (pl_spawned s) \<Longrightarrow> opening_process s' k' = Some (pl_spawned s) \<Longrightarrow>
      opening_process s k \<noteq> None \<or> opening_process s k' \<noteq> None \<or> k = k'" for k k'
    using assms(1) by (simp add: hands_over_def)
  have grows: "pl_spawned s \<le> pl_spawned s'" using assms(1) by (simp add: hands_over_def)
  have old: "active_process s k = Some n \<or> opening_process s k = Some n \<Longrightarrow> n < pl_spawned s"
    "active_process s k = Some n \<Longrightarrow> opening_process s k' \<noteq> Some n"
    "active_process s k = Some n \<Longrightarrow> active_process s k' = Some n \<Longrightarrow> k = k'"
    "opening_process s k = Some n \<Longrightarrow> opening_process s k' = Some n \<Longrightarrow> k = k'" for k k' n
    using assms(2) unfolding owned_once_def by blast+
  have not_new: "active_process s k \<noteq> Some (pl_spawned s)" "opening_process s k \<noteq> Some (pl_spawned s)" for k
    using old(1) by blast+
  have "active_process s' k = Some n \<or> opening_process s' k = Some n \<Longrightarrow> n < pl_spawned s'" for k n
    using active opens old(1) grows by (meson order_less_le_trans)
  moreover have "opening_process s' k' \<noteq> Some n" if "active_process s' k = Some n" for k k' n
    using active [OF that] opens [of k' n] old(2,4) not_new by (metis option.distinct(1))
  moreover have "k = k'" if "active_process s' k = Some n" "active_process s' k' = Some n" for k k' n
    using active [OF that(1)] active [OF that(2)] old(2-4) by metis
  moreover have "k = k'" if "opening_process s' k = Some n" "opening_process s' k' = Some n" for k k' n
    using opens [OF that(1)] opens [OF that(2)] old(4) fresh [of k k'] not_new that by blast
  ultimately show ?thesis unfolding owned_once_def by blast
qed

lemma hands_over_ownerless: "hands_over s s' \<Longrightarrow> ownerless q s \<Longrightarrow> ownerless q s'"
  unfolding ownerless_def hands_over_def by (metis less_irrefl order_less_le_trans)

lemmas owner_defs = active_process_def opening_process_def

lemma fewer_pipelines:
  "pl_pending s' = pl_pending s \<Longrightarrow> pl_spawned s' = pl_spawned s \<Longrightarrow>
    (\<And>port p. map_of (pl_active s') port = Some p \<Longrightarrow> active_process s port = Some (pp_process p)) \<Longrightarrow> hands_over s s'"
  by (auto simp: hands_over_def active_process_def [of s'] opening_process_def)

lemma stop_owner:
  "hands_over s (snd (pipeline_stop port s))"
  "fst (pipeline_stop port s) = active_process s port"
  by (auto simp: pipeline_stop_def did_def active_process_def Let_def intro!: fewer_pipelines
      split: option.splits if_splits)

lemma stop_fields:
  "pl_pending (snd (pipeline_stop port s)) = pl_pending s" "pl_spawned (snd (pipeline_stop port s)) = pl_spawned s"
  "pl_running (snd (pipeline_stop port s)) = pl_running s"
  by (simp_all add: pipeline_stop_def did_def Let_def split: option.split)

lemma stops_fields:
  "pl_pending (fold (\<lambda>port s. snd (pipeline_stop port s)) ports s) = pl_pending s"
  "pl_spawned (fold (\<lambda>port s. snd (pipeline_stop port s)) ports s) = pl_spawned s"
  "pl_running (fold (\<lambda>port s. snd (pipeline_stop port s)) ports s) = pl_running s"
  by (induction ports arbitrary: s) (simp_all add: stop_fields)

lemma stopAll_owner: "hands_over s (pipeline_stopAll s)"
  by (rule fewer_pipelines) (simp_all add: stopAll_empties, simp_all add: pipeline_stopAll_def stops_fields)

lemma write_owner:
  "writePacket c accepts port data s = Some s' \<Longrightarrow> hands_over s s'"
  "input_drained c accepts port s = Some s' \<Longrightarrow> hands_over s s'"
  "hands_over s (input_failed port s)"
  by (auto simp: writePacket_def input_drained_def input_failed_def set_pipe_def active_process_def Let_def
      intro!: fewer_pipelines split: option.splits if_splits)

text \<open>The ways a start goes on: it owns the same or nothing, it spawns, or its process becomes active.\<close>

lemma start_moves:
  "active_process s' = active_process s \<Longrightarrow> pl_spawned s' = pl_spawned s \<Longrightarrow>
    opening_process s' = opening_process s \<or> opening_process s' = (opening_process s)(port := None) \<Longrightarrow> hands_over s s'"
  "active_process s' = active_process s \<Longrightarrow> pl_spawned s' = Suc (pl_spawned s) \<Longrightarrow> opening_process s port = None \<Longrightarrow>
    opening_process s' = (opening_process s)(port \<mapsto> pl_spawned s) \<Longrightarrow> hands_over s s'"
  "opening_process s port = Some n \<Longrightarrow> pl_spawned s' = pl_spawned s \<Longrightarrow>
    active_process s' = (active_process s)(port \<mapsto> n) \<Longrightarrow>
    opening_process s' = (opening_process s)(port := None) \<Longrightarrow> hands_over s s'"
  by (auto simp: hands_over_def split: if_splits)

lemma start_call_owner: "hands_over s (snd (pipeline_start c port initialData s))"
  by (rule start_moves(1) [of _ _ port]) (auto simp: pipeline_start_def owner_defs js_has_def fun_eq_iff)

lemma credentials_owner: "hands_over s (credentials_answered port resolved fifo_made s)"
proof (cases "map_of (pl_pending s) port")
  case None
  then show ?thesis by (intro start_moves(1)) (simp_all add: credentials_answered_def)
next
  case (Some pd)
  show ?thesis
  proof (cases "\<exists>attempt. pd_phase pd = Resolving attempt \<and> resolved \<and> fifo_made")
    case True
    then show ?thesis using Some
      by (intro start_moves(2) [of _ _ port])
        (auto simp: credentials_answered_def did_def owner_defs fun_eq_iff)
  next
    case False
    then show ?thesis using Some
      by (intro start_moves(1) [of _ _ port])
        (auto simp: credentials_answered_def settle_def owner_defs fun_eq_iff split: start_phase.splits)
  qed
qed

lemma opened_owner: "hands_over s (fifo_opened port ok s)"
proof (cases "opening_process s port")
  case None
  then show ?thesis
    by (intro start_moves(1)) (auto simp: fifo_opened_def opening_process_def split: option.splits start_phase.splits)
next
  case (Some n)
  then obtain pd where pd: "map_of (pl_pending s) port = Some pd" "pd_phase pd = Opening n"
    by (auto simp: opening_process_def split: option.splits start_phase.splits)
  show ?thesis
  proof (cases ok)
    case True
    then show ?thesis using Some pd
      by (intro start_moves(3) [OF Some]) (auto simp: fifo_opened_def settle_def owner_defs fun_eq_iff)
  next
    case False
    then show ?thesis using Some pd
      by (intro start_moves(1) [of _ _ port]) (auto simp: fifo_opened_def settle_def did_def owner_defs fun_eq_iff)
  qed
qed

lemma exit_owner: "hands_over s (gst_exit port process s)" "hands_over s (gst_error port process s)"
  by (auto simp: gst_exit_def gst_error_def did_def active_process_def Let_def intro!: fewer_pipelines
      split: if_splits)

lemma step_owner: "pipeline_step c e s = Some s' \<Longrightarrow> hands_over s s'"
proof (cases e)
  case (StopWaited port process)
  then show "pipeline_step c e s = Some s' \<Longrightarrow> hands_over s s'"
    by (auto simp: pipeline_stopped_def did_def active_process_def intro!: fewer_pipelines)
qed (auto simp: start_call_owner credentials_owner opened_owner exit_owner write_owner stop_owner stopAll_owner)

text \<open>What a step does to a process that nobody owns: its input is not ended, and it goes on running.\<close>

definition ends_of :: "nat \<Rightarrow> pipelines \<Rightarrow> pipeline_effect list" where
  "ends_of q s = List.filter (\<lambda>e. \<exists>port input. e = EndedInput port q input) (pl_effects s)"

lemma stop_other:
  "active_process s port \<noteq> Some q \<Longrightarrow> ends_of q (snd (pipeline_stop port s)) = ends_of q s"
  by (auto simp: pipeline_stop_def did_def active_process_def ends_of_def Let_def split: option.split)

lemma stops_other:
  "ownerless q s \<Longrightarrow> ends_of q (fold (\<lambda>port s. snd (pipeline_stop port s)) ports s) = ends_of q s"
proof (induction ports arbitrary: s)
  case (Cons port ports)
  have "ownerless q (snd (pipeline_stop port s))" by (rule hands_over_ownerless [OF stop_owner(1) Cons.prems])
  with Cons show ?case by (simp add: stop_other ownerless_def)
qed simp

lemma step_ownerless:
  assumes "pipeline_step c e s = Some s'" and "ownerless q s"
  shows "ends_of q s' = ends_of q s" and "e \<noteq> GstExit port q \<Longrightarrow> (q, port) \<in> set (pl_running s) \<Longrightarrow> (q, port) \<in> set (pl_running s')"
proof -
  have "ends_of q s' = ends_of q s \<and>
      (e \<noteq> GstExit port q \<longrightarrow> (q, port) \<in> set (pl_running s) \<longrightarrow> (q, port) \<in> set (pl_running s'))"
  proof (cases e)
    case (CallStop k)
    then show ?thesis using assms stop_other [of s k q]
      by (auto simp: ownerless_def pipeline_stop_def did_def Let_def split: option.splits)
  next
    case CallStopAll
    then show ?thesis using assms by (auto simp: pipeline_stopAll_def stops_other stops_fields)
  qed (use assms(1) in \<open>auto simp: ends_of_def pipeline_start_def credentials_answered_def fifo_opened_def settle_def
      did_def gst_exit_def gst_error_def writePacket_def input_drained_def input_failed_def set_pipe_def
      pipeline_stopped_def Let_def split: option.splits start_phase.splits if_splits\<close>)
  then show "ends_of q s' = ends_of q s"
    "e \<noteq> GstExit port q \<Longrightarrow> (q, port) \<in> set (pl_running s) \<Longrightarrow> (q, port) \<in> set (pl_running s')" by auto
qed

lemma run_ownerless:
  "pipeline_run c es s = Some s' \<Longrightarrow> ownerless q s \<Longrightarrow>
    ownerless q s' \<and> ends_of q s' = ends_of q s \<and>
    (GstExit port q \<notin> set es \<longrightarrow> (q, port) \<in> set (pl_running s) \<longrightarrow> (q, port) \<in> set (pl_running s'))"
proof (induction es arbitrary: s)
  case (Cons e es)
  then obtain s1 where s1: "pipeline_step c e s = Some s1" "pipeline_run c es s1 = Some s'"
    by (auto split: option.splits)
  have "ownerless q s1" by (rule hands_over_ownerless [OF step_owner [OF s1(1)] Cons.prems(2)])
  with Cons.IH [OF s1(2)] step_ownerless(1) [OF s1(1) Cons.prems(2)]
    step_ownerless(2) [OF s1(1) Cons.prems(2), of port] show ?case by auto
qed simp

lemma run_owned: "pipeline_run c es s = Some s' \<Longrightarrow> owned_once s \<Longrightarrow> owned_once s'"
  by (induction es arbitrary: s) (auto split: option.splits dest: step_owner hands_over_owned)

lemma owned_new: "owned_once new_pipelines"
  by (simp add: owned_once_def new_pipelines_def owner_defs)

lemma exit_makes_ownerless:
  assumes "owned_once s" and "active_process s port = Some q" and "List.member (pl_attached s) process"
  shows "ownerless q (gst_exit port process s)"
proof -
  have "active_process (gst_exit port process s) k = (if k = port then None else active_process s k)"
    "opening_process (gst_exit port process s) k = opening_process s k"
    "pl_spawned (gst_exit port process s) = pl_spawned s" for k
    using assms(3) by (auto simp: gst_exit_def did_def owner_defs Let_def)
  then show ?thesis using assms(1,2) by (auto simp: ownerless_def owned_once_def)
qed

section \<open>Properties\<close>

text \<open>C34. The reorder buffer changes nothing and always drains: for every size of it, after any
  sequence of calls, answers, packets, drain events, failures and exits, the operations have
  returned, and every process has been given the same input as by a pipeline that writes each
  packet at once - its initial data, then the packets in the order they came, each once. (So it
  neither smooths bursts nor holds packets back while the stream asks to wait.)\<close>

theorem reorder_buffer_transparent:
  "map_option plain (pipeline_run (c\<lparr>reorderBufferSize := n\<rparr>) events new_pipelines) =
     Some (fold (plain_step c) events new_pipelines)"
proof -
  have "all_settled new_pipelines" "plain new_pipelines = new_pipelines"
    by (simp_all add: new_pipelines_def all_settled_def plain_def)
  then show ?thesis
    using run_plain [of new_pipelines "c\<lparr>reorderBufferSize := n\<rparr>" events]
    by (simp add: plain_step_size [abs_def])
qed

text \<open>C35. The exit of a process takes the running pipeline of its port with it, whichever process that is. When, in
  any state the pipelines can get into, the exit of an earlier process of a port - one whose FIFO was opened, so that its listeners are attached - is seen while
  another one is the port's pipeline, the port is left without a pipeline and reported as exited; and
  the other process, still running, is owned by nobody from then on, whatever follows - starts and stops of the same port
  included: it is the process of no pipeline and of no start, so no packet is written to it, no call of \<open>stop\<close> takes
  it, its input is not ended, and it runs on until it exits by itself.\<close>

theorem stopped_exit_orphans_successor:
  assumes "pipeline_run c before new_pipelines = Some s"
    and "map_of (pl_active s) port = Some pipe" and "pp_process pipe = q"
    and "List.member (pl_attached s) process" and "process \<noteq> q"
    and "pipeline_run c (GstExit port process # events) s = Some s'"
  shows "map_of (pl_active (gst_exit port process s)) port = None \<and>
    pl_effects (gst_exit port process s) = pl_effects s @ [PipelineExited port] \<and>
    (\<forall>k. active_process s' k \<noteq> Some q \<and> opening_process s' k \<noteq> Some q \<and> fst (pipeline_stop k s') \<noteq> Some q) \<and>
    ends_of q s' = ends_of q s \<and>
    (if GstExit port q \<in> set events \<or> \<not> List.member (pl_running s) (q, port) then True
     else List.member (pl_running s') (q, port))"
proof -
  let ?s = "gst_exit port process s"
  have "owned_once s" by (rule run_owned [OF assms(1) owned_new])
  then have "ownerless q ?s"
    by (rule exit_makes_ownerless) (use assms(2-4) in \<open>simp_all add: active_process_def\<close>)
  moreover have "pipeline_run c events ?s = Some s'" using assms(6) by simp
  ultimately have run: "ownerless q s'" "ends_of q s' = ends_of q ?s"
    "GstExit port q \<notin> set events \<Longrightarrow> (q, port) \<in> set (pl_running ?s) \<Longrightarrow> (q, port) \<in> set (pl_running s')"
    using run_ownerless [where port = port] by blast+
  have exit: "map_of (pl_active ?s) port = None" "pl_effects ?s = pl_effects s @ [PipelineExited port]"
    "ends_of q ?s = ends_of q s" "(q, port) \<in> set (pl_running ?s) \<longleftrightarrow> (q, port) \<in> set (pl_running s)"
    using assms(2,4,5) by (auto simp: gst_exit_def did_def js_has_def ends_of_def Let_def)
  show ?thesis using run exit by (auto simp: ownerless_def stop_owner(2) List.member_iff)
qed

definition sample_pipeline_config :: pipeline_config where
  "sample_pipeline_config =
     \<lparr>streamNamePrefix = js ''stream'', pl_region = js ''eu-west-1'', pl_range_start = 5000, pl_range_end = 5009,
      reorderBufferSize = None, logGstreamerOutput = None\<rparr>"

text \<open>A port that is stopped and started again before the first process has exited; then the second
  process runs on, in no pipeline, while a third is made.\<close>

definition restarted_port :: "pipeline_event list" where
  "restarted_port =
     [CallStart 5000 None, CredentialsAnswered 5000 True True, FifoOpened 5000 True, CallStop 5000,
      CallStart 5000 None, CredentialsAnswered 5000 True True, FifoOpened 5000 True]"

lemma stopped_exit_orphans_successor_witness:
  "(case pipeline_run sample_pipeline_config restarted_port new_pipelines of
      None \<Rightarrow> False
    | Some s \<Rightarrow>
        (case pipeline_run sample_pipeline_config
            [GstExit 5000 0, CallStart 5000 None, CredentialsAnswered 5000 True True, CallStopAll] s of
           None \<Rightarrow> False
         | Some s' \<Rightarrow> active_process s 5000 = Some 1 \<and> active_process s' 5000 = None \<and> opening_process s' 5000 = Some 2 \<and>
             List.member (pl_running s') (1, 5000) \<and> ends_of 1 s' = []))"
proof -
  obtain s where run: "pipeline_run sample_pipeline_config restarted_port new_pipelines = Some s"
    "pl_active s = [(5000, \<lparr>pp_process = 1, pp_reorder = new_reorder, pp_input = [], pp_writable = True\<rparr>)]"
    "pl_attached s = [1, 0]" "pl_running s = [(1, 5000), (0, 5000)]" "ends_of 1 s = []" "pl_pending s = []" "pl_spawned s = 2"
    by (simp add: restarted_port_def sample_pipeline_config_def new_pipelines_def pipeline_start_def isPortInRange_def
        credentials_answered_def fifo_opened_def settle_def did_def pipeline_stop_def js_has_def drain_loop_empty
        new_reorder_def ends_of_def)
  obtain s' where later: "pipeline_run sample_pipeline_config
      [GstExit 5000 0, CallStart 5000 None, CredentialsAnswered 5000 True True, CallStopAll] s = Some s'"
    "opening_process s' 5000 = Some 2" "active_process s' 5000 = None"
    using run(2-) by (simp add: gst_exit_def pipeline_start_def sample_pipeline_config_def isPortInRange_def js_has_def
        credentials_answered_def did_def pipeline_stopAll_def pipeline_stop_def js_keys_def owner_defs Let_def
        fold_simps)
  from stopped_exit_orphans_successor [OF run(1) _ refl _ _ later(1)] run later show ?thesis
    by (simp add: active_process_def [of s] del: pipeline_run.simps)
qed

end
