(* ===== verification/StreamState.thy ===== *)
theory StreamState
imports Prelude
begin

text \<open>
  The stream states of the unencrypted ports (\<open>backend/src/StreamStateManager.ts\<close>): a port's
  first packet starts its stream, a minute without one stops it, the next one resumes it. A timer
  is the time it is due; that a timer fires is an event of its own, never before that time. The
  events emitted are recorded in order, newest last.

  Shown: each port's events are a start, then stops and resumes in turn, and its status is what the
  last of them says; and a stop is only reported after the configured silence.
\<close>

section \<open>State\<close>

datatype stream_status = ActiveStream | InactiveStream

record stream_state =
  ss_port :: int
  ss_status :: stream_status
  ss_first_packet_time :: int
  ss_last_packet_time :: int
  ss_packet_count :: nat

datatype stream_event = StreamStart int | StreamResume int | StreamStop int int

record streams =
  sm_streams :: "(int, stream_state) js_map"
  sm_timers :: "(int, int) js_map"
  sm_events :: "stream_event list"

definition new_streams :: streams where
  "new_streams = \<lparr>sm_streams = [], sm_timers = [], sm_events = []\<rparr>"

definition stream_emit :: "stream_event \<Rightarrow> streams \<Rightarrow> streams" where
  "stream_emit e s = s\<lparr>sm_events := sm_events s @ [e]\<rparr>"

section \<open>Operations\<close>

definition resetInactivityTimer :: "int \<Rightarrow> int \<Rightarrow> int \<Rightarrow> streams \<Rightarrow> streams" where
  "resetInactivityTimer timeout now port s = s\<lparr>sm_timers := AList.update port (now + timeout) (sm_timers s)\<rparr>"

definition onPacketReceived :: "int \<Rightarrow> int \<Rightarrow> int \<Rightarrow> int \<Rightarrow> streams \<Rightarrow> streams" where
  "onPacketReceived timeout now port timestamp s =
     resetInactivityTimer timeout now port
       (case map_of (sm_streams s) port of
          None \<Rightarrow>
            stream_emit (StreamStart port)
              (s\<lparr>sm_streams := AList.update port
                   \<lparr>ss_port = port, ss_status = ActiveStream, ss_first_packet_time = timestamp,
                    ss_last_packet_time = timestamp, ss_packet_count = 1\<rparr> (sm_streams s)\<rparr>)
        | Some x \<Rightarrow>
            (let x' = x\<lparr>ss_last_packet_time := timestamp, ss_packet_count := Suc (ss_packet_count x)\<rparr>
             in if ss_status x' = InactiveStream
                then stream_emit (StreamResume port)
                       (s\<lparr>sm_streams := AList.update port (x'\<lparr>ss_status := ActiveStream\<rparr>) (sm_streams s)\<rparr>)
                else s\<lparr>sm_streams := AList.update port x' (sm_streams s)\<rparr>))"

definition getStreamState :: "streams \<Rightarrow> int \<Rightarrow> stream_state option" where
  "getStreamState s port = map_of (sm_streams s) port"

definition getActiveStreams :: "streams \<Rightarrow> int list" where
  "getActiveStreams s = map fst (filter (\<lambda>(port, x). ss_status x = ActiveStream) (sm_streams s))"

definition getActiveStreamCount :: "streams \<Rightarrow> nat" where
  "getActiveStreamCount s = length (getActiveStreams s)"

definition getAllStreams :: "streams \<Rightarrow> stream_state list" where
  "getAllStreams s = map snd (sm_streams s)"

definition streams_stop :: "streams \<Rightarrow> streams" where
  "streams_stop s = s\<lparr>sm_timers := []\<rparr>"

definition handleStreamInactivity :: "int \<Rightarrow> int \<Rightarrow> streams \<Rightarrow> streams" where
  "handleStreamInactivity now port s =
     (case map_of (sm_streams s) port of
        None \<Rightarrow> s
      | Some x \<Rightarrow>
          stream_emit (StreamStop port (now - ss_last_packet_time x))
            (s\<lparr>sm_streams := AList.update port (x\<lparr>ss_status := InactiveStream\<rparr>) (sm_streams s)\<rparr>))"

text \<open>The port's timer fires, if it is set and due.\<close>

definition inactivity_timer :: "int \<Rightarrow> int \<Rightarrow> streams \<Rightarrow> streams" where
  "inactivity_timer now port s =
     (case map_of (sm_timers s) port of
        None \<Rightarrow> s
      | Some due \<Rightarrow>
          (if due \<le> now then handleStreamInactivity now port (s\<lparr>sm_timers := AList.delete port (sm_timers s)\<rparr>)
           else s))"

datatype stream_input = PacketAt int int int | TimerAt int int | StreamsStopped

fun stream_step :: "int \<Rightarrow> stream_input \<Rightarrow> streams \<Rightarrow> streams" where
  "stream_step timeout (PacketAt now port timestamp) s = onPacketReceived timeout now port timestamp s"
| "stream_step timeout (TimerAt now port) s = inactivity_timer now port s"
| "stream_step timeout StreamsStopped s = streams_stop s"

definition stream_run :: "int \<Rightarrow> stream_input list \<Rightarrow> streams" where
  "stream_run timeout inputs = fold (stream_step timeout) inputs new_streams"

section \<open>Properties\<close>

text \<open>The reference: what a port's status is after its events, None when they are out of order.\<close>

datatype phase = Unseen | Live | Quiet

fun phase_after :: "int \<Rightarrow> stream_event \<Rightarrow> phase option \<Rightarrow> phase option" where
  "phase_after port (StreamStart p) ph =
     (if p \<noteq> port then ph else if ph = Some Unseen then Some Live else None)"
| "phase_after port (StreamResume p) ph =
     (if p \<noteq> port then ph else if ph = Some Quiet then Some Live else None)"
| "phase_after port (StreamStop p d) ph =
     (if p \<noteq> port then ph else if ph = Some Live then Some Quiet else None)"

definition phase_of :: "int \<Rightarrow> stream_event list \<Rightarrow> phase option" where
  "phase_of port es = fold (phase_after port) es (Some Unseen)"

definition status_phase :: "stream_state option \<Rightarrow> phase" where
  "status_phase x =
     (case x of None \<Rightarrow> Unseen
      | Some x \<Rightarrow> (case ss_status x of ActiveStream \<Rightarrow> Live | InactiveStream \<Rightarrow> Quiet))"

fun packet_in_past :: "stream_input \<Rightarrow> bool" where
  "packet_in_past (PacketAt now port timestamp) = (timestamp \<le> now)"
| "packet_in_past _ = True"

fun silence_of :: "int \<Rightarrow> stream_event \<Rightarrow> bool" where
  "silence_of timeout (StreamStop p d) = (timeout \<le> d)"
| "silence_of timeout _ = True"

text \<open>A set timer is on a live stream, and due a full timeout after its last packet.\<close>

definition stream_inv :: "int \<Rightarrow> bool \<Rightarrow> streams \<Rightarrow> bool" where
  "stream_inv timeout past s \<longleftrightarrow>
     (\<forall>port. phase_of port (sm_events s) = Some (status_phase (map_of (sm_streams s) port))) \<and>
     (\<forall>port due. map_of (sm_timers s) port = Some due \<longrightarrow>
        (\<exists>x. map_of (sm_streams s) port = Some x \<and> ss_status x = ActiveStream \<and>
           (past \<longrightarrow> ss_last_packet_time x + timeout \<le> due))) \<and>
     (past \<longrightarrow> list_all (silence_of timeout) (sm_events s))"

lemma phase_of_snoc [simp]: "phase_of port (es @ [e]) = phase_after port e (phase_of port es)"
  by (simp add: phase_of_def)

lemma stream_step_inv:
  assumes "stream_inv timeout past s" "past \<longrightarrow> packet_in_past i"
  shows "stream_inv timeout past (stream_step timeout i s)"
proof (cases i)
  case (PacketAt now port timestamp)
  show ?thesis
  proof (cases "map_of (sm_streams s) port")
    case None
    then show ?thesis
      using assms unfolding PacketAt
      by (auto simp: stream_inv_def onPacketReceived_def resetInactivityTimer_def stream_emit_def status_phase_def)
  next
    case (Some x)
    then show ?thesis
      using assms unfolding PacketAt
      by (cases "ss_status x")
        (auto simp: stream_inv_def onPacketReceived_def resetInactivityTimer_def stream_emit_def status_phase_def Let_def)
  qed
next
  case (TimerAt now port)
  show ?thesis
  proof (cases "map_of (sm_timers s) port")
    case None
    then show ?thesis using assms TimerAt by (simp add: inactivity_timer_def)
  next
    case (Some due)
    then obtain x where x: "map_of (sm_streams s) port = Some x" "ss_status x = ActiveStream"
        "past \<longrightarrow> ss_last_packet_time x + timeout \<le> due"
      using assms(1) unfolding stream_inv_def by blast
    show ?thesis
      using assms x Some unfolding TimerAt
      by (auto simp: stream_inv_def inactivity_timer_def handleStreamInactivity_def stream_emit_def status_phase_def)
  qed
next
  case StreamsStopped
  then show ?thesis using assms by (simp add: stream_inv_def streams_stop_def)
qed

lemma stream_run_inv:
  "past \<longrightarrow> list_all packet_in_past inputs \<Longrightarrow> stream_inv timeout past s \<Longrightarrow>
    stream_inv timeout past (fold (stream_step timeout) inputs s)"
  by (induction inputs arbitrary: s) (auto simp: stream_step_inv)

lemma new_streams_inv: "stream_inv timeout past new_streams"
  by (simp add: stream_inv_def new_streams_def phase_of_def status_phase_def)

text \<open>C36. Over any packets, timers and stops, each port's events are well formed - a start, then stops
  and resumes in turn - and its status is the one they leave it in; and if packets are handled no
  earlier than they are stamped, a stop is only ever reported after the full silence.\<close>

theorem stream_events_alternate:
  "(let s = stream_run timeout inputs
    in phase_of port (sm_events s) = Some (status_phase (getStreamState s port)) \<and>
       (if list_all packet_in_past inputs then list_all (silence_of timeout) (sm_events s) else True))"
  using stream_run_inv [of False inputs timeout, OF _ new_streams_inv]
    stream_run_inv [of True inputs timeout, OF _ new_streams_inv]
  by (auto simp: stream_run_def Let_def stream_inv_def getStreamState_def)

end
