(* ===== verification/Ingest.thy ===== *)
theory Ingest
imports Pipeline StreamState StreamMetadata
begin

text \<open>
  The service's main module (\<open>backend/src/index.ts\<close>) over the stream states and the unencrypted
  pipeline: what it does with each packet, with the stream events and with a pipeline that exits.
  Handlers are not awaited by their callers, so packets of one port overlap. A handler is cut at
  its awaits: what it waits for, with the values it still needs, is one element of
  \<open>sv_waiting\<close>, in the order the waits began, and the answer resumes it. The lock service is asked
  through the effects and answers through the events.

  Shown: when the lock is granted and each packet is handled before the next arrives, every byte
  reaches the pipeline once and in order; a packet that arrives while a port's lock or pipeline
  is being waited for is lost; a port that was refused its lock never asks again before its
  stream has stopped; and the packets kept back are fewer bytes than the start takes.
\<close>

section \<open>Configuration\<close>

record service_config =
  sc_pipeline :: pipeline_config
  sc_enabled :: bool
  sc_min_bytes :: "int option"
  sc_accepts :: "packet list \<Rightarrow> bool"

text \<open>\<open>Number(value ?? 10) * 1024 * 1024\<close> as the bound it sets on a count: Some of the least count that
  reaches it, None when none does.\<close>

definition kinesis_min_bytes :: "js_string option \<Rightarrow> int option" where
  "kinesis_min_bytes value =
     (case (case value of None \<Rightarrow> JInt 10 | Some s \<Rightarrow> number_of s) of
        JInt i \<Rightarrow> Some (i * 1048576)
      | JFrac m k \<Rightarrow> Some (- ((- m * 1048576) div 2 ^ k))
      | JInf neg \<Rightarrow> (if neg then Some 0 else None)
      | JNaN \<Rightarrow> None)"

record service_env =
  KINESIS_MIN_BYTES_BEFORE_START :: "js_string option"
  KINESIS_STREAM_PREFIX :: "js_string option"
  KINESIS_INGESTION_LOG_GSTREAMER :: "js_string option"
  AWS_REGION :: "js_string option"

definition service_config_of :: "service_env \<Rightarrow> (packet list \<Rightarrow> bool) \<Rightarrow> service_config" where
  "service_config_of env accepts =
     \<lparr>sc_pipeline =
        \<lparr>streamNamePrefix = nullish (KINESIS_STREAM_PREFIX env) [],
         pl_region = nullish (AWS_REGION env) (js ''eu-central-1''),
         pl_range_start = 5000, pl_range_end = 5009, reorderBufferSize = None,
         logGstreamerOutput =
           Some (KINESIS_INGESTION_LOG_GSTREAMER env = Some (js ''true'') \<or>
                 KINESIS_INGESTION_LOG_GSTREAMER env = Some (js ''1''))\<rparr>,
      sc_enabled = (nullish (KINESIS_STREAM_PREFIX env) [] \<noteq> []),
      sc_min_bytes = kinesis_min_bytes (KINESIS_MIN_BYTES_BEFORE_START env), sc_accepts = accepts\<rparr>"

definition inactivity_timeout :: int where "inactivity_timeout = 60000"

definition pipeline_restart_throttle_ms :: int where "pipeline_restart_throttle_ms = 10000"

section \<open>State\<close>

record pre_start =
  pb_chunks :: "packet list"
  pb_total :: int

text \<open>What a handler waits for: the lock, a pipeline's start, the lease, a pipeline's stop after the
  lock was lost, the lock's release.\<close>

datatype waiting =
    AwaitLock int packet int packet
  | AwaitStart int packet int
  | AwaitRefresh int packet bool
  | AwaitLostStop int packet bool
  | AwaitRelease int

datatype service_effect = AskedLock int | AskedRefresh int | AskedRelease int

record service =
  sv_streams :: streams
  sv_pipes :: pipelines
  sv_held :: "int list"
  sv_buffers :: "(int, pre_start) js_map"
  sv_last_restart :: "(int, int) js_map"
  sv_restarts :: "(int \<times> int) list"
  sv_waiting :: "waiting list"
  sv_effects :: "service_effect list"

definition new_service :: service where
  "new_service = \<lparr>sv_streams = new_streams, sv_pipes = new_pipelines, sv_held = [], sv_buffers = [],
     sv_last_restart = [], sv_restarts = [], sv_waiting = [], sv_effects = []\<rparr>"

definition asked :: "service_effect \<Rightarrow> service \<Rightarrow> service" where
  "asked e s = s\<lparr>sv_effects := sv_effects s @ [e]\<rparr>"

definition await :: "waiting \<Rightarrow> service \<Rightarrow> service" where
  "await w s = s\<lparr>sv_waiting := sv_waiting s @ [w]\<rparr>"

definition holds :: "service \<Rightarrow> int \<Rightarrow> bool" where
  "holds s port \<longleftrightarrow> List.member (sv_held s) port"

section \<open>Packets\<close>

definition start_pipeline :: "service_config \<Rightarrow> int \<Rightarrow> packet option \<Rightarrow> service \<Rightarrow> service" where
  "start_pipeline c port initialData s =
     s\<lparr>sv_pipes := snd (pipeline_start (sc_pipeline c) port initialData (sv_pipes s))\<rparr>"

definition onStreamStart :: "service_config \<Rightarrow> int \<Rightarrow> service \<Rightarrow> service" where
  "onStreamStart c port s = (if sc_enabled c \<and> holds s port then start_pipeline c port None s else s)"

text \<open>The last part of the packet handler.\<close>

definition feed_packet :: "service_config \<Rightarrow> int \<Rightarrow> packet \<Rightarrow> bool \<Rightarrow> service \<Rightarrow> service option" where
  "feed_packet c port data packetAlreadyInInitialData s =
     (if sc_enabled c \<and> holds s port \<and> \<not> packetAlreadyInInitialData then
        (case writePacket (sc_pipeline c) (sc_accepts c) port data (sv_pipes s) of
           None \<Rightarrow> None
         | Some pipes \<Rightarrow> Some (s\<lparr>sv_pipes := pipes\<rparr>))
      else Some s)"

text \<open>Its middle: the stream state - whose first packet starts the stream - and the lease.\<close>

definition track_packet :: "service_config \<Rightarrow> int \<Rightarrow> int \<Rightarrow> packet \<Rightarrow> int \<Rightarrow> bool \<Rightarrow> service \<Rightarrow> service option" where
  "track_packet c now port data timestamp packetAlreadyInInitialData s =
     (let unseen = (getStreamState (sv_streams s) port = None);
          s1 = s\<lparr>sv_streams := onPacketReceived inactivity_timeout now port timestamp (sv_streams s)\<rparr>;
          s2 = (if unseen then onStreamStart c port s1 else s1)
      in if holds s2 port
         then Some (await (AwaitRefresh port data packetAlreadyInInitialData) (asked (AskedRefresh port) s2))
         else feed_packet c port data packetAlreadyInInitialData s2)"

definition buffer_packet :: "packet \<Rightarrow> pre_start option \<Rightarrow> pre_start" where
  "buffer_packet data buf =
     (let b = nullish buf \<lparr>pb_chunks = [], pb_total = 0\<rparr>
      in \<lparr>pb_chunks = pb_chunks b @ [data], pb_total = pb_total b + int (length data)\<rparr>)"

definition reaches :: "int option \<Rightarrow> int \<Rightarrow> bool" where
  "reaches least n = (case least of None \<Rightarrow> False | Some m \<Rightarrow> m \<le> n)"

definition onPacket :: "service_config \<Rightarrow> int \<Rightarrow> int \<Rightarrow> packet \<Rightarrow> int \<Rightarrow> service \<Rightarrow> service option" where
  "onPacket c now port data timestamp s =
     (let streamState = getStreamState (sv_streams s) port;
          isFirstPacket = (streamState = None);
          isResume = (map_option ss_status streamState = Some InactiveStream)
      in if sc_enabled c \<and> isPortInRange (sc_pipeline c) port \<and> \<not> holds s port \<and>
            (isFirstPacket \<or> isResume \<or> js_has (sv_buffers s) port)
         then
           (let buf = buffer_packet data (map_of (sv_buffers s) port) in
            if reaches (sc_min_bytes c) (pb_total buf)
            then Some (await (AwaitLock port data timestamp (concat (pb_chunks buf)))
                        (asked (AskedLock port) (s\<lparr>sv_buffers := AList.delete port (sv_buffers s)\<rparr>)))
            else track_packet c now port data timestamp False
                   (s\<lparr>sv_buffers := AList.update port buf (sv_buffers s)\<rparr>))
         else track_packet c now port data timestamp False s)"

text \<open>The listener of a port's socket: an empty datagram is discarded.\<close>

definition isValidPacket :: "packet \<Rightarrow> bool" where
  "isValidPacket data \<longleftrightarrow> data \<noteq> []"

definition on_message :: "service_config \<Rightarrow> int \<Rightarrow> int \<Rightarrow> packet \<Rightarrow> service \<Rightarrow> service option" where
  "on_message c timestamp port data s =
     (if \<not> isValidPacket data then Some s else onPacket c timestamp port data timestamp s)"

text \<open>The answers the packet handler waits for; a throw is caught and the handler goes on.\<close>

definition lock_answered ::
  "service_config \<Rightarrow> int \<Rightarrow> bool outcome \<Rightarrow> int \<Rightarrow> packet \<Rightarrow> int \<Rightarrow> packet \<Rightarrow> service \<Rightarrow> service option"
where
  "lock_answered c now answer port data timestamp initialData s =
     (case answer of
        Inr True \<Rightarrow>
          Some (await (AwaitStart port data timestamp)
            (start_pipeline c port (Some initialData) (s\<lparr>sv_held := List.insert port (sv_held s)\<rparr>)))
      | _ \<Rightarrow> track_packet c now port data timestamp True s)"

definition refresh_answered ::
  "service_config \<Rightarrow> owned_write outcome \<Rightarrow> int \<Rightarrow> packet \<Rightarrow> bool \<Rightarrow> service \<Rightarrow> service option"
where
  "refresh_answered c answer port data packetAlreadyInInitialData s =
     (case answer of
        Inr LostLock \<Rightarrow>
          (let s1 = s\<lparr>sv_held := removeAll port (sv_held s)\<rparr> in
           if sc_enabled c
           then Some (await (AwaitLostStop port data packetAlreadyInInitialData)
                  (s1\<lparr>sv_pipes := snd (pipeline_stop port (sv_pipes s1))\<rparr>))
           else feed_packet c port data packetAlreadyInInitialData s1)
      | _ \<Rightarrow> feed_packet c port data packetAlreadyInInitialData s)"

section \<open>Stream stops, exits and restarts\<close>

definition stop_pipeline :: "service_config \<Rightarrow> int \<Rightarrow> service \<Rightarrow> service" where
  "stop_pipeline c port s =
     (if sc_enabled c then s\<lparr>sv_pipes := snd (pipeline_stop port (sv_pipes s))\<rparr> else s)"

definition onStreamStop :: "service_config \<Rightarrow> int \<Rightarrow> service \<Rightarrow> service" where
  "onStreamStop c port s =
     (let s1 = s\<lparr>sv_buffers := AList.delete port (sv_buffers s)\<rparr>
      in if holds s1 port then await (AwaitRelease port) (asked (AskedRelease port) s1)
         else stop_pipeline c port s1)"

definition release_answered :: "service_config \<Rightarrow> unit outcome \<Rightarrow> int \<Rightarrow> service \<Rightarrow> service" where
  "release_answered c answer port s =
     (case answer of
        Inl e \<Rightarrow> s
      | Inr u \<Rightarrow> stop_pipeline c port (s\<lparr>sv_held := removeAll port (sv_held s)\<rparr>))"

definition on_inactivity_timer :: "service_config \<Rightarrow> int \<Rightarrow> int \<Rightarrow> service \<Rightarrow> service" where
  "on_inactivity_timer c now port s =
     (let s1 = s\<lparr>sv_streams := inactivity_timer now port (sv_streams s)\<rparr>
      in if sm_events (sv_streams s1) = sm_events (sv_streams s) then s1 else onStreamStop c port s1)"

definition on_pipeline_exited :: "service_config \<Rightarrow> int \<Rightarrow> int \<Rightarrow> service \<Rightarrow> service" where
  "on_pipeline_exited c now port s =
     (if map_option ss_status (getStreamState (sv_streams s) port) \<noteq> Some ActiveStream then s
      else if \<not> isPortInRange (sc_pipeline c) port then s
      else
        (let lastRestart = nullish (map_of (sv_last_restart s) port) 0;
             delay = max 0 (pipeline_restart_throttle_ms - (now - lastRestart))
         in s\<lparr>sv_restarts := sv_restarts s @ [(port, now + delay)]\<rparr>))"

definition on_restart_timer :: "service_config \<Rightarrow> int \<Rightarrow> nat \<Rightarrow> service \<Rightarrow> service" where
  "on_restart_timer c now i s =
     (if i < length (sv_restarts s) \<and> snd (sv_restarts s ! i) \<le> now
      then (let port = fst (sv_restarts s ! i)
            in start_pipeline c port None
                 (s\<lparr>sv_restarts := take i (sv_restarts s) @ drop (Suc i) (sv_restarts s),
                    sv_last_restart := AList.update port now (sv_last_restart s)\<rparr>))
      else s)"

section \<open>Shutdown\<close>

text \<open>The locks are released in turn; a release that throws ends the process at once.\<close>

fun release_locks :: "(int \<Rightarrow> unit outcome) \<Rightarrow> int list \<Rightarrow> service \<Rightarrow> bool \<times> service" where
  "release_locks answers [] s = (True, s)"
| "release_locks answers (port # ports) s =
     (let s1 = asked (AskedRelease port) s in
      case answers port of
        Inl e \<Rightarrow> (False, s1)
      | Inr u \<Rightarrow> release_locks answers ports s1)"

text \<open>The exit code and the state; what the listener, the SRTP side and the metrics do on the way is
  theirs.\<close>

definition service_shutdown :: "service_config \<Rightarrow> (int \<Rightarrow> unit outcome) \<Rightarrow> service \<Rightarrow> int \<times> service" where
  "service_shutdown c answers s0 =
     (let s = s0\<lparr>sv_streams := streams_stop (sv_streams s0), sv_buffers := []\<rparr>;
          (finished_all, s1) = release_locks answers (sv_held s) s
      in if \<not> finished_all then (1, s1)
         else
           (let s2 = s1\<lparr>sv_held := []\<rparr>
            in (0, if sc_enabled c then s2\<lparr>sv_pipes := pipeline_stopAll (sv_pipes s2)\<rparr> else s2)))"

section \<open>Events\<close>

datatype service_event =
    PacketArrives int int packet
  | LockAnswered int nat "bool outcome"
  | StartSettled int nat
  | RefreshAnswered nat "owned_write outcome"
  | LostStopSettled nat
  | ReleaseAnswered nat "unit outcome"
  | InactivityTimer int int
  | CredentialsCome int bool bool
  | FifoOpens int bool
  | ProcessExits int int nat
  | ProcessFails int nat
  | RestartTimer int nat

definition resume :: "nat \<Rightarrow> service \<Rightarrow> service" where
  "resume i s = s\<lparr>sv_waiting := take i (sv_waiting s) @ drop (Suc i) (sv_waiting s)\<rparr>"

text \<open>The i-th waiting handler, if there is one.\<close>

definition waits :: "nat \<Rightarrow> service \<Rightarrow> waiting option" where
  "waits i s = (if i < length (sv_waiting s) then Some (sv_waiting s ! i) else None)"

fun service_step :: "service_config \<Rightarrow> service_event \<Rightarrow> service \<Rightarrow> service option" where
  "service_step c (PacketArrives now port data) s = on_message c now port data s"
| "service_step c (LockAnswered now i answer) s =
     (case waits i s of
        Some (AwaitLock port data timestamp initialData) \<Rightarrow>
          lock_answered c now answer port data timestamp initialData (resume i s)
      | _ \<Rightarrow> Some s)"
| "service_step c (StartSettled now i) s =
     (case waits i s of
        Some (AwaitStart port data timestamp) \<Rightarrow>
          (if js_has (pl_pending (sv_pipes s)) port then Some s
           else track_packet c now port data timestamp True (resume i s))
      | _ \<Rightarrow> Some s)"
| "service_step c (RefreshAnswered i answer) s =
     (case waits i s of
        Some (AwaitRefresh port data already) \<Rightarrow> refresh_answered c answer port data already (resume i s)
      | _ \<Rightarrow> Some s)"
| "service_step c (LostStopSettled i) s =
     (case waits i s of
        Some (AwaitLostStop port data already) \<Rightarrow> feed_packet c port data already (resume i s)
      | _ \<Rightarrow> Some s)"
| "service_step c (ReleaseAnswered i answer) s =
     (case waits i s of
        Some (AwaitRelease port) \<Rightarrow> Some (release_answered c answer port (resume i s))
      | _ \<Rightarrow> Some s)"
| "service_step c (InactivityTimer now port) s = Some (on_inactivity_timer c now port s)"
| "service_step c (CredentialsCome port resolved fifo_made) s =
     Some (s\<lparr>sv_pipes := credentials_answered port resolved fifo_made (sv_pipes s)\<rparr>)"
| "service_step c (FifoOpens port ok) s = Some (s\<lparr>sv_pipes := fifo_opened port ok (sv_pipes s)\<rparr>)"
| "service_step c (ProcessExits now port process) s =
     (let s1 = s\<lparr>sv_pipes := gst_exit port process (sv_pipes s)\<rparr>
      in Some (if pl_effects (sv_pipes s1) = pl_effects (sv_pipes s) then s1
               else on_pipeline_exited c now port s1))"
| "service_step c (ProcessFails port process) s = Some (s\<lparr>sv_pipes := gst_error port process (sv_pipes s)\<rparr>)"
| "service_step c (RestartTimer now i) s = Some (on_restart_timer c now i s)"

fun service_run :: "service_config \<Rightarrow> service_event list \<Rightarrow> service \<Rightarrow> service option" where
  "service_run c [] s = Some s"
| "service_run c (e # es) s = (case service_step c e s of None \<Rightarrow> None | Some s' \<Rightarrow> service_run c es s')"

section \<open>A refused lock\<close>

fun wants_lock :: "int \<Rightarrow> waiting \<Rightarrow> bool" where
  "wants_lock port (AwaitLock p data timestamp initialData) = (p = port)"
| "wants_lock port _ = False"

definition live :: "int \<Rightarrow> streams \<Rightarrow> bool" where
  "live port m \<longleftrightarrow> map_option ss_status (getStreamState m port) = Some ActiveStream"

text \<open>The stream is active, but the port has no lock, keeps nothing back and asks for nothing.\<close>

definition barred :: "int \<Rightarrow> service \<Rightarrow> bool" where
  "barred port s \<longleftrightarrow>
     live port (sv_streams s) \<and> \<not> holds s port \<and>
     \<not> js_has (sv_buffers s) port \<and> list_all (\<lambda>w. \<not> wants_lock port w) (sv_waiting s)"

definition lock_requests :: "int \<Rightarrow> service \<Rightarrow> nat" where
  "lock_requests port s = length (filter (\<lambda>e. e = AskedLock port) (sv_effects s))"

fun stops_stream :: "int \<Rightarrow> service_event \<Rightarrow> bool" where
  "stops_stream port (InactivityTimer now p) = (p = port)"
| "stops_stream port _ = False"

lemma live_received [simp]:
  "live port (onPacketReceived timeout now p timestamp m) \<longleftrightarrow> p = port \<or> live port m"
  by (auto simp: live_def onPacketReceived_def resetInactivityTimer_def stream_emit_def getStreamState_def Let_def
      split: option.split) (metis stream_status.exhaust)+

lemma live_timer [simp]: "p \<noteq> port \<Longrightarrow> live port (inactivity_timer now p m) = live port m"
  by (simp add: live_def inactivity_timer_def handleStreamInactivity_def stream_emit_def getStreamState_def
      split: option.split)

lemma live_not_new: "live port m \<Longrightarrow> getStreamState m port \<noteq> None \<and>
    map_option ss_status (getStreamState m port) \<noteq> Some InactiveStream"
  by (auto simp: live_def)

text \<open>What the operations below do to the fields the two proofs speak of.\<close>

lemma start_pipeline_fields [simp]:
  "sv_streams (start_pipeline c p d s) = sv_streams s" "sv_held (start_pipeline c p d s) = sv_held s"
  "sv_buffers (start_pipeline c p d s) = sv_buffers s" "sv_waiting (start_pipeline c p d s) = sv_waiting s"
  "sv_effects (start_pipeline c p d s) = sv_effects s"
  by (simp_all add: start_pipeline_def)

lemma onStreamStart_fields [simp]:
  "sv_streams (onStreamStart c p s) = sv_streams s" "sv_held (onStreamStart c p s) = sv_held s"
  "sv_buffers (onStreamStart c p s) = sv_buffers s" "sv_waiting (onStreamStart c p s) = sv_waiting s"
  "sv_effects (onStreamStart c p s) = sv_effects s"
  by (simp_all add: onStreamStart_def)

lemma stop_pipeline_fields [simp]:
  "sv_streams (stop_pipeline c p s) = sv_streams s" "sv_held (stop_pipeline c p s) = sv_held s"
  "sv_buffers (stop_pipeline c p s) = sv_buffers s" "sv_waiting (stop_pipeline c p s) = sv_waiting s"
  "sv_effects (stop_pipeline c p s) = sv_effects s"
  by (simp_all add: stop_pipeline_def)

lemma barred_pipes [simp]: "barred port (s\<lparr>sv_pipes := x\<rparr>) = barred port s"
  "lock_requests port (s\<lparr>sv_pipes := x\<rparr>) = lock_requests port s"
  by (simp_all add: barred_def holds_def lock_requests_def)

lemma barred_resume: "barred port s \<Longrightarrow> barred port (resume i s)"
  "lock_requests port (resume i s) = lock_requests port s"
  by (auto simp: barred_def holds_def resume_def list_all_iff lock_requests_def dest: in_set_takeD in_set_dropD)

lemma barred_feed:
  assumes "feed_packet c p data already s = Some s'" "barred port s"
  shows "barred port s' \<and> lock_requests port s' = lock_requests port s"
  using assms by (auto simp: feed_packet_def split: option.splits if_splits)

lemma barred_track:
  assumes "track_packet c now p data timestamp already s = Some s'" "barred port s"
  shows "barred port s' \<and> lock_requests port s' = lock_requests port s"
proof -
  define s1 where "s1 = s\<lparr>sv_streams := onPacketReceived inactivity_timeout now p timestamp (sv_streams s)\<rparr>"
  define s2 where "s2 = (if getStreamState (sv_streams s) p = None then onStreamStart c p s1 else s1)"
  have "barred port s2" "lock_requests port s2 = lock_requests port s"
    using assms(2) by (auto simp: s2_def s1_def barred_def holds_def lock_requests_def)
  moreover have "(if holds s2 p then Some (await (AwaitRefresh p data already) (asked (AskedRefresh p) s2))
      else feed_packet c p data already s2) = Some s'"
    using assms(1) unfolding track_packet_def Let_def s2_def s1_def .
  ultimately show ?thesis
    using barred_feed [of c p data already s2 s' port]
    by (auto simp: await_def asked_def barred_def holds_def lock_requests_def split: if_splits)
qed

lemma barred_packet:
  assumes "onPacket c now p data timestamp s = Some s'" "barred port s"
  shows "barred port s' \<and> lock_requests port s' = lock_requests port s"
proof (cases "sc_enabled c \<and> isPortInRange (sc_pipeline c) p \<and> \<not> holds s p \<and>
    (getStreamState (sv_streams s) p = None \<or>
     map_option ss_status (getStreamState (sv_streams s) p) = Some InactiveStream \<or> js_has (sv_buffers s) p)")
  case True
  then have other: "p \<noteq> port" using assms(2) live_not_new [of port "sv_streams s"] by (auto simp: barred_def)
  define buf where "buf = buffer_packet data (map_of (sv_buffers s) p)"
  have kept: "barred port (s\<lparr>sv_buffers := AList.update p buf (sv_buffers s)\<rparr>)"
    using assms(2) other by (simp add: barred_def holds_def)
  show ?thesis
  proof (cases "reaches (sc_min_bytes c) (pb_total buf)")
    case True
    with \<open>sc_enabled c \<and> _\<close> assms other show ?thesis
      by (auto simp: onPacket_def Let_def buf_def [symmetric] await_def asked_def barred_def holds_def lock_requests_def)
  next
    case False
    with \<open>sc_enabled c \<and> _\<close> assms(1)
    have "track_packet c now p data timestamp False (s\<lparr>sv_buffers := AList.update p buf (sv_buffers s)\<rparr>) = Some s'"
      by (auto simp: onPacket_def Let_def buf_def [symmetric])
    from barred_track [OF this kept] show ?thesis by (simp add: lock_requests_def)
  qed
next
  case False
  with assms(1) have "track_packet c now p data timestamp False s = Some s'"
    by (auto simp: onPacket_def Let_def)
  from barred_track [OF this assms(2)] show ?thesis .
qed


lemma barred_stop:
  assumes "barred port s" "p \<noteq> port"
  shows "barred port (onStreamStop c p s) \<and> lock_requests port (onStreamStop c p s) = lock_requests port s"
  using assms
  by (auto simp: onStreamStop_def Let_def await_def asked_def barred_def holds_def lock_requests_def)

lemma barred_refresh:
  assumes "refresh_answered c answer p data already s = Some s'" "barred port s"
  shows "barred port s' \<and> lock_requests port s' = lock_requests port s"
proof (cases "answer = Inr LostLock")
  case True
  have lost: "barred port (s\<lparr>sv_held := removeAll p (sv_held s)\<rparr>)"
    using assms(2) by (auto simp: barred_def holds_def)
  show ?thesis
  proof (cases "sc_enabled c")
    case True
    then have "s' = await (AwaitLostStop p data already)
        (s\<lparr>sv_held := removeAll p (sv_held s), sv_pipes := snd (pipeline_stop p (sv_pipes s))\<rparr>)"
      using assms(1) \<open>answer = Inr LostLock\<close> by (simp add: refresh_answered_def Let_def)
    then show ?thesis using lost by (simp add: await_def barred_def holds_def lock_requests_def)
  next
    case False
    then have "feed_packet c p data already (s\<lparr>sv_held := removeAll p (sv_held s)\<rparr>) = Some s'"
      using assms(1) \<open>answer = Inr LostLock\<close> by (simp add: refresh_answered_def Let_def)
    from barred_feed [OF this lost] show ?thesis by (simp add: lock_requests_def)
  qed
next
  case False
  then have "feed_packet c p data already s = Some s'"
    using assms(1) by (auto simp: refresh_answered_def split: sum.splits owned_write.splits)
  from barred_feed [OF this assms(2)] show ?thesis .
qed

lemma barred_step:
  assumes "service_step c e s = Some s'" "barred port s" "\<not> stops_stream port e"
  shows "barred port s' \<and> lock_requests port s' = lock_requests port s"
proof (cases e)
  case (PacketArrives now p data)
  then show ?thesis
    using assms barred_packet [of c now p data now s s' port] by (auto simp: on_message_def split: if_splits)
next
  case (LockAnswered now i answer)
  show ?thesis
  proof (cases "waits i s")
    case (Some w)
    show ?thesis
    proof (cases w)
      case (AwaitLock p data timestamp initialData)
      have "w \<in> set (sv_waiting s)" using Some by (auto simp: waits_def split: if_splits)
      then have other: "p \<noteq> port" using assms(2) AwaitLock by (auto simp: barred_def list_all_iff)
      have step: "lock_answered c now answer p data timestamp initialData (resume i s) = Some s'"
        using assms(1) Some AwaitLock LockAnswered by simp
      show ?thesis
      proof (cases "answer = Inr True")
        case True
        then show ?thesis
          using step barred_resume(1) [OF assms(2), of i] barred_resume(2) [of port i s] other
          by (auto simp: lock_answered_def await_def barred_def holds_def lock_requests_def resume_def)
      next
        case False
        then have "track_packet c now p data timestamp True (resume i s) = Some s'"
          using step by (auto simp: lock_answered_def split: sum.splits bool.splits)
        from barred_track [OF this barred_resume(1) [OF assms(2)]] show ?thesis by (simp add: barred_resume)
      qed
    qed (use assms LockAnswered Some in auto)
  qed (use assms LockAnswered in auto)
next
  case (StartSettled now i)
  then show ?thesis
    using assms barred_track [OF _ barred_resume(1) [OF assms(2), of i]]
    by (auto simp: barred_resume split: option.splits waiting.splits if_splits)
next
  case (RefreshAnswered i answer)
  then show ?thesis
    using assms barred_refresh [OF _ barred_resume(1) [OF assms(2), of i]]
    by (auto simp: barred_resume split: option.splits waiting.splits)
next
  case (LostStopSettled i)
  then show ?thesis
    using assms barred_feed [OF _ barred_resume(1) [OF assms(2), of i]]
    by (auto simp: barred_resume split: option.splits waiting.splits)
next
  case (ReleaseAnswered i answer)
  have "barred port (release_answered c answer p (resume i s)) \<and>
      lock_requests port (release_answered c answer p (resume i s)) = lock_requests port s" for p
    using barred_resume(1) [OF assms(2), of i] barred_resume(2) [of port i s]
    by (auto simp: release_answered_def barred_def holds_def lock_requests_def split: sum.split)
  then show ?thesis using assms ReleaseAnswered by (auto split: option.splits waiting.splits)
next
  case (InactivityTimer now p)
  then have "barred port (s\<lparr>sv_streams := inactivity_timer now p (sv_streams s)\<rparr>)"
    using assms(2,3) by (simp add: barred_def holds_def)
  from barred_stop [OF this, of p c] show ?thesis
    using assms InactivityTimer
    by (auto simp: on_inactivity_timer_def Let_def barred_def holds_def lock_requests_def split: if_splits)
next
  case (ProcessExits now p process)
  then show ?thesis
    using assms
    by (auto simp: Let_def on_pipeline_exited_def barred_def holds_def lock_requests_def split: if_splits)
next
  case (RestartTimer now i)
  then show ?thesis
    using assms
    by (auto simp: Let_def on_restart_timer_def barred_def holds_def lock_requests_def split: if_splits)
qed (use assms in auto)

lemma barred_run:
  assumes "service_run c es s = Some s'" "barred port s" "list_all (\<lambda>e. \<not> stops_stream port e) es"
  shows "barred port s' \<and> lock_requests port s' = lock_requests port s"
  using assms
proof (induction es arbitrary: s)
  case (Cons e es)
  then obtain s1 where s1: "service_step c e s = Some s1" "service_run c es s1 = Some s'"
    by (auto split: option.splits)
  then show ?case using barred_step [OF s1(1)] Cons by auto
qed simp


lemma refused_barred:
  assumes "lock_answered c now answer port data timestamp initialData s = Some s1" "answer \<noteq> Inr True"
    and "\<not> holds s port" "\<not> js_has (sv_buffers s) port" "list_all (\<lambda>w. \<not> wants_lock port w) (sv_waiting s)"
  shows "barred port s1 \<and> lock_requests port s1 = lock_requests port s"
proof -
  have "track_packet c now port data timestamp True s = Some s1"
    using assms(1,2) by (auto simp: lock_answered_def split: sum.splits bool.splits)
  then show ?thesis
    using assms(3-5)
    by (auto simp: track_packet_def feed_packet_def barred_def holds_def lock_requests_def Let_def split: if_splits)
qed

text \<open>C28. A refused lock is not asked for again. At the refusal - or failure - the port is not held, keeps no
  packet back and no other handler of it waits for the lock, as after a stream's packets have been kept back and the one that
  asked was the only one under way. Then nothing but the end of the stream - a minute without packets - makes the service ask again,
  however many packets arrive and whatever else happens, also when the lock has long become free. (When the first
  packet of a stream asks by itself, packets that arrive before the refusal are kept back, since the
  stream has not been seen yet; those do ask again when they make up the amount.)\<close>

theorem refused_lock_never_retried:
  assumes "waits i s = Some (AwaitLock port data timestamp initialData)" and "answer \<noteq> Inr True"
    and "\<not> holds s port" "\<not> js_has (sv_buffers s) port"
    and "list_all (\<lambda>w. \<not> wants_lock port w) (sv_waiting (resume i s))"
    and "service_run c (LockAnswered now i answer # es) s = Some s'"
    and "list_all (\<lambda>e. \<not> stops_stream port e) es"
  shows "lock_requests port s' = lock_requests port s \<and> \<not> holds s' port"
proof -
  obtain s1 where s1: "lock_answered c now answer port data timestamp initialData (resume i s) = Some s1"
      "service_run c es s1 = Some s'"
    using assms(1,6) by (auto split: option.splits)
  have "barred port s1 \<and> lock_requests port s1 = lock_requests port s"
    using refused_barred [OF s1(1) assms(2)] assms(3-5)
    by (auto simp: holds_def resume_def lock_requests_def)
  then show ?thesis using barred_run [OF s1(2) _ assms(7)] by (auto simp: barred_def)
qed

definition sample_service :: service_config where
  "sample_service = \<lparr>sc_pipeline = \<lparr>streamNamePrefix = js ''s'', pl_region = js ''r'', pl_range_start = 5000,
     pl_range_end = 5009, reorderBufferSize = None, logGstreamerOutput = None\<rparr>, sc_enabled = True,
     sc_min_bytes = Some 2, sc_accepts = (\<lambda>_. True)\<rparr>"

definition asking_service :: service where
  "asking_service = new_service\<lparr>sv_waiting := [AwaitLock 5000 [1, 2] 0 [1, 2]], sv_effects := [AskedLock 5000]\<rparr>"

lemma refused_lock_never_retried_witness:
  "service_run sample_service [PacketArrives 0 5000 [1, 2]] new_service = Some asking_service \<and>
   (case service_run sample_service [LockAnswered 1 0 (Inr False), PacketArrives 2 5000 [3, 4, 5]] asking_service of
      None \<Rightarrow> False
    | Some s' \<Rightarrow> lock_requests 5000 s' = 1)"
proof -
  have run: "\<exists>s'. service_run sample_service [LockAnswered 1 0 (Inr False), PacketArrives 2 5000 [3, 4, 5]]
      asking_service = Some s'"
    by (simp add: asking_service_def sample_service_def new_service_def waits_def lock_answered_def track_packet_def
        resume_def holds_def feed_packet_def Let_def onStreamStart_def new_streams_def getStreamState_def
        on_message_def isValidPacket_def onPacket_def onPacketReceived_def resetInactivityTimer_def
        stream_emit_def isPortInRange_def js_has_def)
  have first: "service_run sample_service [PacketArrives 0 5000 [1, 2]] new_service = Some asking_service"
    by (simp add: asking_service_def sample_service_def new_service_def on_message_def isValidPacket_def onPacket_def
        getStreamState_def new_streams_def isPortInRange_def holds_def buffer_packet_def reaches_def await_def asked_def
        Let_def)
  from run obtain s' where s': "service_run sample_service
      [LockAnswered 1 0 (Inr False), PacketArrives 2 5000 [3, 4, 5]] asking_service = Some s'" ..
  have "lock_requests 5000 s' = lock_requests 5000 asking_service \<and> \<not> holds s' 5000"
    by (rule refused_lock_never_retried [OF _ _ _ _ _ s'])
      (simp_all add: asking_service_def new_service_def waits_def holds_def js_has_def resume_def)
  then have "lock_requests 5000 s' = 1" by (simp add: lock_requests_def asking_service_def new_service_def)
  with first show ?thesis by (simp only: s' option.case simp_thms)
qed

section \<open>Packets handled one at a time\<close>

text \<open>A packet whose handler has every answer before the next one arrives: the lock is granted, the
  credentials and the FIFO come, the lease is refreshed.\<close>

fun handled :: "int \<Rightarrow> int \<times> packet \<Rightarrow> service_event list" where
  "handled port (now, data) =
     [PacketArrives now port data, LockAnswered now 0 (Inr True), CredentialsCome port True True,
      FifoOpens port True, StartSettled now 0, RefreshAnswered 0 (Inr WriteOk)]"

definition kept_back :: "service_config \<Rightarrow> int \<Rightarrow> packet list \<Rightarrow> service \<Rightarrow> bool" where
  "kept_back c port ds s \<longleftrightarrow>
     sv_waiting s = [] \<and> \<not> holds s port \<and> map_of (pl_active (sv_pipes s)) port = None \<and>
     map_of (pl_pending (sv_pipes s)) port = None \<and> lock_requests port s = 0 \<and>
     (if ds = [] then getStreamState (sv_streams s) port = None \<and> map_of (sv_buffers s) port = None
      else live port (sv_streams s) \<and>
        map_of (sv_buffers s) port = Some \<lparr>pb_chunks = ds, pb_total = int (length (concat ds))\<rparr>)"

definition fed :: "service_config \<Rightarrow> int \<Rightarrow> packet list \<Rightarrow> service \<Rightarrow> bool" where
  "fed c port ds s \<longleftrightarrow>
     sv_waiting s = [] \<and> holds s port \<and> live port (sv_streams s) \<and>
     map_of (pl_pending (sv_pipes s)) port = None \<and>
     (case map_of (pl_active (sv_pipes s)) port of
        None \<Rightarrow> False
      | Some p \<Rightarrow> pp_writable p \<and> settled (pp_reorder p) \<and> concat (pp_input p) = concat ds)"

lemma write_settled:
  assumes "map_of (pl_active s) port = Some p" "pp_writable p" "settled (pp_reorder p)"
  shows "\<exists>r. writePacket c accepts port data s =
      Some (set_pipe port (p\<lparr>pp_reorder := r, pp_input := pp_input p @ [data]\<rparr>) s) \<and> settled r"
proof (cases "max_buffer c \<le> 0")
  case True
  then have "writePacket c accepts port data s =
      Some (set_pipe port (p\<lparr>pp_reorder := pp_reorder p, pp_input := pp_input p @ [data]\<rparr>) s)"
    using assms by (simp add: writePacket_def)
  then show ?thesis using assms(3) by blast
next
  case False
  then show ?thesis
    using assms drain_one [OF assms(3), of "max_buffer c" accepts data "pp_input p"]
    by (auto simp: writePacket_def Let_def settled_def)
qed

lemma unseen_not_live: "getStreamState m port = None \<Longrightarrow> \<not> live port m"
  by (simp add: live_def)

lemma waits_simps [simp]:
  "sv_waiting s = [] \<Longrightarrow> waits i s = None"
  "sv_waiting s = [w] \<Longrightarrow> waits 0 s = Some w"
  by (simp_all add: waits_def)

lemma fed_packet:
  assumes "fed c port ds s" "sc_enabled c" "data \<noteq> []"
  shows "\<exists>s'. service_run c (handled port (now, data)) s = Some s' \<and> fed c port (ds @ [data]) s'"
proof -
  obtain p where p: "map_of (pl_active (sv_pipes s)) port = Some p" "pp_writable p" "settled (pp_reorder p)"
      "concat (pp_input p) = concat ds"
    using assms(1) by (auto simp: fed_def split: option.splits)
  let ?m = "onPacketReceived inactivity_timeout now port now (sv_streams s)"
  define s1 where "s1 = await (AwaitRefresh port data False) (asked (AskedRefresh port) (s\<lparr>sv_streams := ?m\<rparr>))"
  have arrive: "service_step c (PacketArrives now port data) s = Some s1"
    using assms live_not_new [of port "sv_streams s"]
    by (auto simp: on_message_def isValidPacket_def onPacket_def fed_def track_packet_def Let_def s1_def holds_def)
  have w: "waits 0 s1 = Some (AwaitRefresh port data False)"
    using assms(1) by (simp add: s1_def await_def asked_def fed_def waits_def)
  obtain r where r: "writePacket (sc_pipeline c) (sc_accepts c) port data (sv_pipes s) =
      Some (set_pipe port (p\<lparr>pp_reorder := r, pp_input := pp_input p @ [data]\<rparr>) (sv_pipes s))" "settled r"
    using write_settled [OF p(1-3)] by blast
  define s2 where "s2 = (resume 0 s1)\<lparr>sv_pipes :=
      set_pipe port (p\<lparr>pp_reorder := r, pp_input := pp_input p @ [data]\<rparr>) (sv_pipes s)\<rparr>"
  have refresh: "service_step c (RefreshAnswered 0 (Inr WriteOk)) s1 = Some s2"
    using w r(1) assms(1,2)
    by (simp add: refresh_answered_def feed_packet_def resume_def holds_def s1_def s2_def await_def asked_def fed_def)
  have idle: "service_step c (LockAnswered now 0 (Inr True)) s1 = Some s1"
    "service_step c (CredentialsCome port True True) s1 = Some s1"
    "service_step c (FifoOpens port True) s1 = Some s1"
    "service_step c (StartSettled now 0) s1 = Some s1"
    using w assms(1) by (simp_all add: credentials_answered_def fifo_opened_def s1_def await_def asked_def fed_def)
  have "fed c port (ds @ [data]) s2"
    using assms(1) p r(2)
    by (simp add: fed_def s2_def s1_def resume_def await_def asked_def holds_def set_pipe_def)
  then show ?thesis by (simp add: arrive idle refresh del: service_step.simps)
qed

lemma kept_packet_short:
  assumes "kept_back c port ds s" "data \<noteq> []" "sc_enabled c" "isPortInRange (sc_pipeline c) port"
    and "\<not> reaches (sc_min_bytes c) (int (length (concat (ds @ [data]))))"
  shows "\<exists>s'. service_run c (handled port (now, data)) s = Some s' \<and> kept_back c port (ds @ [data]) s'"
proof -
  let ?m = "onPacketReceived inactivity_timeout now port now (sv_streams s)"
  let ?b = "\<lparr>pb_chunks = ds @ [data], pb_total = int (length (concat (ds @ [data])))\<rparr>"
  define s1 where "s1 = s\<lparr>sv_buffers := AList.update port ?b (sv_buffers s), sv_streams := ?m\<rparr>"
  have buf: "buffer_packet data (map_of (sv_buffers s) port) = ?b"
    using assms(1) by (auto simp: kept_back_def buffer_packet_def split: if_splits)
  have "getStreamState (sv_streams s) port = None \<or> js_has (sv_buffers s) port"
    using assms(1) by (auto simp: kept_back_def js_has_def split: if_splits)
  then have arrive: "service_step c (PacketArrives now port data) s = Some s1"
    using assms buf
    by (auto simp: on_message_def isValidPacket_def onPacket_def kept_back_def track_packet_def Let_def s1_def
        holds_def feed_packet_def onStreamStart_def)
  have idle: "service_step c (LockAnswered now 0 (Inr True)) s1 = Some s1"
    "service_step c (CredentialsCome port True True) s1 = Some s1"
    "service_step c (FifoOpens port True) s1 = Some s1"
    "service_step c (StartSettled now 0) s1 = Some s1"
    "service_step c (RefreshAnswered 0 (Inr WriteOk)) s1 = Some s1"
    using assms(1) by (simp_all add: credentials_answered_def fifo_opened_def s1_def kept_back_def)
  have "kept_back c port (ds @ [data]) s1"
    using assms(1) by (simp add: kept_back_def s1_def holds_def lock_requests_def)
  then show ?thesis by (simp add: arrive idle del: service_step.simps)
qed

text \<open>The port's lock is being waited for, with the initial data in hand.\<close>

definition asking :: "service_config \<Rightarrow> int \<Rightarrow> packet \<Rightarrow> service \<Rightarrow> bool" where
  "asking c port initialData s \<longleftrightarrow>
     (\<exists>data timestamp. sv_waiting s = [AwaitLock port data timestamp initialData]) \<and> initialData \<noteq> [] \<and>
     \<not> holds s port \<and> map_of (pl_active (sv_pipes s)) port = None \<and> map_of (pl_pending (sv_pipes s)) port = None"

lemma kept_packet_asks:
  assumes "kept_back c port ds s" "data \<noteq> []" "sc_enabled c" "isPortInRange (sc_pipeline c) port"
    and "reaches (sc_min_bytes c) (int (length (concat (ds @ [data]))))"
  shows "\<exists>s'. service_step c (PacketArrives now port data) s = Some s' \<and> asking c port (concat (ds @ [data])) s' \<and>
    \<not> js_has (sv_buffers s') port \<and> sv_streams s' = sv_streams s"
proof -
  let ?init = "concat (ds @ [data])"
  have buf: "buffer_packet data (map_of (sv_buffers s) port) =
      \<lparr>pb_chunks = ds @ [data], pb_total = int (length ?init)\<rparr>"
    using assms(1) by (auto simp: kept_back_def buffer_packet_def split: if_splits)
  have enter: "getStreamState (sv_streams s) port = None \<or> js_has (sv_buffers s) port"
    using assms(1) by (auto simp: kept_back_def js_has_def split: if_splits)
  define s1 where "s1 = await (AwaitLock port data now ?init)
      (asked (AskedLock port) (s\<lparr>sv_buffers := AList.delete port (sv_buffers s)\<rparr>))"
  have "service_step c (PacketArrives now port data) s = Some s1"
    using assms buf enter
    by (auto simp: on_message_def isValidPacket_def onPacket_def kept_back_def Let_def s1_def holds_def)
  moreover have "asking c port ?init s1 \<and> \<not> js_has (sv_buffers s1) port \<and> sv_streams s1 = sv_streams s"
    using assms(1,2) by (auto simp: asking_def s1_def await_def asked_def kept_back_def holds_def)
  ultimately show ?thesis by blast
qed

text \<open>The answers, once they come.\<close>

definition start_answers :: "int \<Rightarrow> int \<Rightarrow> service_event list" where
  "start_answers port now =
     [LockAnswered now 0 (Inr True), CredentialsCome port True True, FifoOpens port True, StartSettled now 0,
      RefreshAnswered 0 (Inr WriteOk)]"

lemma asking_answered:
  assumes "asking c port initialData s" "sc_enabled c" "isPortInRange (sc_pipeline c) port"
  shows "\<exists>s'. service_run c (start_answers port now) s = Some s' \<and> fed c port [initialData] s' \<and>
    (\<exists>p. map_of (pl_active (sv_pipes s')) port = Some p \<and> pp_input p = [initialData])"
proof -
  obtain data timestamp where wait: "sv_waiting s = [AwaitLock port data timestamp initialData]"
    using assms(1) by (auto simp: asking_def)
  let ?m = "onPacketReceived inactivity_timeout now port timestamp (sv_streams s)"
  define pd where "pd = \<lparr>pd_phase = Resolving 1, pd_initial = Some initialData\<rparr>"
  define s2 where "s2 = await (AwaitStart port data timestamp)
      ((resume 0 s)\<lparr>sv_held := List.insert port (sv_held s),
         sv_pipes := (sv_pipes s)\<lparr>pl_pending := AList.update port pd (pl_pending (sv_pipes s))\<rparr>\<rparr>)"
  have lock: "service_step c (LockAnswered now 0 (Inr True)) s = Some s2"
    using assms wait
    by (simp add: s2_def pd_def lock_answered_def start_pipeline_def pipeline_start_def asking_def await_def
        asked_def resume_def js_has_def)
  define pipes3 where "pipes3 = credentials_answered port True True (sv_pipes s2)"
  define s3 where "s3 = s2\<lparr>sv_pipes := pipes3\<rparr>"
  have credentials: "service_step c (CredentialsCome port True True) s2 = Some s3"
    by (simp add: s3_def pipes3_def)
  define s4 where "s4 = s3\<lparr>sv_pipes := fifo_opened port True (sv_pipes s3)\<rparr>"
  have fifo: "service_step c (FifoOpens port True) s3 = Some s4"
    by (simp add: s4_def)
  have pipe: "map_of (pl_pending (sv_pipes s4)) port = None"
    "\<exists>p. map_of (pl_active (sv_pipes s4)) port = Some p \<and> pp_writable p \<and> settled (pp_reorder p) \<and>
      pp_input p = [initialData]"
    using assms(1)
    by (auto simp: s4_def s3_def pipes3_def s2_def pd_def credentials_answered_def fifo_opened_def settle_def did_def
        await_def asking_def)
  have rest: "sv_waiting s4 = [AwaitStart port data timestamp]" "holds s4 port" "sv_streams s4 = sv_streams s"
    using wait by (simp_all add: s4_def s3_def s2_def await_def resume_def holds_def)
  define s5 where "s5 = await (AwaitRefresh port data True) (asked (AskedRefresh port)
      ((resume 0 s4)\<lparr>sv_streams := ?m\<rparr>))"
  have start_again: "pipeline_start (sc_pipeline c) port None (sv_pipes s4) = (Returned, sv_pipes s4)"
    using pipe(2) by (auto simp: pipeline_start_def js_has_def)
  have settle: "service_step c (StartSettled now 0) s4 = Some s5"
    using pipe(1) rest start_again
    by (auto simp: track_packet_def Let_def s5_def onStreamStart_def start_pipeline_def resume_def holds_def js_has_def
        await_def asked_def)
  define s6 where "s6 = resume 0 s5"
  have w: "sv_waiting s5 = [AwaitRefresh port data True]"
    using rest by (simp add: s5_def await_def asked_def resume_def)
  then have refresh: "service_step c (RefreshAnswered 0 (Inr WriteOk)) s5 = Some s6"
    by (simp add: refresh_answered_def feed_packet_def s6_def)
  have "fed c port [initialData] s6 \<and> (\<exists>p. map_of (pl_active (sv_pipes s6)) port = Some p \<and> pp_input p = [initialData])"
    using pipe rest
    by (auto simp: fed_def s6_def s5_def resume_def await_def asked_def holds_def)
  then show ?thesis by (simp add: start_answers_def lock credentials fifo settle refresh del: service_step.simps)
qed

lemma handled_answers: "handled port (now, data) = PacketArrives now port data # start_answers port now"
  by (simp add: start_answers_def)

lemma kept_packet_start:
  assumes "kept_back c port ds s" "data \<noteq> []" "sc_enabled c" "isPortInRange (sc_pipeline c) port"
    and "reaches (sc_min_bytes c) (int (length (concat (ds @ [data]))))"
  shows "\<exists>s'. service_run c (handled port (now, data)) s = Some s' \<and> fed c port (ds @ [data]) s'"
proof -
  obtain s1 where s1: "service_step c (PacketArrives now port data) s = Some s1"
      "asking c port (concat (ds @ [data])) s1"
    using kept_packet_asks [OF assms, of now] by blast
  obtain s' where "service_run c (start_answers port now) s1 = Some s'" "fed c port [concat (ds @ [data])] s'"
    using asking_answered [OF s1(2) assms(3,4), of now] by blast
  then show ?thesis
    using s1(1) by (auto simp: handled_answers fed_def simp del: handled.simps service_step.simps split: option.splits)
qed

lemma service_run_append:
  "service_run c (es @ fs) s = (case service_run c es s of None \<Rightarrow> None | Some s' \<Rightarrow> service_run c fs s')"
  by (induction es arbitrary: s) (auto split: option.split)

lemma fed_packets:
  "fed c port ds s \<Longrightarrow> sc_enabled c \<Longrightarrow> list_all (\<lambda>(now, data). data \<noteq> []) xs \<Longrightarrow>
    \<exists>s'. service_run c (concat (map (handled port) xs)) s = Some s' \<and> fed c port (ds @ map snd xs) s'"
proof (induction xs arbitrary: ds s)
  case (Cons x xs)
  obtain now data where x: "x = (now, data)" by fastforce
  obtain s1 where s1: "service_run c (handled port x) s = Some s1" "fed c port (ds @ [data]) s1"
    using fed_packet [OF Cons.prems(1,2), of data now] Cons.prems(3) x by auto
  from Cons.IH [OF s1(2) Cons.prems(2)] Cons.prems(3) show ?case
    using s1(1) by (auto simp: service_run_append x simp del: handled.simps)
qed simp

lemma reaches_mono: "reaches least n \<Longrightarrow> n \<le> k \<Longrightarrow> reaches least k"
  by (auto simp: reaches_def split: option.splits)

lemma kept_packets:
  "kept_back c port ds s \<Longrightarrow> sc_enabled c \<Longrightarrow> isPortInRange (sc_pipeline c) port \<Longrightarrow>
    list_all (\<lambda>(now, data). data \<noteq> []) xs \<Longrightarrow> (ds = [] \<or> \<not> reaches (sc_min_bytes c) (int (length (concat ds)))) \<Longrightarrow>
    \<exists>s'. service_run c (concat (map (handled port) xs)) s = Some s' \<and>
      (if ds @ map snd xs \<noteq> [] \<and> reaches (sc_min_bytes c) (int (length (concat (ds @ map snd xs))))
       then fed c port (ds @ map snd xs) s' else kept_back c port (ds @ map snd xs) s')"
proof (induction xs arbitrary: ds s)
  case (Cons x xs)
  obtain now data where x: "x = (now, data)" by fastforce
  have data: "data \<noteq> []" using Cons.prems(4) x by simp
  show ?case
  proof (cases "reaches (sc_min_bytes c) (int (length (concat (ds @ [data]))))")
    case True
    obtain s1 where s1: "service_run c (handled port x) s = Some s1" "fed c port (ds @ [data]) s1"
      using kept_packet_start [OF Cons.prems(1) data Cons.prems(2,3) True, of now] x by auto
    have "reaches (sc_min_bytes c) (int (length (concat (ds @ map snd (x # xs)))))"
      by (rule reaches_mono [OF True]) (simp add: x)
    then show ?thesis
      using fed_packets [OF s1(2) Cons.prems(2), of xs] Cons.prems(4) s1(1)
      by (auto simp: service_run_append x simp del: handled.simps)
  next
    case False
    obtain s1 where s1: "service_run c (handled port x) s = Some s1" "kept_back c port (ds @ [data]) s1"
      using kept_packet_short [OF Cons.prems(1) data Cons.prems(2,3) False, of now] x by auto
    show ?thesis
      using Cons.IH [OF s1(2) Cons.prems(2,3)] Cons.prems(4) False s1(1)
      by (auto simp: service_run_append x simp del: handled.simps)
  qed
qed auto


lemma new_kept_back: "kept_back c port [] new_service"
  by (simp add: kept_back_def new_service_def holds_def new_pipelines_def lock_requests_def getStreamState_def
      new_streams_def)

text \<open>C26. Nothing is lost or repeated when packets do not overlap: when the lock is granted, the
  pipeline starts, and each packet's handler is through before the next packet arrives, then
  either the port has not received enough - and has kept every packet, and asked for no lock - or
  its pipeline has been given exactly the bytes received, in order and from the first packet on.\<close>

theorem ingest_lossless:
  assumes "sc_enabled c" and "isPortInRange (sc_pipeline c) port"
    and "list_all (\<lambda>(now, data). data \<noteq> []) xs" and "xs \<noteq> []"
  shows "(case service_run c (concat (map (handled port) xs)) new_service of
      None \<Rightarrow> False
    | Some s \<Rightarrow>
        (let ds = map snd xs
         in if reaches (sc_min_bytes c) (int (length (concat ds)))
            then holds s port \<and> (\<exists>p. map_of (pl_active (sv_pipes s)) port = Some p \<and> concat (pp_input p) = concat ds)
            else lock_requests port s = 0 \<and> \<not> holds s port \<and> map_of (pl_active (sv_pipes s)) port = None \<and>
              map_of (sv_buffers s) port = Some \<lparr>pb_chunks = ds, pb_total = int (length (concat ds))\<rparr>))"
proof -
  obtain s where s: "service_run c (concat (map (handled port) xs)) new_service = Some s"
      "if map snd xs \<noteq> [] \<and> reaches (sc_min_bytes c) (int (length (concat (map snd xs))))
       then fed c port (map snd xs) s else kept_back c port (map snd xs) s"
    using kept_packets [OF new_kept_back assms(1-3)] unfolding append_Nil by blast
  then show ?thesis
    using assms(4) by (auto simp: fed_def kept_back_def Let_def split: option.splits if_splits)
qed

lemma ingest_lossless_witness:
  "(case service_run sample_service (concat (map (handled 5000) [(1, [7]), (2, [8, 9]), (3, [4])])) new_service of
      None \<Rightarrow> False
    | Some s \<Rightarrow> (\<exists>p. map_of (pl_active (sv_pipes s)) 5000 = Some p \<and> concat (pp_input p) = [7, 8, 9, 4]))"
proof -
  have "isPortInRange (sc_pipeline sample_service) 5000" "sc_enabled sample_service"
    "reaches (sc_min_bytes sample_service) 4"
    by (simp_all add: isPortInRange_def sample_service_def reaches_def)
  then show ?thesis
    using ingest_lossless [of sample_service 5000 "[(1, [7]), (2, [8, 9]), (3, [4])]"]
    by (auto simp: Let_def simp del: handled.simps service_run.simps split: option.splits)
qed

text \<open>A packet that finds its stream active, but the port without a lock and with nothing kept back, is dropped: it
  is in no buffer, in no pipeline and in no handler that waits, and nothing is asked for.\<close>

lemma packet_dropped:
  assumes "live port (sv_streams s)" "\<not> holds s port" "\<not> js_has (sv_buffers s) port" "data \<noteq> []"
  shows "service_step c (PacketArrives now port data) s =
    Some (s\<lparr>sv_streams := onPacketReceived inactivity_timeout now port now (sv_streams s)\<rparr>)"
  using assms live_not_new [OF assms(1)]
  by (auto simp: on_message_def isValidPacket_def onPacket_def track_packet_def Let_def feed_packet_def holds_def)

definition arrivals :: "int \<Rightarrow> (int \<times> packet) list \<Rightarrow> service_event list" where
  "arrivals port xs = map (\<lambda>(now, data). PacketArrives now port data) xs"

lemma packets_dropped:
  "asking c port initialData s \<Longrightarrow> live port (sv_streams s) \<Longrightarrow> \<not> js_has (sv_buffers s) port \<Longrightarrow>
    list_all (\<lambda>(now, data). data \<noteq> []) xs \<Longrightarrow>
    \<exists>s'. service_run c (arrivals port xs) s = Some s' \<and> asking c port initialData s'"
proof (induction xs arbitrary: s)
  case (Cons x xs)
  obtain now data where x: "x = (now, data)" by fastforce
  let ?s = "s\<lparr>sv_streams := onPacketReceived inactivity_timeout now port now (sv_streams s)\<rparr>"
  have "service_step c (PacketArrives now port data) s = Some ?s"
    using Cons.prems by (intro packet_dropped) (simp_all add: asking_def x)
  moreover have "asking c port initialData ?s" using Cons.prems(1) by (simp add: asking_def holds_def)
  ultimately show ?case
    using Cons.IH [of ?s] Cons.prems by (simp add: arrivals_def x del: service_step.simps)
qed (simp add: arrivals_def)

text \<open>C27. The packets that arrive while the port's lock is awaited are lost, when packets had been kept back
  before; here in a new service, whose lock request and start succeed. Packets that are too few are kept back; the next one makes up the amount and asks for the lock; however many
  more arrive, at whatever times, before the lock service has answered, none of them is kept or written: the
  pipeline is given what had been kept, the packet that asked and then what arrives after its start, each handled
  before the next. (A packet that arrives later, while the pipeline itself is being started, waits for its
  lease to be refreshed first, and is lost only if that is answered before the pipeline is up.)\<close>

theorem packet_during_start_lost:
  assumes "sc_enabled c" and "isPortInRange (sc_pipeline c) port"
    and "list_all (\<lambda>(now, data). data \<noteq> []) (kept @ (t, d) # lost @ rest)" and "kept \<noteq> []"
    and "\<not> reaches (sc_min_bytes c) (int (length (concat (map snd kept))))"
    and "reaches (sc_min_bytes c) (int (length (concat (map snd kept) @ d)))"
  shows "(case service_run c
      (concat (map (handled port) kept) @ PacketArrives t port d # arrivals port lost @ start_answers port now @
       concat (map (handled port) rest)) new_service of
      None \<Rightarrow> False
    | Some s \<Rightarrow> (\<exists>p. map_of (pl_active (sv_pipes s)) port = Some p \<and>
        concat (pp_input p) = concat (map snd kept) @ d @ concat (map snd rest)))"
proof -
  let ?kept = "map snd kept"
  have nonempty: "list_all (\<lambda>(now, data). data \<noteq> []) kept" "d \<noteq> []" "list_all (\<lambda>(now, data). data \<noteq> []) lost"
    "list_all (\<lambda>(now, data). data \<noteq> []) rest"
    using assms(3) by simp_all
  obtain s1 where s1: "service_run c (concat (map (handled port) kept)) new_service = Some s1" "kept_back c port ?kept s1"
    using kept_packets [OF new_kept_back assms(1,2) nonempty(1)] assms(5) by auto
  obtain s2 where s2: "service_step c (PacketArrives t port d) s1 = Some s2" "asking c port (concat (?kept @ [d])) s2"
      "\<not> js_has (sv_buffers s2) port" "sv_streams s2 = sv_streams s1"
    using kept_packet_asks [OF s1(2) nonempty(2) assms(1,2), of t] assms(6) by auto
  have "live port (sv_streams s2)" using s1(2) s2(4) assms(4) by (simp add: kept_back_def)
  then obtain s3 where s3: "service_run c (arrivals port lost) s2 = Some s3" "asking c port (concat (?kept @ [d])) s3"
    using packets_dropped [OF s2(2) _ s2(3) nonempty(3)] by blast
  obtain s4 where s4: "service_run c (start_answers port now) s3 = Some s4" "fed c port [concat (?kept @ [d])] s4"
    using asking_answered [OF s3(2) assms(1,2), of now] by blast
  obtain s5 where s5: "service_run c (concat (map (handled port) rest)) s4 = Some s5"
      "fed c port ([concat (?kept @ [d])] @ map snd rest) s5"
    using fed_packets [OF s4(2) assms(1) nonempty(4)] by blast
  have "service_run c (concat (map (handled port) kept) @ PacketArrives t port d # arrivals port lost @
      start_answers port now @ concat (map (handled port) rest)) new_service = Some s5"
    by (simp add: service_run_append s1(1) s2(1) s3(1) s4(1) s5(1) del: handled.simps service_step.simps)
  then show ?thesis using s5(2) by (auto simp: fed_def split: option.splits)
qed

lemma packet_during_start_lost_witness:
  "(case service_run sample_service
      (handled 5000 (1, [7]) @ PacketArrives 2 5000 [8] # PacketArrives 3 5000 [9] # PacketArrives 3 5000 [10, 11] #
       start_answers 5000 4 @ handled 5000 (5, [4])) new_service of
      None \<Rightarrow> False
    | Some s \<Rightarrow> (\<exists>p. map_of (pl_active (sv_pipes s)) 5000 = Some p \<and> concat (pp_input p) = [7, 8, 4]))"
  using packet_during_start_lost [of sample_service 5000 "[(1, [7])]" 2 "[8]" "[(3, [9]), (3, [10, 11])]" "[(5, [4])]" 4]
  by (simp add: isPortInRange_def sample_service_def reaches_def arrivals_def cong: option.case_cong del: handled.simps service_run.simps)

section \<open>Shutting down\<close>

lemma release_locks_result:
  "release_locks answers ports s = (ok, s') \<Longrightarrow>
    sv_pipes s' = sv_pipes s \<and> sv_held s' = sv_held s \<and> ok = list_all (\<lambda>p. answers p = Inr ()) ports \<and>
    (if ok then sv_effects s' = sv_effects s @ map AskedRelease ports else True)"
  by (induction answers ports s rule: release_locks.induct)
    (auto simp: Let_def asked_def split: sum.splits if_splits)

text \<open>A shutdown asks for the release of every lock held, in order, and before it stops any pipeline;
  if all are released the process ends with code 0, no lock held and no pipeline left. If one
  release throws it ends with code 1 at once, its pipelines as they were.\<close>

theorem clean_shutdown:
  "(let (code, s') = service_shutdown c answers s; ok = list_all (\<lambda>p. answers p = Inr ()) (sv_held s)
    in code = (if ok then 0 else 1) \<and>
       (if ok then sv_held s' = [] \<and> sv_effects s' = sv_effects s @ map AskedRelease (sv_held s) \<and>
          (if sc_enabled c then pl_active (sv_pipes s') = [] else True)
        else sv_held s' = sv_held s \<and> sv_pipes s' = sv_pipes s))"
proof -
  let ?s = "s\<lparr>sv_streams := streams_stop (sv_streams s), sv_buffers := []\<rparr>"
  obtain ok s1 where r: "release_locks answers (sv_held ?s) ?s = (ok, s1)" by fastforce
  show ?thesis
    using release_locks_result [OF r] r
    by (auto simp: service_shutdown_def Let_def stopAll_empties)
qed

end
