(* ===== verification/UdpListener.thy ===== *)
theory UdpListener
imports Prelude
begin

text \<open>
  Binding the unencrypted ports (\<open>backend/src/UDPListener.ts\<close>). A socket's events and the
  timers of the retries are events of a machine, one attempt of one port at a time, since
  \<open>start\<close> awaits each port before the next. What a bound socket receives is modelled with the
  packet handler, in the theory of the main module.

  Shown: a port is tried four times at most, a second, two and four apart, and binding it ends;
  \<open>start\<close> ends with every port bound or at the first port that cannot be; an error of a
  socket that is bound makes a second socket for its port; and a stop closes every socket but those
  that were replaced so.
\<close>

definition bind_max_retries :: nat where "bind_max_retries = 3"

definition backoff_ms :: "nat \<Rightarrow> int" where
  "backoff_ms retryCount = 2 ^ retryCount * 1000"

definition getPortRange :: "int \<Rightarrow> int \<Rightarrow> int list" where
  "getPortRange first final = map (\<lambda>i. first + int i) [0..<nat (final - first + 1)]"

section \<open>Binding one port\<close>

text \<open>The outcome of an attempt is an argument: whether the socket reports \<open>listening\<close> or an error.
  The result is whether the promise resolves and the waits, in order.\<close>

function bindPort :: "(nat \<Rightarrow> bool) \<Rightarrow> nat \<Rightarrow> bool \<times> int list" where
  "bindPort listens retryCount =
     (if listens retryCount then (True, [])
      else if retryCount < bind_max_retries
      then apsnd ((#) (backoff_ms retryCount)) (bindPort listens (retryCount + 1))
      else (False, []))"
  by pat_completeness auto
termination by (relation "measure (\<lambda>(listens, n). bind_max_retries - n)") auto

declare bindPort.simps [simp del]

text \<open>A listener: every socket ever bound, by its port and the number of its attempt, which is known by its
  place in that list; the map from ports to sockets; and the sockets that were closed.\<close>

record listener =
  ul_sockets :: "(int, nat) js_map"
  ul_bound :: "(int \<times> nat) list"
  ul_closed :: "nat list"

definition new_listener :: listener where
  "new_listener = \<lparr>ul_sockets = [], ul_bound = [], ul_closed = []\<rparr>"

definition listening :: "int \<Rightarrow> nat \<Rightarrow> listener \<Rightarrow> listener" where
  "listening port attempt l =
     l\<lparr>ul_sockets := AList.update port (length (ul_bound l)) (ul_sockets l), ul_bound := ul_bound l @ [(port, attempt)]\<rparr>"

text \<open>The number of the attempt that listens, from the given one on.\<close>

fun first_listening :: "(nat \<Rightarrow> bool) \<Rightarrow> nat \<Rightarrow> nat \<Rightarrow> nat option" where
  "first_listening listens retryCount 0 = None"
| "first_listening listens retryCount (Suc n) =
     (if listens retryCount then Some retryCount else first_listening listens (retryCount + 1) n)"

text \<open>An error of a port's socket, bound or not, retries from that socket's own count.\<close>

definition socket_error :: "(nat \<Rightarrow> bool) \<Rightarrow> int \<Rightarrow> nat \<Rightarrow> listener \<Rightarrow> listener" where
  "socket_error listens port retryCount l =
     (case first_listening listens (Suc retryCount) (bind_max_retries - retryCount) of
        None \<Rightarrow> l
      | Some attempt \<Rightarrow> listening port attempt l)"

text \<open>\<open>start\<close>: whether it resolves, and the listener.\<close>

fun bind_ports :: "(int \<Rightarrow> nat \<Rightarrow> bool) \<Rightarrow> int list \<Rightarrow> listener \<Rightarrow> bool \<times> listener" where
  "bind_ports listens [] l = (True, l)"
| "bind_ports listens (port # ports) l =
     (case first_listening (listens port) 0 (Suc bind_max_retries) of
        None \<Rightarrow> (False, l)
      | Some attempt \<Rightarrow> bind_ports listens ports (listening port attempt l))"

definition listener_start :: "(int \<Rightarrow> nat \<Rightarrow> bool) \<Rightarrow> int \<Rightarrow> int \<Rightarrow> listener \<Rightarrow> bool \<times> listener" where
  "listener_start listens first final l = bind_ports listens (getPortRange first final) l"

text \<open>\<open>stop\<close> closes the sockets of the map, and no other, and empties it; what it says it closed are the
  ports.\<close>

definition listener_stop :: "listener \<Rightarrow> int list \<times> listener" where
  "listener_stop l =
     (js_keys (ul_sockets l), l\<lparr>ul_sockets := [], ul_closed := ul_closed l @ map snd (ul_sockets l)\<rparr>)"

definition listener_ports :: "listener \<Rightarrow> int list" where
  "listener_ports l = js_keys (ul_sockets l)"

text \<open>What a listener goes through: its start, and errors of its sockets. The ports of the sockets that are
  open, by the map or not.\<close>

datatype listener_event =
    Bind "int \<Rightarrow> nat \<Rightarrow> bool" int int
  | SocketFails "nat \<Rightarrow> bool" int nat

fun listener_step :: "listener_event \<Rightarrow> listener \<Rightarrow> listener" where
  "listener_step (Bind listens first final) l = snd (listener_start listens first final l)"
| "listener_step (SocketFails listens port retryCount) l = socket_error listens port retryCount l"

definition listener_run :: "listener_event list \<Rightarrow> listener" where
  "listener_run events = fold listener_step events new_listener"

definition open_sockets :: "listener \<Rightarrow> int list" where
  "open_sockets l =
     map (\<lambda>i. fst (ul_bound l ! i)) (List.filter (\<lambda>i. i \<notin> set (ul_closed l)) [0..<length (ul_bound l)])"

section \<open>Properties\<close>

lemma bindPort_waits:
  assumes "n \<le> bind_max_retries"
  shows "bindPort listens n =
    (case first_listening listens n (Suc bind_max_retries - n) of
       None \<Rightarrow> (False, map backoff_ms [n..<bind_max_retries])
     | Some k \<Rightarrow> (True, map backoff_ms [n..<k]))"
  using assms
proof (induction listens n rule: bindPort.induct)
  case (1 listens n)
  have bound: "first_listening listens m j = Some k \<Longrightarrow> m \<le> k" for m j k
    by (induction listens m j rule: first_listening.induct) (auto split: if_splits)
  show ?case
  proof (cases "listens n \<or> n = bind_max_retries")
    case True
    then show ?thesis using 1(2) by (subst bindPort.simps) (auto simp: Suc_diff_le)
  next
    case False
    then have n: "n < bind_max_retries" using 1(2) by simp
    have step: "first_listening listens n (Suc bind_max_retries - n) =
        first_listening listens (Suc n) (Suc bind_max_retries - Suc n)"
      using False n by (simp add: Suc_diff_le)
    have up: "[n..<k] = n # [Suc n..<k]" if "Suc n \<le> k" for k
      using that by (simp add: upt_conv_Cons)
    show ?thesis
      using 1(1) False n up bound [of "Suc n" "bind_max_retries - n"]
      by (subst bindPort.simps) (auto simp: step split: option.split)
  qed
qed

lemma first_listening_iff:
  "first_listening listens n k = None \<longleftrightarrow> (\<forall>i < k. \<not> listens (n + i))"
proof (induction listens n k rule: first_listening.induct)
  case (2 listens n k)
  then show ?case by (auto simp: less_Suc_eq_0_disj)
qed simp

text \<open>C37. Binding a port ends: it resolves exactly if one of four attempts listens, the waits between
  them are one, two and four seconds, and so a port that cannot be bound is given up after seven.\<close>

theorem bind_gives_up:
  "(case bindPort listens 0 of (bound, waits) \<Rightarrow>
      bound = list_ex listens [0, 1, 2, 3] \<and>
      (\<exists>rest. [1000, 2000, 4000] = waits @ rest) \<and> sum_list waits \<le> 7000 \<and>
      (if bound then True else waits = [1000, 2000, 4000]))"
proof -
  have four: "first_listening listens 0 4 = (if listens 0 then Some 0 else if listens 1 then Some 1
      else if listens 2 then Some 2 else if listens 3 then Some 3 else None)"
    by (simp add: eval_nat_numeral)
  show ?thesis
    using bindPort_waits [of 0 listens] four
    by (auto simp: bind_max_retries_def backoff_ms_def eval_nat_numeral upt_rec split: if_splits)
qed

lemma bind_ports_bound:
  "bind_ports listens ports l = (ok, l') \<Longrightarrow>
    (if ok then set ports \<subseteq> set (js_keys (ul_sockets l'))
     else list_ex (\<lambda>p. first_listening (listens p) 0 (Suc bind_max_retries) = None) ports) \<and>
    set (js_keys (ul_sockets l)) \<subseteq> set (js_keys (ul_sockets l'))"
proof (induction listens ports l rule: bind_ports.induct)
  case (2 listens port ports l)
  show ?case
  proof (cases "first_listening (listens port) 0 (Suc bind_max_retries)")
    case None
    then show ?thesis using 2(2) by (auto simp del: first_listening.simps)
  next
    case (Some attempt)
    have "set (js_keys (ul_sockets (listening port attempt l))) = insert port (set (js_keys (ul_sockets l)))"
      by (auto simp: listening_def js_keys_def dom_update)
    then show ?thesis using 2(1) [OF Some] 2(2) Some
      by (auto simp del: first_listening.simps split: if_splits)
  qed
qed auto


text \<open>After a start that resolved every port has a socket; one that did not, met a port none of whose
  four attempts listened.\<close>

lemma listener_start_bound:
  "listener_start listens first final l = (ok, l') \<Longrightarrow>
    (if ok then set (getPortRange first final) \<subseteq> set (listener_ports l')
     else list_ex (\<lambda>p. \<not> list_ex (listens p) [0, 1, 2, 3]) (getPortRange first final))"
proof -
  assume start: "listener_start listens first final l = (ok, l')"
  have "first_listening listens 0 (Suc bind_max_retries) = None \<longleftrightarrow> \<not> list_ex listens [0, 1, 2, 3]" for listens
    by (auto simp: bind_max_retries_def eval_nat_numeral)
  then show ?thesis
    using bind_ports_bound [of listens "getPortRange first final" l ok l'] start
    by (simp add: listener_start_def listener_ports_def del: first_listening.simps split: if_splits)
qed

lemma bind_ports_iff:
  "bind_ports listens ports l = (ok, l') \<Longrightarrow>
    ok \<longleftrightarrow> list_all (\<lambda>p. first_listening (listens p) 0 (Suc bind_max_retries) \<noteq> None) ports"
  by (induction listens ports l rule: bind_ports.induct) (auto simp del: first_listening.simps split: option.splits)

lemma listener_start_iff:
  "listener_start listens first final l = (ok, l') \<Longrightarrow>
    ok \<longleftrightarrow> list_all (\<lambda>p. list_ex (listens p) [0, 1, 2, 3]) (getPortRange first final)"
proof -
  assume start: "listener_start listens first final l = (ok, l')"
  have "first_listening listens 0 (Suc bind_max_retries) \<noteq> None \<longleftrightarrow> list_ex listens [0, 1, 2, 3]" for listens
    by (auto simp: bind_max_retries_def eval_nat_numeral)
  then show ?thesis
    using bind_ports_iff [of listens "getPortRange first final" l ok l'] start
    by (simp add: listener_start_def del: first_listening.simps)
qed

text \<open>Which sockets a stop leaves open: those whose port was bound again by a later one.\<close>

fun superseded :: "int list \<Rightarrow> int list" where
  "superseded [] = []"
| "superseded (port # ports) = (if port \<in> set ports then [port] else []) @ superseded ports"

lemma superseded_distinct: "distinct ports \<Longrightarrow> superseded ports = []"
  by (induction ports) auto

lemma superseded_places:
  "superseded ports =
    map ((!) ports) (List.filter (\<lambda>i. ports ! i \<in> set (drop (Suc i) ports)) [0..<length ports])"
proof (induction ports)
  case (Cons p ports)
  have "[0..<length (p # ports)] = 0 # map Suc [0..<length ports]"
    by (simp add: upt_conv_Cons map_Suc_upt del: upt_Suc)
  then show ?case by (simp add: Cons filter_map comp_def)
qed simp

text \<open>The map has, of each port that was ever bound, the socket bound last, and nothing has been closed.\<close>

definition listener_inv :: "listener \<Rightarrow> bool" where
  "listener_inv l \<longleftrightarrow> ul_closed l = [] \<and>
     (\<forall>port i. map_of (ul_sockets l) port = Some i \<longleftrightarrow>
        i < length (ul_bound l) \<and> fst (ul_bound l ! i) = port \<and> port \<notin> set (drop (Suc i) (map fst (ul_bound l)))) \<and>
     distinct (js_keys (ul_sockets l))"

lemma listening_inv: "listener_inv l \<Longrightarrow> listener_inv (listening port attempt l)"
  by (auto simp: listener_inv_def listening_def js_keys_def distinct_update map_of_update nth_append less_Suc_eq)

lemma bind_ports_inv: "listener_inv l \<Longrightarrow> listener_inv (snd (bind_ports listens ports l))"
  by (induction listens ports l rule: bind_ports.induct)
    (simp_all add: listening_inv del: first_listening.simps split: option.split)

lemma listener_run_inv: "listener_inv (listener_run events)"
proof -
  have "listener_inv l \<Longrightarrow> listener_inv (listener_step e l)" for e l
    by (cases e) (simp_all add: listener_start_def bind_ports_inv socket_error_def listening_inv split: option.split)
  then have "listener_inv l \<Longrightarrow> listener_inv (fold listener_step events l)" for l
    by (induction events arbitrary: l) simp_all
  moreover have "listener_inv new_listener" by (simp add: listener_inv_def new_listener_def js_keys_def)
  ultimately show ?thesis by (simp add: listener_run_def)
qed

text \<open>What is open after a stop.\<close>

lemma stop_closes:
  assumes "listener_inv l"
  shows "open_sockets (snd (listener_stop l)) = superseded (map fst (ul_bound l))"
proof -
  let ?ports = "map fst (ul_bound l)"
  have "i \<in> snd ` set (ul_sockets l) \<longleftrightarrow> ?ports ! i \<notin> set (drop (Suc i) ?ports)" if "i < length ?ports" for i
  proof -
    have "i \<in> snd ` set (ul_sockets l) \<longleftrightarrow> (\<exists>port. map_of (ul_sockets l) port = Some i)"
      using assms by (force simp: listener_inv_def js_keys_def map_of_eq_Some_iff)
    then show ?thesis using assms that by (simp add: listener_inv_def)
  qed
  then have "List.filter (\<lambda>i. i \<notin> snd ` set (ul_sockets l)) [0..<length ?ports] =
      List.filter (\<lambda>i. ?ports ! i \<in> set (drop (Suc i) ?ports)) [0..<length ?ports]"
    by (intro filter_cong refl) auto
  moreover have "ul_closed l = []" using assms by (simp add: listener_inv_def)
  ultimately show ?thesis
    by (simp add: open_sockets_def listener_stop_def superseded_places cong: map_cong)
qed

text \<open>A start binds each port once.\<close>

lemma bind_ports_once:
  "\<exists>ports'. map fst (ul_bound (snd (bind_ports listens ports l))) = map fst (ul_bound l) @ ports' \<and>
    (\<exists>rest. ports = ports' @ rest)"
proof (induction listens ports l rule: bind_ports.induct)
  case (2 listens port ports l)
  show ?case
  proof (cases "first_listening (listens port) 0 (Suc bind_max_retries)")
    case None
    then show ?thesis by (simp del: first_listening.simps)
  next
    case (Some attempt)
    from 2 [OF Some] show ?thesis by (auto simp: Some listening_def simp del: first_listening.simps)
  qed
qed simp

lemma started_closes: "superseded (map fst (ul_bound (listener_run [Bind listens first final]))) = []"
proof -
  have "\<exists>rest. getPortRange first final = map fst (ul_bound (listener_run [Bind listens first final])) @ rest"
    using bind_ports_once [of listens "getPortRange first final" new_listener]
    by (auto simp: listener_run_def listener_start_def new_listener_def)
  moreover have "distinct (getPortRange first final)" by (auto simp: getPortRange_def distinct_map inj_on_def)
  ultimately show ?thesis by (metis distinct_append superseded_distinct)
qed

text \<open>A socket that fails after it was bound is retried like one that was not: the port is bound a
  second time, the map has the new socket, and the first is closed by nobody.\<close>

lemma bound_error_binds_again:
  assumes "listens 1"
  shows "(let l = socket_error listens port 0 (listening port 0 new_listener)
     in ul_bound l = [(port, 0), (port, 1)] \<and> fst (listener_stop l) = [port] \<and>
       open_sockets (snd (listener_stop l)) = [port])"
  using assms
  by (simp add: socket_error_def bind_max_retries_def eval_nat_numeral listening_def new_listener_def
      listener_stop_def js_keys_def open_sockets_def)

end
