(* ===== verification/Fleet.thy ===== *)
theory Fleet
imports LockLease Supervisor "HOL-Library.Sublist"
begin

text \<open>
  Several instances, each supervising the same port with a supervisor of its own
  (\<open>backend/src/SrtpPortSupervisor.ts\<close>), over the one table
  (\<open>backend/src/StreamMetadataService.ts\<close>): the composition of the supervisor's state machine with the
  lock service. The calls a supervisor's steps make are its history; each takes place on its own,
  with those of the other instances and of the rest of the deployment in any order between them.

  Shown: every run of such a fleet is a run of the lock protocol of \<open>LockLease\<close> - the refinement -
  and so two instances only both produce when the lease of one of them is more than five minutes
  old; and a floor reset that has landed is never undone by a helper that was running before it,
  since the epochs that instances read are never above the row's. The histories the first part
  speaks of only ever grow.
\<close>

section \<open>The calls only grow\<close>

lemma calls_fields [simp]:
  "calls (emit e s) = calls s @ [e]"
  by (simp add: emit_def)

named_theorems growth

lemma prefix_emit [growth]: "prefix xs (calls s) \<Longrightarrow> prefix xs (calls (emit e s))"
  by simp

lemma prefix_transition [growth]: "prefix xs (calls s) \<Longrightarrow> prefix xs (calls (transition to s))"
  by (simp add: transition_def)

lemma prefix_cooldown [growth]: "prefix xs (calls s) \<Longrightarrow> prefix xs (calls (enterCooldown c s))"
  by (auto simp: enterCooldown_def intro: growth)

lemma prefix_write [growth]: "prefix xs (calls s) \<Longrightarrow> prefix xs (calls (writeCommand c m s))"
  by (auto simp: writeCommand_def split: option.split)

lemma prefix_release [growth]: "prefix xs (calls s) \<Longrightarrow> prefix xs (calls (releaseLock c s))"
  by (auto simp: releaseLock_def Let_def)

lemma prefix_raise [growth]: "prefix xs (calls s) \<Longrightarrow> prefix xs (calls (snd (raiseFloor c i h s)))"
  by (simp add: raiseFloor_def Let_def)

lemma prefix_adopt [growth]: "prefix xs (calls s) \<Longrightarrow> prefix xs (calls (adopt_session c i e s))"
  by (auto simp: adopt_session_def Let_def intro!: growth)

lemma prefix_spawn [growth]: "prefix xs (calls s) \<Longrightarrow> prefix xs (calls (spawnSession c s))"
  by (auto simp: spawnSession_def Let_def intro!: growth split: sum.split)

lemma prefix_acquire [growth]: "prefix xs (calls s) \<Longrightarrow> prefix xs (calls (attemptAcquire c s))"
  by (auto simp: attemptAcquire_def Let_def intro!: growth split: sum.split bool.split)

lemma prefix_notProducing [growth]: "prefix xs (calls s) \<Longrightarrow> prefix xs (calls (notProducing c s))"
  by (auto simp: notProducing_def intro!: growth)

lemma prefix_refresh [growth]: "prefix xs (calls s) \<Longrightarrow> prefix xs (calls (refreshLease c s))"
  by (auto simp: refreshLease_def Let_def intro!: growth split: sum.split lease_outcome.split)

lemma prefix_end [growth]: "prefix xs (calls s) \<Longrightarrow> prefix xs (calls (endSession c s))"
  by (auto simp: endSession_def Let_def intro!: growth split: option.split)

lemma prefix_reset [growth]: "prefix xs (calls s) \<Longrightarrow> prefix xs (calls (snd (handleFloorReset c s)))"
  by (auto simp: handleFloorReset_def Let_def intro!: growth split: option.split sum.split)

lemma prefix_exit [growth]: "prefix xs (calls s) \<Longrightarrow> prefix xs (calls (handleExit c h s))"
  by (auto simp: handleExit_def Let_def intro!: growth split: option.split)

lemma prefix_stopped [growth]: "prefix xs (calls s) \<Longrightarrow> prefix xs (calls (handleStopped c i h s))"
  by (auto simp: handleStopped_def raiseFloor_def Let_def intro!: growth split: option.split)

lemma prefix_stats [growth]: "prefix xs (calls s) \<Longrightarrow> prefix xs (calls (handleStats c b a s))"
  by (auto simp: handleStats_def Let_def intro!: growth)

lemma prefix_ready [growth]: "prefix xs (calls s) \<Longrightarrow> prefix xs (calls (handleReady c v s))"
  by (auto simp: handleReady_def intro!: growth)

lemma prefix_first [growth]: "prefix xs (calls s) \<Longrightarrow> prefix xs (calls (handleFirstAuth c r t s))"
  by (auto simp: handleFirstAuth_def Let_def intro!: growth)

lemma prefix_frame [growth]: "prefix xs (calls s) \<Longrightarrow> prefix xs (calls (handleFrame c m h s))"
  by (cases m) (auto simp: handleFrame_def handleOwnFrame_def handleLateFrame_def intro!: growth split: option.split)

lemma prefix_tick [growth]: "prefix xs (calls s) \<Longrightarrow> prefix xs (calls (handleTick c s))"
proof -
  obtain b t where r: "handleFloorReset c s = (b, t)" by fastforce
  assume "prefix xs (calls s)"
  from prefix_reset [OF this, of c] show ?thesis
    using \<open>prefix xs (calls s)\<close>
    by (cases "st t") (auto simp: handleTick_def r Let_def intro!: growth)
qed

lemma prefix_shutdown [growth]: "prefix xs (calls s) \<Longrightarrow> prefix xs (calls (shutdown c s))"
proof -
  assume grown: "prefix xs (calls s)"
  have helper: "prefix xs (calls u)" if "shutdownHelper c h t = (ok, u)" "prefix xs (calls t)" for h t ok u
    using that(1) prefix_write [OF that(2)] that(2)
    by (auto simp: shutdownHelper_def awaitStopAck_def raiseFloor_def Let_def
        split: ack.splits option.splits if_splits)
  show "prefix xs (calls (shutdown c s))"
    using grown by (auto simp: shutdown_def Let_def intro!: growth intro: helper split: option.split prod.split)
qed

lemma prefix_step [growth]: "prefix xs (calls s) \<Longrightarrow> prefix xs (calls (run_step c x s))"
  by (cases x) (auto simp: handleError_def Let_def intro!: growth)

lemma prefix_port: "prefix (calls (sys_sup p)) (calls (sys_sup (port_step c e p)))"
  by (cases e) (auto simp: enqueue_def on_stdout_def intro!: growth split: list.split prod.split)

section \<open>Helpers told to produce\<close>

fun told :: "session set \<Rightarrow> effect \<Rightarrow> session set" where
  "told hs (Wrote h (StopCommand v) line ok) = hs - {h}"
| "told hs e = risk hs e"

lemma told_subset_risk: "hs \<subseteq> gs \<Longrightarrow> foldl told hs es \<subseteq> foldl risk gs es"
proof (induction es arbitrary: hs gs)
  case (Cons e es)
  have "risk hs e \<subseteq> risk gs e" if "hs \<subseteq> gs" for hs gs
    using that by (cases "(hs, e)" rule: risk.cases) auto
  then have "told hs e \<subseteq> risk gs e"
    using Cons.prems by (cases "(hs, e)" rule: told.cases) auto
  then show ?case using Cons.IH by simp
qed simp

lemma last_before: "snd (foldl before (None, None) es) = (if es = [] then None else Some (last es))"
  by (induction es rule: rev_induct) (simp_all add: before_def)

lemma history_ok_prefix: "history_ok (xs @ ys) \<Longrightarrow> history_ok xs"
  by (simp add: history_ok_def)

text \<open>While a helper is told to produce, the last answers of the lock service say that the lock is
  held, or the very last one says that it was lost - and then nothing comes before the stop.\<close>

lemma told_held:
  assumes "history_ok hist" and "foldl told {} hist \<noteq> {}"
  shows "foldl lock_view False hist \<or> snd (foldl before (None, None) hist) = Some (DidRefresh (Inr LeaseLost))"
  using assms
proof (induction hist rule: rev_induct)
  case (snoc e es)
  have ok: "history_ok es" using snoc.prems(1) by (rule history_ok_prefix)
  have subset: "foldl told {} es \<subseteq> foldl risk {} es" by (simp add: told_subset_risk)
  note IH = snoc.IH [OF ok]
  show ?case
  proof (cases e)
    case (Wrote h m line ok)
    show ?thesis
    proof (cases m)
      case (StartCommand v)
      then have "snd (foldl before (None, None) es) = Some (DidAcquire (Inr True))"
        using snoc.prems(1) Wrote by (simp add: history_ok_def)
      then obtain fs where "es = fs @ [DidAcquire (Inr True)]"
        by (metis append_butlast_last_id last_before option.discI option.inject)
      then show ?thesis using Wrote by simp
    next
      case (StopCommand v)
      then have "foldl told {} es \<subseteq> {h}"
        using snoc.prems(1) Wrote subset by (auto simp: history_ok_def)
      then show ?thesis using snoc.prems(2) Wrote StopCommand by auto
    qed (use snoc IH Wrote in \<open>simp add: history_ok_def\<close>)
  next
    case (DidRelease r)
    then have "foldl risk {} es = {}" using snoc.prems(1) by (simp add: history_ok_def)
    then show ?thesis using subset snoc.prems(2) DidRelease by auto
  next
    case (DidAcquire r)
    then show ?thesis
      using snoc IH by (cases "(True, DidAcquire r)" rule: lock_view.cases) (auto simp: history_ok_def)
  next
    case (DidRefresh r)
    show ?thesis
      using snoc IH DidRefresh
      by (cases "(True, DidRefresh r)" rule: lock_view.cases) (auto simp: history_ok_def before_def)
  next
    case (HeardFrame h m)
    then show ?thesis using snoc IH by (cases m) (auto simp: history_ok_def)
  qed (use snoc IH in \<open>auto simp: history_ok_def\<close>)
qed simp

section \<open>The fleet\<close>

text \<open>\<open>fl_done\<close> counts the calls of an instance that have taken place: a supervisor's step gives its
  calls with the answers it goes on with, and each then happens on its own, in any interleaving
  with those of the other instances, at a time of its own, if that is what the table answers.\<close>

record 'db fleet =
  fl_port :: "js_string \<Rightarrow> port_system"
  fl_done :: "js_string \<Rightarrow> nat"
  fl_lease :: "'db lease_sys"

datatype fleet_event =
    Runs js_string port_event
  | Happens js_string int int
  | Elsewhere lease_event

definition new_fleet :: "(js_string \<Rightarrow> config) \<Rightarrow> int \<Rightarrow> 'db \<Rightarrow> 'db fleet" where
  "new_fleet conf t db =
     \<lparr>fl_port = (\<lambda>i. new_port (conf i)), fl_done = (\<lambda>i. 0),
      fl_lease = \<lparr>ls_db = db, ls_clock = t, ls_lease = [], ls_updates = []\<rparr>\<rparr>"

text \<open>What the supervisor's calls ask of the services.\<close>

fun lock_request :: "int \<Rightarrow> js_string \<Rightarrow> port_key \<Rightarrow> int \<Rightarrow> int \<Rightarrow> effect \<Rightarrow> lease_event option" where
  "lock_request p i key now now' (DidAcquire r) = Some (Acquire i now now')"
| "lock_request p i key now now' (DidRelease r) = Some (Release i now)"
| "lock_request p i key now now' (DidRefresh r) = Some (Refresh i now)"
| "lock_request p i key now now' (DidRaise h index epoch ok) =
     Some (OnFloor (RaiseOp p index (pk_ssrc key) (pk_fingerprint key) (pk_generation key) epoch now) now)"
| "lock_request p i key now now' (DidReadEpoch r) = Some (OnFloor (ReadEpochOp p) now)"
| "lock_request p i key now now' (DidReadFloor r) =
     Some (OnFloor (ReadFloorOp p (pk_ssrc key) (pk_fingerprint key)) now)"
| "lock_request p i key now now' e = None"

definition lease_answer :: "owned_write \<Rightarrow> lease_outcome" where
  "lease_answer w = (case w of WriteOk \<Rightarrow> LeaseOk | LostLock \<Rightarrow> LeaseLost | WriteError \<Rightarrow> LeaseError)"

fun answers ::
  "'db lock_ops \<Rightarrow> int \<Rightarrow> js_string \<Rightarrow> port_key \<Rightarrow> int \<Rightarrow> int \<Rightarrow> 'db lease_sys \<Rightarrow> effect \<Rightarrow> bool"
where
  "answers ops p i key now now' s (DidAcquire r) \<longleftrightarrow> fst (op_acquire ops p i now now' (ls_db s)) = r"
| "answers ops p i key now now' s (DidRelease r) \<longleftrightarrow> fst (op_release ops p i now (ls_db s)) = r"
| "answers ops p i key now now' s (DidRefresh r) \<longleftrightarrow>
     r = Inr (lease_answer (fst (op_refresh ops p i now (nullish (map_of (ls_updates s) i) []) (ls_db s))))"
| "answers ops p i key now now' s (DidReadEpoch r) \<longleftrightarrow> fst (op_read_epoch ops p (ls_db s)) = r"
| "answers ops p i key now now' s (DidReadFloor r) \<longleftrightarrow>
     fst (op_read_floor ops p (pk_ssrc key) (pk_fingerprint key) (ls_db s)) = r"
| "answers ops p i key now now' s e \<longleftrightarrow> True"

definition fleet_calls :: "'db fleet \<Rightarrow> js_string \<Rightarrow> history" where
  "fleet_calls fl i = calls (sys_sup (fl_port fl i))"

definition happened :: "'db fleet \<Rightarrow> js_string \<Rightarrow> history" where
  "happened fl i = take (fl_done fl i) (fleet_calls fl i)"

fun elsewhere :: "lease_event \<Rightarrow> bool" where
  "elsewhere (Cleanup thr now) = True"
| "elsewhere (OnFloor op now) = True"
| "elsewhere _ = False"

definition happens :: "(js_string \<Rightarrow> config) \<Rightarrow> 'db lock_ops \<Rightarrow> int \<Rightarrow> js_string \<Rightarrow> int \<Rightarrow> int \<Rightarrow> 'db fleet \<Rightarrow> 'db fleet" where
  "happens conf ops p i now now' fl =
     (let s = fl_lease fl; n = fl_done fl i; cs = fleet_calls fl i in
      if n < length cs \<and> ls_clock s \<le> now \<and> now \<le> now' \<and> answers ops p i (c_key (conf i)) now now' s (cs ! n)
      then fl\<lparr>fl_done := (fl_done fl)(i := Suc n),
              fl_lease := (case lock_request p i (c_key (conf i)) now now' (cs ! n) of
                             None \<Rightarrow> s | Some e \<Rightarrow> lease_step ops p e s)\<rparr>
      else fl)"

fun fleet_step :: "(js_string \<Rightarrow> config) \<Rightarrow> 'db lock_ops \<Rightarrow> int \<Rightarrow> fleet_event \<Rightarrow> 'db fleet \<Rightarrow> 'db fleet" where
  "fleet_step conf ops p (Runs i e) fl =
     fl\<lparr>fl_port := (fl_port fl)(i := port_step (conf i) e (fl_port fl i))\<rparr>"
| "fleet_step conf ops p (Happens i now now') fl = happens conf ops p i now now' fl"
| "fleet_step conf ops p (Elsewhere e) fl =
     (if elsewhere e \<and> event_ok (fl_lease fl) e then fl\<lparr>fl_lease := lease_step ops p e (fl_lease fl)\<rparr> else fl)"

definition fleet_run ::
  "(js_string \<Rightarrow> config) \<Rightarrow> 'db lock_ops \<Rightarrow> int \<Rightarrow> int \<Rightarrow> 'db \<Rightarrow> fleet_event list \<Rightarrow> 'db fleet"
where
  "fleet_run conf ops p t db events = fold (fleet_step conf ops p) events (new_fleet conf t db)"

text \<open>The refinement relation: the leases are a state of the lock protocol, and an instance whose
  answers say that it holds the lock is one that the protocol gave a lease.\<close>

definition fleet_inv :: "(js_string \<Rightarrow> config) \<Rightarrow> 'db lock_ops \<Rightarrow> int \<Rightarrow> 'db \<Rightarrow> 'db fleet \<Rightarrow> bool" where
  "fleet_inv conf ops p db0 fl \<longleftrightarrow>
     lease_reach ops p db0 (fl_lease fl) \<and>
     (\<forall>i. port_reach (conf i) (fl_port fl i) \<and> fl_done fl i \<le> length (fleet_calls fl i) \<and>
        (foldl lock_view False (happened fl i) \<longrightarrow> map_of (ls_lease (fl_lease fl)) i \<noteq> None))"

definition next_call :: "'db fleet \<Rightarrow> js_string \<Rightarrow> effect option" where
  "next_call fl i =
     (if fl_done fl i < length (fleet_calls fl i) then Some (fleet_calls fl i ! fl_done fl i) else None)"

lemma happened_ok:
  assumes "fleet_inv conf ops p db0 fl"
  shows "history_ok (happened fl i)"
    "next_call fl i = Some e \<Longrightarrow> history_ok (happened fl i @ [e])"
proof -
  have "sup_inv (conf i) (sys_sup (fl_port fl i))"
    using assms by (auto simp: fleet_inv_def intro: port_reach_inv)
  then have ok: "history_ok (fleet_calls fl i)" by (simp add: sup_inv_def fleet_calls_def)
  have prefixes: "history_ok (take n (fleet_calls fl i))" for n
    by (rule history_ok_prefix [where ys = "drop n (fleet_calls fl i)"]) (simp add: ok)
  show "history_ok (happened fl i)" unfolding happened_def by (rule prefixes)
  show "history_ok (happened fl i @ [e])" if "next_call fl i = Some e"
    using prefixes [of "Suc (fl_done fl i)"] that
    by (simp add: happened_def next_call_def take_Suc_conv_app_nth split: if_splits)
qed

text \<open>What has happened only grows, by one call at a time.\<close>

lemma runs_happened:
  assumes "fleet_inv conf ops p db0 fl"
  shows "happened (fleet_step conf ops p (Runs i e) fl) j = happened fl j"
    "fl_done fl j \<le> length (fleet_calls (fleet_step conf ops p (Runs i e) fl) j)"
proof -
  let ?fl = "fleet_step conf ops p (Runs i e) fl"
  have "prefix (fleet_calls fl j) (fleet_calls ?fl j)" by (simp add: fleet_calls_def prefix_port)
  moreover have "fl_done fl j \<le> length (fleet_calls fl j)" using assms by (simp add: fleet_inv_def)
  ultimately show "happened ?fl j = happened fl j" "fl_done fl j \<le> length (fleet_calls ?fl j)"
    by (auto simp: happened_def prefix_def)
qed

lemma runs_inv:
  assumes "fleet_inv conf ops p db0 fl"
  shows "fleet_inv conf ops p db0 (fleet_step conf ops p (Runs i e) fl)"
  using runs_happened [OF assms] assms by (auto simp: fleet_inv_def intro: port_reach.event)

lemma happens_cases:
  obtains (idle) "happens conf ops p i now now' fl = fl"
  | (call) e where "next_call fl i = Some e" "ls_clock (fl_lease fl) \<le> now" "now \<le> now'"
    "answers ops p i (c_key (conf i)) now now' (fl_lease fl) e"
    "\<And>j. happened (happens conf ops p i now now' fl) j = (if j = i then happened fl i @ [e] else happened fl j)"
    "happens conf ops p i now now' fl = fl\<lparr>fl_done := (fl_done fl)(i := Suc (fl_done fl i)),
       fl_lease := (case lock_request p i (c_key (conf i)) now now' e of
                      None \<Rightarrow> fl_lease fl | Some ev \<Rightarrow> lease_step ops p ev (fl_lease fl))\<rparr>"
proof (cases "fl_done fl i < length (fleet_calls fl i) \<and> ls_clock (fl_lease fl) \<le> now \<and> now \<le> now' \<and>
    answers ops p i (c_key (conf i)) now now' (fl_lease fl) (fleet_calls fl i ! fl_done fl i)")
  case True
  then show ?thesis
    by (intro call [of "fleet_calls fl i ! fl_done fl i"])
      (simp_all add: happens_def happened_def fleet_calls_def next_call_def Let_def take_Suc_conv_app_nth)
qed (use idle in \<open>auto simp: happens_def Let_def\<close>)

lemma lease_update_get [simp]:
  "map_of (ls_lease (lease_update i x s)) j = (if j = i then x else map_of (ls_lease s) j)"
  by (simp add: lease_update_def split: option.split)

text \<open>What a call leaves of the leases.\<close>

lemma request_lease:
  assumes "lock_request p i key now now' e = Some ev" "answers ops p i key now now' s e"
  shows "j \<noteq> i \<Longrightarrow> map_of (ls_lease (lease_step ops p ev s)) j = map_of (ls_lease s) j"
    and "lock_view b e \<Longrightarrow> (b \<Longrightarrow> map_of (ls_lease s) i \<noteq> None) \<Longrightarrow>
      map_of (ls_lease (lease_step ops p ev s)) i \<noteq> None"
  using assms
  by (cases e; auto simp: Let_def lease_answer_def split: prod.splits sum.splits bool.splits owned_write.splits)+

lemma happens_inv:
  assumes "fleet_inv conf ops p db0 fl"
  shows "fleet_inv conf ops p db0 (happens conf ops p i now now' fl)"
proof (cases rule: happens_cases [of conf ops p i now now' fl])
  case (call e)
  let ?fl = "happens conf ops p i now now' fl"
  have fields: "fleet_calls ?fl j = fleet_calls fl j" "fl_port ?fl = fl_port fl"
    "fl_done ?fl j = (if j = i then Suc (fl_done fl i) else fl_done fl j)"
    "fl_lease ?fl = (case lock_request p i (c_key (conf i)) now now' e of
      None \<Rightarrow> fl_lease fl | Some ev \<Rightarrow> lease_step ops p ev (fl_lease fl))" for j
    by (simp_all add: call(6) fleet_calls_def)
  have room: "Suc (fl_done fl i) \<le> length (fleet_calls fl i)"
    using call(1) by (simp add: next_call_def split: if_splits)
  have ok: "history_ok (happened fl i @ [e])" by (rule happened_ok(2) [OF assms call(1)])
  have held: "foldl lock_view False (happened fl j) \<Longrightarrow> map_of (ls_lease (fl_lease fl)) j \<noteq> None" for j
    using assms by (simp add: fleet_inv_def)
  show ?thesis
  proof (cases "lock_request p i (c_key (conf i)) now now' e")
    case None
    then have "lock_view b e = b" for b by (cases e) auto
    then show ?thesis
      using assms fields room call(5) None by (auto simp: fleet_inv_def)
  next
    case (Some ev)
    note request = request_lease [OF Some, of ops "fl_lease fl"]
    have "event_ok (fl_lease fl) ev"
      using Some call(2,3) held [of i] ok by (cases e) (auto simp: history_ok_def)
    then have "lease_reach ops p db0 (fl_lease ?fl)"
      using assms Some by (auto simp: fleet_inv_def fields intro: lease_reach.step)
    then show ?thesis
      using assms fields room call(4,5) request held by (auto simp: fleet_inv_def Some)
  qed
qed (use assms in simp)

lemma elsewhere_inv:
  assumes "fleet_inv conf ops p db0 fl"
  shows "fleet_inv conf ops p db0 (fleet_step conf ops p (Elsewhere e) fl)"
proof (cases "elsewhere e \<and> event_ok (fl_lease fl) e")
  case True
  then have "ls_lease (lease_step ops p e (fl_lease fl)) = ls_lease (fl_lease fl)"
    by (cases e) (auto split: prod.split)
  moreover have "happened (fl\<lparr>fl_lease := x\<rparr>) j = happened fl j" "fleet_calls (fl\<lparr>fl_lease := x\<rparr>) j = fleet_calls fl j"
    for x j by (simp_all add: happened_def fleet_calls_def)
  ultimately show ?thesis
    using assms True by (auto simp: fleet_inv_def intro: lease_reach.step)
next
  case False
  then show ?thesis using assms by auto
qed

lemma new_fleet_inv: "fleet_inv conf ops p db (new_fleet conf t db)"
  by (simp add: fleet_inv_def new_fleet_def happened_def lease_reach.init port_reach.new)

lemma fleet_step_inv: "fleet_inv conf ops p db0 fl \<Longrightarrow> fleet_inv conf ops p db0 (fleet_step conf ops p ev fl)"
  by (cases ev) (simp_all only: runs_inv elsewhere_inv, simp add: happens_inv)

lemma fleet_run_inv: "fleet_inv conf ops p db (fleet_run conf ops p t db events)"
proof -
  have "fleet_inv conf ops p db (fold (fleet_step conf ops p) events fl)" if "fleet_inv conf ops p db fl" for fl
    using that by (induction events arbitrary: fl) (simp_all add: fleet_step_inv del: fleet_step.simps)
  then show ?thesis by (simp add: fleet_run_def new_fleet_inv)
qed

section \<open>Properties\<close>

text \<open>The age of the lease an instance last wrote, and whether it has told a helper to produce
  that nothing has stopped since - unless the last thing it was told is that the lock is lost,
  since then it says stop next.\<close>

definition lease_age :: "'db fleet \<Rightarrow> js_string \<Rightarrow> int option" where
  "lease_age fl i = map_option (\<lambda>t. ls_clock (fl_lease fl) - t) (map_of (ls_lease (fl_lease fl)) i)"

definition producing :: "'db fleet \<Rightarrow> js_string \<Rightarrow> bool" where
  "producing fl i \<longleftrightarrow> foldl told {} (happened fl i) \<noteq> {} \<and>
     snd (foldl before (None, None) (happened fl i)) \<noteq> Some (DidRefresh (Inr LeaseLost))"

text \<open>C2. Every run of a fleet of supervisors, with any surroundings, is a run of the lock
  protocol: the leases are reached by its steps alone, with each refresh only asked for by an
  instance that holds one, and an instance whose helper produces is one that it gave a lease.\<close>

theorem fleet_refines_lock_protocol:
  "(let fl = fleet_run conf ops p t db events
    in lease_reach ops p db (fl_lease fl) \<and> (if producing fl i then lease_age fl i \<noteq> None else True))"
proof -
  let ?fl = "fleet_run conf ops p t db events"
  have inv: "fleet_inv conf ops p db ?fl" by (rule fleet_run_inv)
  then have "producing ?fl i \<Longrightarrow> lease_age ?fl i \<noteq> None"
    using told_held [OF happened_ok(1) [OF inv], of i] by (simp add: producing_def lease_age_def fleet_inv_def)
  with inv show ?thesis by (simp add: Let_def fleet_inv_def)
qed

text \<open>C1. Two instances never both produce on a port with leases that are fresh: whatever the
  supervisors, their helpers and their surroundings do, and in whatever order their calls reach
  a table that behaves as documented - cleanups and floor resets between them - if two of them
  have told a helper to produce, one has not written its lease for more than five minutes.\<close>

theorem fleet_single_producer:
  assumes "dynamo send item_of" and "row_keyed item_of db p" and "i \<noteq> j"
    and "fl = fleet_run conf (stream_locks send) p t db events" and "producing fl i" and "producing fl j"
  shows "(case (lease_age fl i, lease_age fl j) of
      (Some a, Some b) \<Rightarrow> kinesis_lock_stale_ms < max a b
    | _ \<Rightarrow> False)"
proof -
  let ?s = "fl_lease fl"
  have reach: "lease_reach (stream_locks send) p db ?s"
    using fleet_run_inv [of conf "stream_locks send" p db t events] assms(4) by (simp add: fleet_inv_def)
  have inv: "fleet_inv conf (stream_locks send) p db fl" using fleet_run_inv assms(4) by metis
  obtain t u where lease: "map_of (ls_lease ?s) i = Some t" "map_of (ls_lease ?s) j = Some u"
    using told_held [OF happened_ok(1) [OF inv]] assms(5,6) inv unfolding producing_def fleet_inv_def by blast
  from dynamo.stream_locks_exclude [OF assms(1) reach assms(2) lease(1) _ lease(2)] assms(3)
  have "kinesis_lock_stale_ms < ls_clock ?s - t \<or> kinesis_lock_stale_ms < ls_clock ?s - u" by linarith
  then show ?thesis by (auto simp: lease_age_def lease)
qed


section \<open>A floor reset across the fleet\<close>

text \<open>A session keeps the epoch it was started under: no later one has its number.\<close>

fun starts_session :: "session \<Rightarrow> effect \<Rightarrow> bool" where
  "starts_session h (DidSpawn h' init (Inr u)) \<longleftrightarrow> h = h'"
| "starts_session h e \<longleftrightarrow> False"

lemma sessions_started:
  "watched new_session sessions 0 es \<Longrightarrow> list_ex (starts_session h) es \<Longrightarrow> h < foldl sessions 0 es"
proof (induction es rule: rev_induct)
  case (snoc e es)
  have "foldl sessions 0 es \<le> sessions (foldl sessions 0 es) e"
    using snoc.prems(1) by (cases "(foldl sessions 0 es, e)" rule: sessions.cases) auto
  then show ?case
    using snoc by (cases "starts_session h e"; cases "(h, e)" rule: starts_session.cases) auto
qed simp

lemma session_epoch_kept:
  "watched new_session sessions n es \<Longrightarrow> h < n \<Longrightarrow> snd (foldl epochs xm es) h = snd xm h"
proof (induction es arbitrary: n xm)
  case (Cons e es)
  have "h < sessions n e \<and> snd (epochs xm e) h = snd xm h"
    using Cons.prems by (cases "(n, e)" rule: sessions.cases; cases "(xm, e)" rule: epochs.cases) auto
  then show ?case using Cons.IH [of "sessions n e" "epochs xm e"] Cons.prems(1) by simp
qed simp

definition session_epochs :: "'db fleet \<Rightarrow> js_string \<Rightarrow> epoch_log" where
  "session_epochs fl i = foldl epochs (None, Map.empty) (happened fl i)"

lemma session_epoch_stays:
  assumes "history_ok (xs @ ys)" and "list_ex (starts_session h) xs"
  shows "snd (foldl epochs (None, Map.empty) (xs @ ys)) h = snd (foldl epochs (None, Map.empty) xs) h"
  using assms sessions_started [of xs h] session_epoch_kept [of "foldl sessions 0 xs" ys h]
  by (simp add: history_ok_def)

lemma step_happened:
  assumes "fleet_inv conf ops p db0 fl"
  shows "prefix (happened fl i) (happened (fleet_step conf ops p ev fl) i)"
proof (cases ev)
  case (Runs j e)
  then show ?thesis using runs_happened(1) [OF assms, of j e i] by simp
next
  case (Happens j now now')
  then show ?thesis by (cases rule: happens_cases [of conf ops p j now now' fl]) simp_all
qed (simp add: happened_def fleet_calls_def)

lemma fold_happened:
  "fleet_inv conf ops p db0 fl \<Longrightarrow>
    prefix (happened fl i) (happened (fold (fleet_step conf ops p) evs fl) i)"
proof (induction evs arbitrary: fl)
  case (Cons ev evs)
  then show ?case
    using step_happened [OF Cons.prems, of i ev] Cons.IH [OF fleet_step_inv [OF Cons.prems, of ev]]
      prefix_order.trans by fastforce
qed simp

definition fleet_item :: "('db \<Rightarrow> int \<Rightarrow> item option) \<Rightarrow> 'db fleet \<Rightarrow> int \<Rightarrow> item option" where
  "fleet_item item_of fl p = item_of (ls_db (fl_lease fl)) p"

text \<open>The epochs the instances have read are none above the row's.\<close>

definition epochs_known :: "('db \<Rightarrow> int \<Rightarrow> item option) \<Rightarrow> int \<Rightarrow> 'db fleet \<Rightarrow> bool" where
  "epochs_known item_of p fl \<longleftrightarrow>
     (\<forall>i e. fst (session_epochs fl i) = Some e \<longrightarrow> epoch_reached e (fleet_item item_of fl p)) \<and>
     (\<forall>i h e. snd (session_epochs fl i) h = Some (Some e) \<longrightarrow> epoch_reached e (fleet_item item_of fl p))"

context dynamo
begin

lemma fleet_step_epoch:
  assumes "epoch_reached e (fleet_item item_of fl p)"
  shows "epoch_reached e (fleet_item item_of (fleet_step conf (stream_locks send) p ev fl) p)"
proof (cases ev)
  case (Happens i now now')
  then show ?thesis
    using assms by (cases rule: happens_cases [of conf "stream_locks send" p i now now' fl])
      (simp_all add: fleet_item_def lease_step_epoch split: option.split)
qed (use assms in \<open>simp_all add: fleet_item_def lease_step_epoch\<close>)

lemma fold_epoch:
  "epoch_reached e (fleet_item item_of fl p) \<Longrightarrow>
    epoch_reached e (fleet_item item_of (fold (fleet_step conf (stream_locks send) p) evs fl) p)"
  by (induction evs arbitrary: fl) (simp_all add: fleet_step_epoch)

lemma epochs_known_step:
  assumes "fleet_inv conf (stream_locks send) p db0 fl" and known: "epochs_known item_of p fl"
  shows "epochs_known item_of p (fleet_step conf (stream_locks send) p ev fl)"
proof -
  let ?fl = "fleet_step conf (stream_locks send) p ev fl"
  have kept: "epoch_reached e (fleet_item item_of fl p) \<Longrightarrow> epoch_reached e (fleet_item item_of ?fl p)" for e
    by (rule fleet_step_epoch)
  have same: ?thesis if "\<And>j. session_epochs ?fl j = session_epochs fl j"
    using known kept unfolding epochs_known_def that by blast
  show ?thesis
  proof (cases ev)
    case (Runs i e)
    then show ?thesis using runs_happened(1) [OF assms(1)] by (intro same) (simp add: session_epochs_def)
  next
    case (Happens i now now')
    show ?thesis
    proof (cases rule: happens_cases [of conf "stream_locks send" p i now now' fl])
      case idle
      then show ?thesis using known Happens by simp
    next
      case (call e)
      have log: "session_epochs ?fl j = (if j = i then epochs (session_epochs fl i) e else session_epochs fl j)" for j
        by (simp add: session_epochs_def Happens call(5))
      have new: "epoch_reached x (fleet_item item_of fl p)" if "e = DidReadEpoch (Inr (Some x))" for x
        using call(4) that epoch_read [of p "ls_db (fl_lease fl)" x]
        by (cases "getSrtpFloorEpoch send p (ls_db (fl_lease fl))") (simp add: fleet_item_def)
      have "epoch_reached x (fleet_item item_of fl p)"
        if "fst (epochs (session_epochs fl i) e) = Some x \<or> snd (epochs (session_epochs fl i) e) h = Some (Some x)" for x h
        using that new known unfolding epochs_known_def
        by (cases "(session_epochs fl i, e)" rule: epochs.cases) (auto split: if_splits)
      then show ?thesis
        using known kept unfolding epochs_known_def by (auto simp: log)
    qed
  next
    case (Elsewhere e)
    then show ?thesis by (intro same) (simp add: session_epochs_def happened_def fleet_calls_def)
  qed
qed

lemma epochs_known_run: "epochs_known item_of p (fleet_run conf (stream_locks send) p t db evs)"
proof -
  have run: "epochs_known item_of p (fold (fleet_step conf (stream_locks send) p) evs fl)"
    if "fleet_inv conf (stream_locks send) p db fl" "epochs_known item_of p fl" for fl
    using that by (induction evs arbitrary: fl) (simp_all add: fleet_step_inv epochs_known_step del: fleet_step.simps)
  have start: "epochs_known item_of p (new_fleet conf t db)"
    by (simp add: epochs_known_def session_epochs_def happened_def new_fleet_def)
  show ?thesis unfolding fleet_run_def by (rule run [OF new_fleet_inv start])
qed

text \<open>A raise of a session that was started before the row reached an epoch above all that had been
  read has no effect on the row.\<close>

lemma old_session_raise:
  assumes inv: "fleet_inv conf (stream_locks send) p db0 fl" "prefix past (happened fl i)"
    and started: "list_ex (starts_session h) past"
    and old: "\<And>e. snd (foldl epochs (None, Map.empty) past) h = Some (Some e) \<Longrightarrow> e < bound"
    and row: "epoch_reached bound (fleet_item item_of fl p)"
    and raise: "next_call fl i = Some (DidRaise h index epoch ok)"
  shows "fleet_item item_of (happens conf (stream_locks send) p i now now' fl) p = fleet_item item_of fl p"
proof (cases rule: happens_cases [of conf "stream_locks send" p i now now' fl])
  case (call e)
  have e: "e = DidRaise h index epoch ok" using call(1) raise by simp
  have ok: "history_ok (happened fl i @ [e])" by (rule happened_ok(2) [OF inv(1) call(1)])
  then have "epoch = Option.bind (snd (session_epochs fl i) h) id"
    by (simp add: history_ok_def session_epochs_def e)
  moreover have "snd (session_epochs fl i) h = snd (foldl epochs (None, Map.empty) past) h"
    using session_epoch_stays [OF _ started] happened_ok(1) [OF inv(1), of i] inv(2)
    unfolding session_epochs_def prefix_def by metis
  ultimately have "case epoch of None \<Rightarrow> True | Some x \<Rightarrow> x < bound"
    using old by (auto split: option.split simp: bind_eq_Some_conv)
  then show ?thesis
    using stale_raise_refused [OF row [unfolded fleet_item_def]] call(6) e by (simp add: fleet_item_def)
qed simp

end

text \<open>C13. A floor reset holds against every helper that was running when it landed. In any run of a
  fleet, whatever the instances do before and after it: once a reset has been applied, a raise of
  the floor that any instance asks for on behalf of a session started before leaves the row as it
  is, however late it comes and whatever floor it reports.\<close>

theorem reset_holds_across_fleet:
  assumes "dynamo send item_of" and "fl = fleet_run conf (stream_locks send) p t db es"
    and "ls_clock (fl_lease fl) \<le> now"
    and "fst (resetSrtpIndexFloor send p reset now (ls_db (fl_lease fl))) = Inr ResetDone"
    and "fl' = fleet_run conf (stream_locks send) p t db (es @ Elsewhere (OnFloor (ResetOp p reset now) now) # es')"
    and "list_ex (starts_session h) (happened fl i)"
    and "next_call fl' i = Some (DidRaise h index epoch ok)"
  shows "fleet_item item_of (fleet_step conf (stream_locks send) p (Happens i later later') fl') p =
    fleet_item item_of fl' p"
proof -
  let ?step = "fleet_step conf (stream_locks send) p" and ?reset = "Elsewhere (OnFloor (ResetOp p reset now) now)"
  obtain db' where landed: "resetSrtpIndexFloor send p reset now (ls_db (fl_lease fl)) = (Inr ResetDone, db')"
    using assms(4) by (cases "resetSrtpIndexFloor send p reset now (ls_db (fl_lease fl))") auto
  have runs: "fleet_inv conf (stream_locks send) p db fl" "fleet_inv conf (stream_locks send) p db fl'"
    by (simp_all only: assms(2,5) fleet_run_inv)
  have fl': "fl' = fold ?step es' (?step ?reset fl)" by (simp add: assms(2,5) fleet_run_def)
  have "epoch_reached (fr_requested_at reset) (fleet_item item_of (?step ?reset fl) p)"
    using dynamo.reset_done_epoch(2) [OF assms(1) landed] assms(3) by (simp add: fleet_item_def landed)
  then have row: "epoch_reached (fr_requested_at reset) (fleet_item item_of fl' p)"
    unfolding fl' by (rule dynamo.fold_epoch [OF assms(1)])
  have "epochs_known item_of p fl" unfolding assms(2) by (rule dynamo.epochs_known_run [OF assms(1)])
  then have old: "snd (foldl epochs (None, Map.empty) (happened fl i)) h = Some (Some e) \<Longrightarrow> e < fr_requested_at reset" for e
    using dynamo.reset_done_epoch(1) [OF assms(1) landed]
    by (auto simp: epochs_known_def session_epochs_def fleet_item_def)
  have "prefix (happened fl i) (happened fl' i)"
    using fold_happened [OF runs(1), of i "?reset # es'"] by (simp add: fl')
  from dynamo.old_session_raise [OF assms(1) runs(2) this assms(6) old row assms(7)]
  show ?thesis by simp
qed


section \<open>Examples\<close>

lemma js_trim_id: "\<not> js_space c \<Longrightarrow> \<not> js_space d \<Longrightarrow> js_trim (c # s @ [d]) = c # s @ [d]"
  by (simp add: js_trim_def)

lemma push_json:
  assumes "stringifiable (JObj kvs)" and "length (json_text (JObj kvs)) \<le> max_line_bytes"
  shows "push (json_text (JObj kvs) @ [newline]) new_protocol =
    ([parse_record (Unparsed (take 200 (json_text (JObj kvs)))) kvs], new_protocol)"
proof -
  let ?l = "json_text (JObj kvs)"
  have plain: "newline \<notin> set ?l" using json_text_no_newline(1) [of "JObj kvs"] by (simp add: newline_def)
  have trim: "js_trim ?l = ?l" using js_trim_id [of 123 125 "members_text kvs"] by (simp add: js_space_def)
  have cut: "dropWhile (\<lambda>c. c \<noteq> newline) (?l @ [newline]) = [newline]"
    "takeWhile (\<lambda>c. c \<noteq> newline) (?l @ [newline]) = ?l"
    using plain by (subst dropWhile_append2 takeWhile_append2; auto)+
  have none: "push_lines False [] = ([], False, [])" by (subst push_lines.simps) simp
  have parse: "parseMessage ?l = parse_record (Unparsed (take 200 ?l)) kvs"
    using json_round_trip [OF assms(1)] by (simp only: parseMessage_def Let_def) simp
  have "push_lines False (?l @ [newline]) = ([parseMessage ?l], False, [])"
    by (subst push_lines.simps) (simp only: cut list.case list.sel Let_def trim none assms(2) not_le [symmetric], use assms(2) in simp)
  then show ?thesis by (simp add: push_def new_protocol_def parse del: json_text.simps)
qed

definition ready_line :: js_string where
  "ready_line = json_text (JObj [(js ''t'', JStr (js ''ready'')), (js ''v'', JNum (JInt 3)), (js ''port'', JNum (JInt 6000))])"

definition auth_line :: js_string where
  "auth_line = json_text (JObj [(js ''t'', JStr (js ''auth'')), (js ''status'', JStr (js ''ok'')),
     (js ''first'', JBool True), (js ''roc'', JNum (JInt 0))])"

lemmas line_eval = js_Cons json_string_def quote_unit_def surrogate_def leading_def trailing_def
  int_string_def nat_digits.simps

definition stopped_line :: js_string where
  "stopped_line = json_text (JObj [(js ''t'', JStr (js ''stopped'')), (js ''index'', JNum (JInt 4295032831))])"

lemma line_lengths: "length ready_line \<le> 100" "length auth_line \<le> 100" "length stopped_line \<le> 100"
  by (simp_all add: ready_line_def auth_line_def stopped_line_def line_eval)

lemma sample_frames:
  "push (ready_line @ [newline]) new_protocol = ([Ready 3 6000 None], new_protocol)"
  "push (auth_line @ [newline]) new_protocol = ([AuthOk True 0 None None None None], new_protocol)"
  "push (stopped_line @ [newline]) new_protocol = ([StoppedFrame (Some 4295032831)], new_protocol)"
proof -
  let ?ready = "[(js ''t'', JStr (js ''ready'')), (js ''v'', JNum (JInt 3)), (js ''port'', JNum (JInt 6000))]"
  let ?auth = "[(js ''t'', JStr (js ''auth'')), (js ''status'', JStr (js ''ok'')), (js ''first'', JBool True),
    (js ''roc'', JNum (JInt 0))]"
  let ?stopped = "[(js ''t'', JStr (js ''stopped'')), (js ''index'', JNum (JInt 4295032831))]"
  have "stringifiable (JObj ?ready)" "stringifiable (JObj ?auth)" "stringifiable (JObj ?stopped)"
    by (simp_all add: code_units_def js_Cons is_safe_integer_def max_safe_integer_def)
  moreover have "parse_record u ?ready = Ready 3 6000 None" "parse_record u ?auth = AuthOk True 0 None None None None"
    "parse_record u ?stopped = StoppedFrame (Some 4295032831)" for u
    by (simp_all add: parse_record_def parse_auth_def field_def field_defs int_within_def js_Cons max_safe_integer_def
        uint32_max_def uint16_max_def srtp_index_max_def)
  ultimately show "push (ready_line @ [newline]) new_protocol = ([Ready 3 6000 None], new_protocol)"
    "push (auth_line @ [newline]) new_protocol = ([AuthOk True 0 None None None None], new_protocol)"
    "push (stopped_line @ [newline]) new_protocol = ([StoppedFrame (Some 4295032831)], new_protocol)"
    using push_json [of ?ready] push_json [of ?auth] push_json [of ?stopped] line_lengths
    by (simp_all only: ready_line_def [symmetric] auth_line_def [symmetric] stopped_line_def [symmetric]) (simp_all add: max_line_bytes_def)
qed

text \<open>A supervisor whose helper gets ready and authenticates a packet, in surroundings that grant everything.\<close>

definition sample_port_events :: "port_event list" where
  "sample_port_events =
     [CallStart, RunNext, StdoutData 0 (ready_line @ [newline]), RunNext,
      StdoutData 0 (auth_line @ [newline]), RunNext]"

definition fleet_config :: config where
  "fleet_config = sample_config\<lparr>getIndexFloor := \<lambda>h. Inr None\<rparr>"

definition sample_calls :: history where
  "sample_calls =
     (let init = session_init fleet_config None None in
      [OtherStep, DidReadEpoch (Inr None), DidReadFloor (Inr None), DidSpawn 0 init (Inr ()),
       Wrote 0 (InitCommand init) (serializeCommand (InitCommand init) @ [newline]) True, Moved Idle Starting False,
       HeardFrame 0 (Ready 3 6000 None), Moved Starting Searching False,
       HeardFrame 0 (AuthOk True 0 None None None None), SawAuthenticated 0 None, Moved Searching Acquiring False,
       DidAcquire (Inr True), Wrote 0 (StartCommand 3) (serializeCommand (StartCommand 3) @ [newline]) True,
       Moved Acquiring Producing True])"

definition sample_port :: port_system where
  "sample_port = fold (port_step fleet_config) sample_port_events (new_port fleet_config)"

text \<open>Then the helper stops by itself, and reports the highest index it has seen.\<close>

definition stopped_port :: port_system where
  "stopped_port = port_step fleet_config RunNext (port_step fleet_config (StdoutData 0 (stopped_line @ [newline])) sample_port)"


lemmas port_eval = sample_port_def sample_port_events_def new_port_def new_supervisor_def enqueue_def on_stdout_def
  spawnSession_def adopt_session_def handler_defs Let_def sample_frames handleFrame_def handleOwnFrame_def
  handleReady_def handleFirstAuth_def attemptAcquire_def session_init_def carried_search_def fleet_config_def
  sample_config_def helper_protocol_version_def sample_calls_def

lemma sample_port_calls: "calls (sys_sup sample_port) = sample_calls"
  by (simp add: port_eval del: serializeCommand_def)

lemma stopped_port_calls:
  "calls (sys_sup stopped_port) = sample_calls @
    [HeardFrame 0 (StoppedFrame (Some 4295032831)), DidRaise 0 4295032831 None True,
     DidRelease (Inr ()), Moved Producing Searching False]"
  by (simp add: stopped_port_def handleStopped_def port_eval del: serializeCommand_def)

text \<open>Calls that take place one after the other, with the answers the table gives.\<close>

lemma runs_fold:
  "fold (fleet_step conf ops p) (map (Runs i) es) fl =
    fl\<lparr>fl_port := (fl_port fl)(i := fold (port_step (conf i)) es (fl_port fl i))\<rparr>"
  by (induction es arbitrary: fl) simp_all

definition perform :: "'db lock_ops \<Rightarrow> int \<Rightarrow> js_string \<Rightarrow> port_key \<Rightarrow> int \<Rightarrow> effect \<Rightarrow> 'db lease_sys \<Rightarrow> 'db lease_sys" where
  "perform ops p i key now e s =
     (case lock_request p i key now now e of None \<Rightarrow> s | Some ev \<Rightarrow> lease_step ops p ev s)"

fun answered :: "'db lock_ops \<Rightarrow> int \<Rightarrow> js_string \<Rightarrow> port_key \<Rightarrow> int \<Rightarrow> 'db lease_sys \<Rightarrow> history \<Rightarrow> bool" where
  "answered ops p i key now s [] = True"
| "answered ops p i key now s (e # es) =
     (ls_clock s \<le> now \<and> answers ops p i key now now s e \<and> answered ops p i key now (perform ops p i key now e s) es)"

lemma calls_take_place:
  "fleet_calls fl i = pre @ es @ post \<Longrightarrow> fl_done fl i = length pre \<Longrightarrow>
    answered ops p i (c_key (conf i)) now (fl_lease fl) es \<Longrightarrow>
    fold (fleet_step conf ops p) (replicate (length es) (Happens i now now)) fl =
      fl\<lparr>fl_done := (fl_done fl)(i := length pre + length es),
          fl_lease := fold (perform ops p i (c_key (conf i)) now) es (fl_lease fl)\<rparr>"
proof (induction es arbitrary: fl pre)
  case (Cons e es)
  let ?fl = "fl\<lparr>fl_done := (fl_done fl)(i := Suc (length pre)),
    fl_lease := perform ops p i (c_key (conf i)) now e (fl_lease fl)\<rparr>"
  have "fleet_step conf ops p (Happens i now now) fl = ?fl"
    using Cons.prems by (simp add: happens_def perform_def Let_def nth_append)
  moreover have "fleet_calls ?fl i = (pre @ [e]) @ es @ post" using Cons.prems(1) by (simp add: fleet_calls_def)
  ultimately show ?case using Cons.IH [of ?fl "pre @ [e]"] Cons.prems by (simp cong: if_cong)
next
  case Nil
  then have "(fl_done fl)(i := length pre) = fl_done fl" by auto
  then show ?case by simp
qed

text \<open>The instances a and b, the second more than five minutes after the first fell silent.\<close>

definition sample_instance :: "js_string \<Rightarrow> int \<Rightarrow> fleet_event list" where
  "sample_instance i now = map (Runs i) sample_port_events @ replicate 14 (Happens i now now)"

abbreviation "table_ops \<equiv> stream_locks table_send"

lemma reads_quiet:
  assumes "faults (ls_db s) = []" "ls_clock s \<le> now"
  shows "perform table_ops p i key now (DidReadEpoch r) s = s\<lparr>ls_clock := now\<rparr>"
    "perform table_ops p i key now (DidReadFloor r') s = s\<lparr>ls_clock := now\<rparr>"
    "fst (op_read_epoch table_ops p (ls_db s)) = Inr (safe_int (epoch_of (table_item (ls_db s) p)))"
    "fst (op_read_floor table_ops p ssrc fp (ls_db s)) = Inr (floor_of (table_item (ls_db s) p) ssrc fp)"
  using assms
  by (simp_all add: perform_def getSrtpFloorEpoch_def getSrtpIndexFloor_def next_fault_def table_skip_def
      epoch_of_project)

lemma sample_instance_run:
  assumes "fl_port fl i = new_port fleet_config" and "fl_done fl i = 0" and "ls_clock (fl_lease fl) \<le> now"
    and table: "faults (ls_db (fl_lease fl)) = []" "epoch_of (table_item (ls_db (fl_lease fl)) p) = None"
      "get (table_item (ls_db (fl_lease fl)) p) ''srtpIndex'' = None"
    and granted: "fst (op_acquire table_ops p i now now (ls_db (fl_lease fl))) = Inr True" and conf: "conf i = fleet_config"
  shows "fold (fleet_step conf table_ops p) (sample_instance i now) fl =
    fl\<lparr>fl_port := (fl_port fl)(i := sample_port), fl_done := (fl_done fl)(i := 14),
        fl_lease := lease_step table_ops p (Acquire i now now) (fl_lease fl)\<rparr>"
proof -
  define s where "s = fl_lease fl"
  define key where "key = c_key (conf i)"
  define fl1 where "fl1 = fl\<lparr>fl_port := (fl_port fl)(i := sample_port)\<rparr>"
  have runs: "fold (fleet_step conf table_ops p) (map (Runs i) sample_port_events) fl = fl1"
    using assms(1) conf by (simp add: runs_fold fl1_def sample_port_def)
  note quiet = reads_quiet [where s = s and now = now] reads_quiet [where s = "s\<lparr>ls_clock := now\<rparr>" and now = now]
  have clock: "ls_clock (lease_step table_ops p (Acquire i now now) u) = now" for u
    by (simp add: lease_update_def Let_def split: prod.split sum.split bool.split)
  have same: "lease_step table_ops p (Acquire i now now) (s\<lparr>ls_clock := now\<rparr>) = lease_step table_ops p (Acquire i now now) s"
    by (simp add: lease_update_def Let_def split: prod.split)
  have "answered table_ops p i key now s sample_calls"
    "fold (perform table_ops p i key now) sample_calls s = lease_step table_ops p (Acquire i now now) s"
    using quiet table granted assms(3)
    by (simp_all add: sample_calls_def Let_def s_def [symmetric] safe_int_def floor_of_def
        del: lease_step.simps stream_locks_sel) (simp_all add: perform_def same clock del: lease_step.simps)
  moreover have "fleet_calls fl1 i = [] @ sample_calls @ []" "fl_done fl1 i = length ([] :: history)" "fl_lease fl1 = s"
    "length sample_calls = 14"
    using sample_port_calls assms(2) by (simp_all add: fl1_def fleet_calls_def s_def, simp add: sample_calls_def Let_def)
  ultimately have "fold (fleet_step conf table_ops p) (replicate 14 (Happens i now now)) fl1 =
      fl1\<lparr>fl_done := (fl_done fl1)(i := 14), fl_lease := lease_step table_ops p (Acquire i now now) s\<rparr>"
    using calls_take_place [of fl1 i "[]" sample_calls "[]" table_ops p conf now] by (simp add: key_def)
  then show ?thesis by (simp add: sample_instance_def runs fl1_def s_def)
qed

definition sample_fleet :: "table fleet" where
  "sample_fleet =
     fleet_run (\<lambda>i. fleet_config) table_ops 6000 1700000000000 free_table
       (sample_instance (js ''a'') 1700000000000 @ sample_instance (js ''b'') 1700000400000)"

lemma sample_fleet_leases:
  "lease_age sample_fleet (js ''a'') = Some 400000" "lease_age sample_fleet (js ''b'') = Some 0"
  "happened sample_fleet (js ''a'') = sample_calls" "happened sample_fleet (js ''b'') = sample_calls"
proof -
  let ?s0 = "\<lparr>ls_db = free_table, ls_clock = 1700000000000, ls_lease = [], ls_updates = []\<rparr>"
  let ?s1 = "lease_step table_ops 6000 (Acquire (js ''a'') 1700000000000 1700000000000) ?s0"
  let ?s2 = "lease_step table_ops 6000 (Acquire (js ''b'') 1700000400000 1700000400000) ?s1"
  note eval = stream_locks_def tryAcquireKinesisLock_def free_table_def table_item_def next_fault_def table_write_def
    table_skip_def row_simps may_acquire_def lease_update_def kinesis_lock_stale_ms_def acquire_actions_def
    updated_def key_item_def owner_of_def lease_of_def get_def js_Cons Let_def
  have first: "fst (op_acquire table_ops 6000 (js ''a'') 1700000000000 1700000000000 (ls_db ?s0)) = Inr True"
    "ls_clock ?s1 = 1700000000000"
    by (simp_all add: eval)
  have second: "fst (op_acquire table_ops 6000 (js ''b'') 1700000400000 1700000400000 (ls_db ?s1)) = Inr True"
    by (simp add: eval)
  have tables: "faults (ls_db u) = [] \<and> epoch_of (table_item (ls_db u) 6000) = None \<and>
      get (table_item (ls_db u) 6000) ''srtpIndex'' = None" if "u = ?s0 \<or> u = ?s1" for u
    using that by (auto simp: eval epoch_of_def)
  have leases: "ls_clock ?s2 = 1700000400000" "map_of (ls_lease ?s2) (js ''a'') = Some 1700000000000"
    "map_of (ls_lease ?s2) (js ''b'') = Some 1700000400000"
    by (simp_all add: eval)
  have fleet: "sample_fleet = (new_fleet (\<lambda>i. fleet_config) 1700000000000 free_table)
      \<lparr>fl_port := ((\<lambda>i. new_port fleet_config)(js ''a'' := sample_port))(js ''b'' := sample_port),
       fl_done := ((\<lambda>i. 0)(js ''a'' := 14))(js ''b'' := 14), fl_lease := ?s2\<rparr>"
    unfolding sample_fleet_def fleet_run_def fold_append o_apply
    using first second tables [of ?s0] tables [of ?s1]
    by (simp add: sample_instance_run new_fleet_def js_Cons del: lease_step.simps)
  show "lease_age sample_fleet (js ''a'') = Some 400000" "lease_age sample_fleet (js ''b'') = Some 0"
    using leases by (simp_all add: fleet lease_age_def del: lease_step.simps)
  have "length sample_calls = 14" by (simp add: sample_calls_def Let_def)
  then show "happened sample_fleet (js ''a'') = sample_calls" "happened sample_fleet (js ''b'') = sample_calls"
    using sample_port_calls
    by (simp_all add: fleet happened_def fleet_calls_def sample_port_def js_Cons del: lease_step.simps)
qed

text \<open>Both of the sample fleet's instances produce, and the lease of the first is old.\<close>

lemma sample_producing: "producing sample_fleet (js ''a'')" "producing sample_fleet (js ''b'')"
proof -
  have "foldl told {} sample_calls \<noteq> {}" "snd (foldl before (None, None) sample_calls) \<noteq> Some (DidRefresh (Inr LeaseLost))"
    by (simp_all add: sample_calls_def Let_def before_def)
  then show "producing sample_fleet (js ''a'')" "producing sample_fleet (js ''b'')"
    by (simp_all add: producing_def sample_fleet_leases)
qed

lemma fleet_single_producer_witness:
  "kinesis_lock_stale_ms < max (the (lease_age sample_fleet (js ''a''))) (the (lease_age sample_fleet (js ''b'')))"
proof -
  have keyed: "row_keyed table_item free_table 6000"
    by (simp add: row_keyed_def free_table_def table_item_def)
  have "js ''a'' \<noteq> js ''b''" by (simp add: js_Cons)
  from fleet_single_producer [OF dynamo_table keyed this sample_fleet_def sample_producing]
  show ?thesis by (simp add: sample_fleet_leases)
qed


text \<open>The instance a has a helper running; the operator resets the floor; then the helper stops and
  reports the index it has seen.\<close>

definition fleet_reset :: floor_reset where
  "fleet_reset = \<lparr>fr_requested_at = 1700000100000, fr_floor = 100, fr_ssrc = 7,
     fr_fingerprint = js ''k'', fr_generation = 2000000001\<rparr>"

definition late_raise :: "fleet_event list" where
  "late_raise = [Runs (js ''a'') (StdoutData 0 (stopped_line @ [newline])), Runs (js ''a'') RunNext,
     Happens (js ''a'') 1700000200000 1700000200000]"

definition fleet_before :: "table fleet" where
  "fleet_before = fleet_run (\<lambda>i. fleet_config) table_ops 6000 1700000000000 free_table
     (sample_instance (js ''a'') 1700000000000)"

definition fleet_after :: "table fleet" where
  "fleet_after = fleet_run (\<lambda>i. fleet_config) table_ops 6000 1700000000000 free_table
     (sample_instance (js ''a'') 1700000000000 @
      Elsewhere (OnFloor (ResetOp 6000 fleet_reset 1700000100000) 1700000100000) # late_raise)"

lemma fleet_before_run:
  "ls_clock (fl_lease fleet_before) = 1700000000000"
  "fst (resetSrtpIndexFloor table_send 6000 fleet_reset 1700000100000 (ls_db (fl_lease fleet_before))) = Inr ResetDone"
  "happened fleet_before (js ''a'') = sample_calls" "fl_port fleet_before (js ''a'') = sample_port"
  "fl_done fleet_before (js ''a'') = 14"
proof -
  let ?s0 = "\<lparr>ls_db = free_table, ls_clock = 1700000000000, ls_lease = [], ls_updates = []\<rparr>"
  let ?s1 = "lease_step table_ops 6000 (Acquire (js ''a'') 1700000000000 1700000000000) ?s0"
  note eval = stream_locks_def tryAcquireKinesisLock_def free_table_def table_item_def next_fault_def table_write_def
    table_skip_def row_simps may_acquire_def lease_update_def kinesis_lock_stale_ms_def acquire_actions_def
    updated_def key_item_def owner_of_def lease_of_def get_def js_Cons Let_def
  have first: "fst (op_acquire table_ops 6000 (js ''a'') 1700000000000 1700000000000 (ls_db ?s0)) = Inr True"
    "faults free_table = []" "epoch_of (table_item free_table 6000) = None" "get (table_item free_table 6000) ''srtpIndex'' = None"
    by (simp_all add: eval epoch_of_def)
  have fleet: "fleet_before = (new_fleet (\<lambda>i. fleet_config) 1700000000000 free_table)
      \<lparr>fl_port := (\<lambda>i. new_port fleet_config)(js ''a'' := sample_port), fl_done := (\<lambda>i. 0)(js ''a'' := 14), fl_lease := ?s1\<rparr>"
    unfolding fleet_before_def fleet_run_def
    using first by (simp add: sample_instance_run new_fleet_def del: lease_step.simps)
  have clock: "ls_clock ?s1 = 1700000000000" by (simp add: eval)
  have resets: "fst (resetSrtpIndexFloor table_send 6000 fleet_reset 1700000100000 (ls_db ?s1)) = Inr ResetDone"
    by (simp add: eval resetSrtpIndexFloor_def epoch_of_def generation_of_def)
  show "ls_clock (fl_lease fleet_before) = 1700000000000"
    "fst (resetSrtpIndexFloor table_send 6000 fleet_reset 1700000100000 (ls_db (fl_lease fleet_before))) = Inr ResetDone"
    using clock resets by (simp_all add: fleet del: lease_step.simps)
  have "length sample_calls = 14" by (simp add: sample_calls_def Let_def)
  then show "happened fleet_before (js ''a'') = sample_calls" "fl_port fleet_before (js ''a'') = sample_port"
    "fl_done fleet_before (js ''a'') = 14"
    using sample_port_calls by (simp_all add: fleet happened_def fleet_calls_def del: lease_step.simps)
qed

lemma late_raise_next: "next_call fleet_after (js ''a'') = Some (DidRaise 0 4295032831 None True)"
proof -
  let ?step = "fleet_step (\<lambda>i. fleet_config) table_ops 6000"
  have len: "length sample_calls = 14" by (simp add: sample_calls_def Let_def)
  have after: "fleet_after = fold ?step late_raise
      (?step (Elsewhere (OnFloor (ResetOp 6000 fleet_reset 1700000100000) 1700000100000)) fleet_before)"
    by (simp only: fleet_after_def fleet_before_def fleet_run_def fold_append fold_Cons o_apply)
  show ?thesis
    using fleet_before_run stopped_port_calls len
    by (simp add: after late_raise_def happens_def next_call_def fleet_calls_def stopped_port_def [symmetric]
        nth_append Let_def del: port_step.simps)
qed

lemma reset_holds_across_fleet_witness:
  "fleet_item table_item (fleet_step (\<lambda>i. fleet_config) table_ops 6000 (Happens (js ''a'') 1700000300000 1700000300000)
     fleet_after) 6000 = fleet_item table_item fleet_after 6000"
proof (rule reset_holds_across_fleet [OF dynamo_table fleet_before_def _ fleet_before_run(2) fleet_after_def
      _ late_raise_next])
  show "list_ex (starts_session 0) (happened fleet_before (js ''a''))"
    by (simp add: fleet_before_run sample_calls_def Let_def)
qed (simp add: fleet_before_run)

end
