(* ===== verification/Supervision.thy ===== *)
theory Supervision
imports Fleet Transport
begin

text \<open>
  The SRTP transport with the supervisors it creates (\<open>createSupervisor\<close>, \<open>start\<close> and \<open>stop\<close> in
  \<open>backend/src/SrtpTransport.ts\<close>): the composition of \<open>Transport\<close> with one \<open>Supervisor\<close> per keyed port.
  A supervisor's transitions and statistics run the hooks the transport gave it. As in \<open>Fleet\<close>, what
  a supervisor does is its history of calls, and each call takes place on its own: the hooks of
  different ports interleave in any order, between steps that are not over yet.

  Shown: what the transport reports is what its supervisors did - whether SRTP is serving, and the
  bytes received - in every such run; and the stop of all supervisors at rest is the stop that
  \<open>Transport\<close> models as one step.
\<close>

section \<open>The state a history leads to\<close>

text \<open>The state of a supervisor is the one its last transition named, which is all the transport hears.\<close>

fun last_state :: "sup_state \<Rightarrow> effect \<Rightarrow> sup_state" where
  "last_state x (Moved f to held) = to"
| "last_state x e = x"

definition tracks :: "sup \<Rightarrow> bool" where
  "tracks s \<longleftrightarrow> foldl last_state Idle (calls s) = st s"

named_theorems tracking

lemma tracks_emit: "tracks (emit e s) \<longleftrightarrow> last_state (foldl last_state Idle (calls s)) e = st s"
  by (simp add: tracks_def emit_def)

lemma tracks_fields [simp]:
  "tracks (s\<lparr>fatalReason := a\<rparr>) = tracks s" "tracks (s\<lparr>lockHeld := b\<rparr>) = tracks s"
  "tracks (s\<lparr>helper := h\<rparr>) = tracks s" "tracks (s\<lparr>searchFromCarry := d\<rparr>) = tracks s"
  "tracks (s\<lparr>backoffMs := n\<rparr>) = tracks s" "tracks (s\<lparr>retryAtMs := n\<rparr>) = tracks s"
  "tracks (s\<lparr>lastFrameAtMs := n\<rparr>) = tracks s" "tracks (s\<lparr>stoppedSentAtMs := n\<rparr>) = tracks s"
  "tracks (s\<lparr>releaseAfterStop := b\<rparr>) = tracks s" "tracks (s\<lparr>sessionFloorBase := n\<rparr>) = tracks s"
  "tracks (s\<lparr>lastAcquireAttemptMs := n\<rparr>) = tracks s" "tracks (s\<lparr>lastHeartbeatAuthenticated := n\<rparr>) = tracks s"
  "tracks (s\<lparr>protocol_of := pr\<rparr>) = tracks s" "tracks (s\<lparr>ticking := b\<rparr>) = tracks s"
  "tracks (s\<lparr>startedAtMs := n\<rparr>) = tracks s" "tracks (s\<lparr>spawned := m\<rparr>) = tracks s"
  "tracks (s\<lparr>sessionEpochs := es\<rparr>) = tracks s"
  by (simp_all add: tracks_def)

lemma tracks_transition [tracking]: "tracks s \<Longrightarrow> tracks (transition to s)"
  by (simp add: transition_def tracks_def emit_def)

fun still :: "effect \<Rightarrow> bool" where
  "still (Moved f to held) = False"
| "still e = True"

lemma tracks_still [tracking]: "tracks s \<Longrightarrow> still e \<Longrightarrow> tracks (emit e s)"
  by (cases e) (simp_all add: tracks_def emit_def)

lemma tracks_cooldown [tracking]: "tracks s \<Longrightarrow> tracks (enterCooldown c s)"
  by (auto simp: enterCooldown_def intro: tracking)

lemma tracks_write [tracking]: "tracks s \<Longrightarrow> tracks (writeCommand c m s)"
  by (auto simp: writeCommand_def intro!: tracking split: option.split)

lemma tracks_release [tracking]: "tracks s \<Longrightarrow> tracks (releaseLock c s)"
  by (auto simp: releaseLock_def Let_def intro!: tracking)

lemma tracks_raise [tracking]: "tracks s \<Longrightarrow> tracks (snd (raiseFloor c i h s))"
  by (auto simp: raiseFloor_def Let_def intro!: tracking)

lemma tracks_spawn [tracking]: "tracks s \<Longrightarrow> tracks (spawnSession c s)"
  by (auto simp: spawnSession_def adopt_session_def Let_def intro!: tracking split: sum.split)

lemma tracks_acquire [tracking]: "tracks s \<Longrightarrow> tracks (attemptAcquire c s)"
  by (auto simp: attemptAcquire_def Let_def intro!: tracking split: sum.split bool.split)

lemma tracks_notProducing [tracking]: "tracks s \<Longrightarrow> tracks (notProducing c s)"
  by (auto simp: notProducing_def intro!: tracking)

lemma tracks_refresh [tracking]: "tracks s \<Longrightarrow> tracks (refreshLease c s)"
  by (auto simp: refreshLease_def Let_def intro!: tracking split: sum.split lease_outcome.split)

lemma tracks_end [tracking]: "tracks s \<Longrightarrow> tracks (endSession c s)"
  by (auto simp: endSession_def Let_def intro!: tracking split: option.split)

lemma tracks_reset [tracking]: "tracks s \<Longrightarrow> tracks (snd (handleFloorReset c s))"
  by (auto simp: handleFloorReset_def Let_def intro!: tracking split: option.split sum.split)

lemma tracks_exit [tracking]: "tracks s \<Longrightarrow> tracks (handleExit c h s)"
  by (auto simp: handleExit_def Let_def intro!: tracking split: option.split)

lemma tracks_frame [tracking]: "tracks s \<Longrightarrow> tracks (handleFrame c m h s)"
  by (cases m) (auto simp: handleFrame_def handleOwnFrame_def handleLateFrame_def handleStopped_def
      handleStats_def handleReady_def handleFirstAuth_def raiseFloor_def Let_def
      intro!: tracking split: option.split)

lemma tracks_tick [tracking]: "tracks s \<Longrightarrow> tracks (handleTick c s)"
proof -
  obtain b t where r: "handleFloorReset c s = (b, t)" by fastforce
  assume "tracks s"
  from tracks_reset [OF this, of c] show ?thesis
    using \<open>tracks s\<close> by (cases "st t") (auto simp: handleTick_def r Let_def intro!: tracking)
qed

lemma tracks_shutdown [tracking]:
  assumes "tracks s" shows "tracks (shutdown c s)"
proof -
  have helper: "tracks u" if "shutdownHelper c h t = (ok, u)" "tracks t" for h t ok u
    using that(1) tracks_write [OF that(2)] that(2)
    by (auto simp: shutdownHelper_def awaitStopAck_def raiseFloor_def Let_def
        intro!: tracking split: ack.splits option.splits if_splits)
  show ?thesis
    using assms by (auto simp: shutdown_def Let_def intro!: tracking intro: helper split: option.split prod.split)
qed

lemma tracks_step: "tracks s \<Longrightarrow> tracks (run_step c x s)"
  by (cases x) (auto simp: handleError_def Let_def intro!: tracking)

lemma tracks_port: "port_reach c p \<Longrightarrow> tracks (sys_sup p)"
proof (induction rule: port_reach.induct)
  case (event p e)
  then show ?case
    by (cases e) (auto simp: enqueue_def on_stdout_def intro: tracks_step split: list.split prod.split)
qed (simp add: new_port_def new_supervisor_def tracks_def)

section \<open>The transport and its supervisors\<close>

text \<open>The hooks \<open>createSupervisor\<close> passes to a port's supervisor, by the call that runs them.\<close>

fun supervisor_hook :: "int \<Rightarrow> effect \<Rightarrow> transport \<Rightarrow> transport" where
  "supervisor_hook port (Moved f to held) t = onTransition port to t"
| "supervisor_hook port (SawStats inputBytes authenticated) t = onStats port inputBytes t"
| "supervisor_hook port e t = t"

text \<open>\<open>sn_heard\<close> counts the calls of a port that have taken place. \<open>StopBegins\<close> is \<open>stop\<close> up to its wait
  for the supervisors.\<close>

record supervision =
  sn_transport :: transport
  sn_port :: "int \<Rightarrow> port_system"
  sn_heard :: "int \<Rightarrow> nat"

datatype supervision_event = PortDoes int port_event | HookRuns int | StopBegins

definition begin_supervision :: "(int \<Rightarrow> config) \<Rightarrow> transport \<Rightarrow> supervision" where
  "begin_supervision conf t =
     \<lparr>sn_transport = t, sn_port = (\<lambda>p. port_step (conf p) CallStart (new_port (conf p))), sn_heard = (\<lambda>p. 0)\<rparr>"

definition port_calls :: "supervision \<Rightarrow> int \<Rightarrow> history" where
  "port_calls s p = calls (sys_sup (sn_port s p))"

definition heard_calls :: "supervision \<Rightarrow> int \<Rightarrow> history" where
  "heard_calls s p = take (sn_heard s p) (port_calls s p)"

definition hear_next :: "int \<Rightarrow> supervision \<Rightarrow> supervision" where
  "hear_next p s =
     (let n = sn_heard s p in
      if n < length (port_calls s p)
      then s\<lparr>sn_transport := supervisor_hook p (port_calls s p ! n) (sn_transport s),
             sn_heard := (sn_heard s)(p := Suc n)\<rparr>
      else s)"

fun supervision_step :: "(int \<Rightarrow> config) \<Rightarrow> supervision_event \<Rightarrow> supervision \<Rightarrow> supervision" where
  "supervision_step conf (PortDoes p e) s =
     (if js_has (tp_states (sn_transport s)) p
      then s\<lparr>sn_port := (sn_port s)(p := port_step (conf p) e (sn_port s p))\<rparr> else s)"
| "supervision_step conf (HookRuns p) s =
     (if js_has (tp_states (sn_transport s)) p then hear_next p s else s)"
| "supervision_step conf StopBegins s =
     s\<lparr>sn_transport := setServing False (sn_transport s),
       sn_port := (\<lambda>p. if js_has (tp_states (sn_transport s)) p
                       then port_step (conf p) CallStop (sn_port s p) else sn_port s p)\<rparr>"

definition supervision_run :: "(int \<Rightarrow> config) \<Rightarrow> transport \<Rightarrow> supervision_event list \<Rightarrow> supervision" where
  "supervision_run conf t events = fold (supervision_step conf) events (begin_supervision conf t)"

section \<open>What a history tells the transport\<close>

text \<open>The state last named, whether a helper was ever ready, the spawns and counts of a port, and what the
  differences of the counts add up to, with the baseline.\<close>

definition heard_state :: "history \<Rightarrow> sup_state" where
  "heard_state hist = foldl last_state Idle hist"

fun enters_search :: "effect \<Rightarrow> bool" where
  "enters_search (Moved f to held) = (to = Searching)"
| "enters_search e = False"

fun byte_events :: "history \<Rightarrow> bytes_event list" where
  "byte_events [] = []"
| "byte_events (Moved f to held # es) = (if to = Starting then SpawnedHelper # byte_events es else byte_events es)"
| "byte_events (SawStats b a # es) = Sampled b # byte_events es"
| "byte_events (e # es) = byte_events es"

fun count_bytes :: "int \<times> int \<Rightarrow> effect \<Rightarrow> int \<times> int" where
  "count_bytes nb (Moved f to held) = (fst nb, if to = Starting then 0 else snd nb)"
| "count_bytes nb (SawStats b a) = (fst nb + max 0 (if b \<ge> snd nb then b - snd nb else b), b)"
| "count_bytes nb e = nb"

lemma count_rising:
  "rising (snd nb) (byte_events es) \<Longrightarrow>
    fst (foldl count_bytes nb es) + snd nb = fst nb + final_counts (snd nb) (byte_events es)"
proof (induction es arbitrary: nb)
  case (Cons e es)
  show ?case
  proof (cases e)
    case (Moved f to held)
    then show ?thesis using Cons.IH [of "count_bytes nb e"] Cons.prems by (cases "to = Starting") auto
  next
    case (SawStats b a)
    then show ?thesis using Cons.IH [of "count_bytes nb e"] Cons.prems by (auto simp: max_def)
  qed (use Cons.IH [of "count_bytes nb e"] Cons.prems in simp_all)
qed simp

section \<open>The invariant\<close>

text \<open>For every port, the transport knows what has been heard of it; and nothing else was recorded.\<close>

definition served :: "supervision \<Rightarrow> bool" where
  "served s \<longleftrightarrow>
     list_ex (\<lambda>p. list_ex enters_search (heard_calls s p)) (js_keys (tp_states (sn_transport s))) \<and>
     \<not> list_all (\<lambda>p. heard_state (heard_calls s p) = Disabled) (js_keys (tp_states (sn_transport s)))"

definition port_heard :: "(int \<Rightarrow> config) \<Rightarrow> supervision \<Rightarrow> int \<Rightarrow> bool" where
  "port_heard conf s p \<longleftrightarrow>
     port_reach (conf p) (sn_port s p) \<and> sn_heard s p \<le> length (port_calls s p) \<and>
     (if js_has (tp_states (sn_transport s)) p
      then map_of (tp_states (sn_transport s)) p = Some (heard_state (heard_calls s p)) else sn_heard s p = 0) \<and>
     (p \<in> set (tp_ever_ready (sn_transport s)) \<longleftrightarrow> list_ex enters_search (heard_calls s p)) \<and>
     nullish (map_of (tp_last_bytes (sn_transport s)) p) 0 = snd (foldl count_bytes (0, 0) (heard_calls s p))"

definition all_received :: "supervision \<Rightarrow> int" where
  "all_received s = (\<Sum>p\<in>set (js_keys (tp_states (sn_transport s))). fst (foldl count_bytes (0, 0) (heard_calls s p)))"

definition supervision_inv :: "(int \<Rightarrow> config) \<Rightarrow> int list \<Rightarrow> supervision \<Rightarrow> bool" where
  "supervision_inv conf ports s \<longleftrightarrow>
     js_keys (tp_states (sn_transport s)) = ports \<and> distinct ports \<and> ports \<noteq> [] \<and>
     (\<forall>p. port_heard conf s p) \<and> received (tp_metrics (sn_transport s)) = all_received s"

lemma served_iff:
  assumes "supervision_inv conf ports s"
  shows "served s = should_serve (sn_transport s)"
proof -
  let ?t = "sn_transport s"
  have ok: "distinct (map fst (tp_states ?t))" and keys: "js_keys (tp_states ?t) = map fst (tp_states ?t)"
    using assms by (auto simp: supervision_inv_def js_keys_def)
  have heard: "port_heard conf s p" for p using assms by (simp add: supervision_inv_def)
  have ready: "list_ex (\<lambda>p. list_ex enters_search (heard_calls s p)) (map fst (tp_states ?t)) \<longleftrightarrow> tp_ever_ready ?t \<noteq> []"
  proof -
    have "p \<in> set (map fst (tp_states ?t))" if "list_ex enters_search (heard_calls s p)" for p
      using heard [of p] that
      by (auto simp: port_heard_def js_has_iff js_keys_def heard_calls_def split: if_splits)
    moreover have "p \<in> set (tp_ever_ready ?t) \<longleftrightarrow> list_ex enters_search (heard_calls s p)" for p
      using heard [of p] by (simp add: port_heard_def)
    ultimately show ?thesis by (metis list_ex_iff list.set_intros(1) list.exhaust empty_iff empty_set)
  qed
  have "heard_state (heard_calls s p) = x" if "(p, x) \<in> set (tp_states ?t)" for p x
    using heard [of p] map_of_is_SomeI [OF ok that] by (simp add: port_heard_def js_has_def)
  then have "list_all (\<lambda>p. heard_state (heard_calls s p) = Disabled) (map fst (tp_states ?t)) \<longleftrightarrow>
      list_all (\<lambda>(port, state). state = Disabled) (tp_states ?t)"
    by (fastforce simp: list_all_iff)
  then show ?thesis by (simp add: served_def should_serve_def keys ready)
qed

section \<open>A hook, a port's own step, a stop\<close>

lemma js_keys_update_known [simp]: "js_has m k \<Longrightarrow> js_keys (AList.update k v m) = js_keys m"
  by (simp add: js_has_iff js_keys_def update_keys)

lemmas hook_defs = onTransition_def onSupervisorTransition_def recomputeServing_def setServing_def onStats_def

lemma hook_keys: "js_has (tp_states t) p \<Longrightarrow> js_keys (tp_states (supervisor_hook p e t)) = js_keys (tp_states t)"
  by (cases e) (simp_all add: hook_defs Let_def)

lemma hook_states:
  "map_of (tp_states t) p = Some x \<Longrightarrow>
    map_of (tp_states (supervisor_hook p e t)) q = (if q = p then Some (last_state x e) else map_of (tp_states t) q)"
  by (cases e) (simp_all add: hook_defs Let_def js_has_def)

lemma hook_ready:
  "q \<in> set (tp_ever_ready (supervisor_hook p e t)) \<longleftrightarrow> q \<in> set (tp_ever_ready t) \<or> q = p \<and> enters_search e"
  by (cases e) (auto simp add: hook_defs Let_def)

lemma hook_bytes:
  "nullish (map_of (tp_last_bytes t) p) 0 = snd nb \<Longrightarrow>
    nullish (map_of (tp_last_bytes (supervisor_hook p e t)) q) 0 =
      (if q = p then snd (count_bytes nb e) else nullish (map_of (tp_last_bytes t) q) 0) \<and>
    received (tp_metrics (supervisor_hook p e t)) + fst nb = received (tp_metrics t) + fst (count_bytes nb e)"
  by (cases e) (auto simp add: hook_defs Let_def)

lemma hook_serving:
  assumes "js_has (tp_states t) p" "serving b (tp_metrics t) = Some (should_serve t)"
  shows "serving b (tp_metrics (supervisor_hook p e t)) = Some (should_serve (supervisor_hook p e t))"
  using assms by (cases e) (auto simp: onTransition_serving onStats_def Let_def should_serve_def)

lemma hear_next_cases:
  obtains (idle) "hear_next p s = s"
  | (call) e where "sn_heard s p < length (port_calls s p)"
    "hear_next p s = s\<lparr>sn_transport := supervisor_hook p e (sn_transport s), sn_heard := (sn_heard s)(p := Suc (sn_heard s p))\<rparr>"
    "\<And>q. heard_calls (hear_next p s) q = (if q = p then heard_calls s p @ [e] else heard_calls s q)"
proof (cases "sn_heard s p < length (port_calls s p)")
  case True
  then show ?thesis
    by (intro call [of "port_calls s p ! sn_heard s p"])
      (simp_all add: hear_next_def Let_def heard_calls_def port_calls_def take_Suc_conv_app_nth)
qed (use idle in \<open>simp add: hear_next_def Let_def\<close>)

lemma hear_next_inv:
  assumes inv: "supervision_inv conf ports s" and port: "js_has (tp_states (sn_transport s)) p"
  shows "supervision_inv conf ports (hear_next p s)"
proof (cases rule: hear_next_cases [of p s])
  case (call e)
  let ?t = "sn_transport s" and ?nb = "foldl count_bytes (0, 0) (heard_calls s p)"
  have heard: "port_heard conf s q" for q using inv by (simp add: supervision_inv_def)
  have st: "map_of (tp_states ?t) p = Some (heard_state (heard_calls s p))"
    using heard [of p] port by (simp add: port_heard_def)
  have base: "nullish (map_of (tp_last_bytes ?t) p) 0 = snd ?nb" using heard [of p] by (simp add: port_heard_def)
  have trans: "sn_transport (hear_next p s) = supervisor_hook p e ?t" by (simp add: call(2))
  have has: "js_has (tp_states (supervisor_hook p e ?t)) q = js_has (tp_states ?t) q" for q
    by (simp add: js_has_iff hook_keys [OF port])
  have "port_heard conf (hear_next p s) q" for q
    using heard [of q] port call(1) hook_bytes [OF base, of e q]
    by (cases "q = p")
      (simp_all add: port_heard_def trans has call(3) hook_states [OF st] hook_ready port_calls_def heard_state_def,
        simp_all add: call(2))
  moreover have "received (tp_metrics (supervisor_hook p e ?t)) = all_received (hear_next p s)"
  proof -
    let ?ps = "set (js_keys (tp_states ?t))" and ?f = "\<lambda>s p. fst (foldl count_bytes (0, 0) (heard_calls s p))"
    have mem: "p \<in> ?ps" and fin: "finite ?ps" using port by (simp_all add: js_has_iff)
    have "sum (?f (hear_next p s)) (?ps - {p}) = sum (?f s) (?ps - {p})"
      by (rule sum.cong) (auto simp: call(3))
    then have "all_received (hear_next p s) + fst ?nb = all_received s + fst (count_bytes ?nb e)"
      unfolding all_received_def trans hook_keys [OF port]
      by (simp add: sum.remove [OF fin mem] call(3))
    moreover have "received (tp_metrics ?t) = all_received s" using inv by (simp add: supervision_inv_def)
    ultimately show ?thesis using hook_bytes [OF base, of e p] by simp
  qed
  ultimately show ?thesis
    using inv by (simp add: supervision_inv_def trans hook_keys [OF port])
qed (use inv in simp)

lemma own_step_heard:
  assumes "port_heard conf s p"
  shows "port_heard conf (s\<lparr>sn_port := (sn_port s)(p := port_step (conf p) e (sn_port s p))\<rparr>) p"
    "heard_calls (s\<lparr>sn_port := (sn_port s)(p := port_step (conf p) e (sn_port s p))\<rparr>) q = heard_calls s q"
proof -
  let ?s = "s\<lparr>sn_port := (sn_port s)(p := port_step (conf p) e (sn_port s p))\<rparr>"
  have "prefix (port_calls s p) (port_calls ?s p)" by (simp add: port_calls_def prefix_port)
  then have long: "sn_heard s p \<le> length (port_calls ?s p)" and same: "heard_calls ?s p = heard_calls s p"
    using assms by (auto simp: port_heard_def heard_calls_def prefix_def)
  show "heard_calls ?s q = heard_calls s q"
    using same by (cases "q = p") (auto simp: heard_calls_def port_calls_def)
  show "port_heard conf ?s p"
    using assms long same by (auto simp: port_heard_def intro: port_reach.event)
qed

lemma stop_begins_calls: "port_calls (supervision_step conf StopBegins s) p = port_calls s p"
  by (simp add: port_calls_def enqueue_def)

lemma supervision_step_inv:
  assumes inv: "supervision_inv conf ports s"
  shows "supervision_inv conf ports (supervision_step conf ev s)"
proof (cases ev)
  case (PortDoes p e)
  have heard: "port_heard conf s q" for q using inv by (simp add: supervision_inv_def)
  let ?s = "s\<lparr>sn_port := (sn_port s)(p := port_step (conf p) e (sn_port s p))\<rparr>"
  note own = own_step_heard [OF heard, of p e]
  have "port_heard conf ?s q" for q
  proof (cases "q = p")
    case False
    then have "sn_port ?s q = sn_port s q" "port_calls ?s q = port_calls s q" by (simp_all add: port_calls_def)
    then show ?thesis using heard [of q] own(2) [of q] by (simp add: port_heard_def del: fun_upd_apply)
  qed (use own(1) in simp)
  moreover have "all_received ?s = all_received s" by (simp add: all_received_def own(2))
  ultimately show ?thesis using inv by (auto simp: PortDoes supervision_inv_def)
next
  case StopBegins
  let ?s = "supervision_step conf StopBegins s"
  have same: "heard_calls ?s q = heard_calls s q" for q
    using stop_begins_calls [of conf s q] by (simp add: heard_calls_def)
  have "port_heard conf ?s q" for q
    using inv same [of q] stop_begins_calls [of conf s q]
      port_reach.event [of "conf q" "sn_port s q" CallStop]
    by (auto simp: supervision_inv_def port_heard_def setServing_def)
  moreover have "all_received ?s = all_received s" unfolding all_received_def same by (simp add: setServing_def)
  ultimately show ?thesis using inv by (simp add: StopBegins supervision_inv_def setServing_def)
qed (use inv hear_next_inv in auto)


section \<open>Properties\<close>

text \<open>What a start of the transport leaves: a supervisor per keyed port, and nothing reported but that it
  does not serve yet.\<close>

lemma started_transport:
  assumes "transport_start sha256_hex provider ssm settings now new_transport w = (started, t, w')"
  shows "started \<Longrightarrow> js_map_ok (tp_states t) \<and> tp_states t \<noteq> [] \<and> list_all (\<lambda>(p, x). x = Idle) (tp_states t) \<and>
      tp_ever_ready t = [] \<and> tp_last_bytes t = [] \<and> tp_metrics t = [SetServing False]"
    and "\<not> started \<Longrightarrow> tp_states t = []"
proof -
  obtain r keys w2 where l: "loadPorts sha256_hex ssm (ts_prefix settings) (ports_of (ts_range settings)) []
      (snd (snd (HelperCredentials_get provider now None w))) = (r, keys, w2)"
    by (metis prod_cases3)
  have "js_map_ok keys" using loadPorts_map_ok [of "[]"] l by (metis fst_conv js_map_ok_Nil snd_conv)
  then have "distinct (keyedPorts keys)" using keyedPorts_keys by blast
  then show "started \<Longrightarrow> js_map_ok (tp_states t) \<and> tp_states t \<noteq> [] \<and> list_all (\<lambda>(p, x). x = Idle) (tp_states t) \<and>
      tp_ever_ready t = [] \<and> tp_last_bytes t = [] \<and> tp_metrics t = [SetServing False]"
    and "\<not> started \<Longrightarrow> tp_states t = []"
    using assms l
    by (auto simp: transport_start_def new_transport_def recomputeServing_def setServing_def should_serve_def
        transport_stop_def js_map_ok_def js_keys_def comp_def list_all_iff Let_def
        split: prod.splits option.splits sum.splits if_splits)
qed

lemma begin_supervision_inv:
  assumes "js_map_ok (tp_states t)" "tp_states t \<noteq> []" "list_all (\<lambda>(p, x). x = Idle) (tp_states t)"
    "tp_ever_ready t = []" "tp_last_bytes t = []" "tp_metrics t = [SetServing False]"
  shows "supervision_inv conf (js_keys (tp_states t)) (begin_supervision conf t)"
proof -
  have "map_of (tp_states t) p = Some Idle" if "js_has (tp_states t) p" for p
    using assms(3) that by (fastforce simp: js_has_def list_all_iff dest: map_of_SomeD)
  moreover have "port_reach (conf p) (port_step (conf p) CallStart (new_port (conf p)))" for p
    by (intro port_reach.intros)
  ultimately show ?thesis
    using assms
    by (auto simp: supervision_inv_def begin_supervision_def port_heard_def heard_calls_def heard_state_def
        all_received_def js_map_ok_def js_keys_def simp del: port_step.simps)
qed

lemma supervision_run_inv:
  assumes "supervision_inv conf ports s"
  shows "supervision_inv conf ports (fold (supervision_step conf) events s)"
  using assms by (induction events arbitrary: s) (simp_all add: supervision_step_inv del: supervision_step.simps)

text \<open>\<open>stop\<close> publishes that SRTP does not serve before it waits for the supervisors; from then until the next
  transition of a port is heard, that is what is reported, whatever is true.\<close>

fun is_move :: "effect \<Rightarrow> bool" where
  "is_move (Moved f to held) = True"
| "is_move e = False"

definition move_heard :: "int \<Rightarrow> supervision \<Rightarrow> bool" where
  "move_heard p s \<longleftrightarrow> js_has (tp_states (sn_transport s)) p \<and> sn_heard s p < length (port_calls s p) \<and>
     is_move (port_calls s p ! sn_heard s p)"

fun silenced_after :: "supervision_event \<Rightarrow> supervision \<Rightarrow> bool \<Rightarrow> bool" where
  "silenced_after (PortDoes p e) s b = b"
| "silenced_after (HookRuns p) s b = (b \<and> \<not> move_heard p s)"
| "silenced_after StopBegins s b = True"

fun silenced :: "(int \<Rightarrow> config) \<Rightarrow> supervision_event list \<Rightarrow> supervision \<Rightarrow> bool \<Rightarrow> bool" where
  "silenced conf [] s b = b"
| "silenced conf (ev # events) s b =
     silenced conf events (supervision_step conf ev s) (silenced_after ev s b)"

lemma silenced_no_stop: "StopBegins \<notin> set events \<Longrightarrow> silenced conf events s False = False"
proof (induction events arbitrary: s)
  case (Cons ev events)
  then show ?case by (cases ev) auto
qed simp

lemma hook_silent: "\<not> is_move e \<Longrightarrow> serving b (tp_metrics (supervisor_hook p e t)) = serving b (tp_metrics t)"
  by (cases e) (auto simp: onStats_def Let_def)

lemma hook_move:
  "js_has (tp_states t) p \<Longrightarrow> is_move e \<Longrightarrow>
    serving b (tp_metrics (supervisor_hook p e t)) = Some (should_serve (supervisor_hook p e t))"
  by (cases e) (simp_all add: onTransition_serving)

lemma step_serving:
  assumes "serving b (tp_metrics (sn_transport s)) = Some (\<not> q \<and> should_serve (sn_transport s))"
  shows "serving b (tp_metrics (sn_transport (supervision_step conf ev s))) =
    Some (\<not> silenced_after ev s q \<and> should_serve (sn_transport (supervision_step conf ev s)))"
proof (cases ev)
  case (HookRuns p)
  show ?thesis
  proof (cases "js_has (tp_states (sn_transport s)) p \<and> sn_heard s p < length (port_calls s p)")
    case True
    let ?e = "port_calls s p ! sn_heard s p"
    have t: "sn_transport (supervision_step conf ev s) = supervisor_hook p ?e (sn_transport s)"
      using True by (simp add: HookRuns hear_next_def Let_def)
    show ?thesis
    proof (cases "is_move ?e \<or> \<not> q")
      case True
      then show ?thesis
        using assms \<open>js_has _ p \<and> _\<close> hook_move [of "sn_transport s" p ?e b] hook_serving [of "sn_transport s" p b ?e]
        unfolding t by (auto simp: HookRuns move_heard_def)
    next
      case False
      then show ?thesis
        using assms hook_silent [of ?e b p "sn_transport s"] unfolding t by (simp add: HookRuns move_heard_def)
    qed
  next
    case False
    then show ?thesis using assms by (auto simp: HookRuns hear_next_def move_heard_def Let_def)
  qed
qed (use assms in \<open>simp_all add: setServing_def\<close>)

lemma run_serving:
  assumes "serving b (tp_metrics (sn_transport s)) = Some (\<not> q \<and> should_serve (sn_transport s))"
  shows "serving b (tp_metrics (sn_transport (fold (supervision_step conf) events s))) =
    Some (\<not> silenced conf events s q \<and> should_serve (sn_transport (fold (supervision_step conf) events s)))"
  using assms
proof (induction events arbitrary: s q)
  case (Cons ev events)
  show ?case using Cons.IH [OF step_serving [OF Cons.prems], of conf ev] by simp
qed simp

lemma heard_all:
  assumes "supervision_inv conf ports s" and "sn_heard s p = length (port_calls s p)"
  shows "heard_state (heard_calls s p) = st (sys_sup (sn_port s p))"
proof -
  have "tracks (sys_sup (sn_port s p))"
    using assms(1) by (auto simp: supervision_inv_def port_heard_def intro: tracks_port)
  then show ?thesis using assms(2) by (simp add: tracks_def heard_state_def heard_calls_def port_calls_def)
qed

lemma started_run_inv:
  assumes "transport_start sha256_hex provider ssm settings now new_transport w = (True, t, w')"
  shows "supervision_inv conf (js_keys (tp_states t)) (supervision_run conf t events)"
  unfolding supervision_run_def
  by (intro supervision_run_inv begin_supervision_inv) (use started_transport(1) [OF assms] in simp_all)

text \<open>C24. The transport reports what its supervisors did. However the steps of the ports and their hooks
  interleave, once a start has succeeded: the state the transport knows of a port whose hooks have
  all run is the supervisor's; SRTP is reported as serving exactly if some port has had a
  ready helper and not every port has given up for good - except that a stop of the transport
  reports it as not serving until the next transition of a port is heard, which reports what is true again; and what is
  recorded as received is what the differences of each helper's successive counts add up to, a count
  that has fallen being taken for a new one - that is, if each helper's count only rises, the sum over
  the ports of what their helpers' counts ended with. A start that fails leaves no supervisor.\<close>

theorem transport_reports_truly:
  "(case transport_start sha256_hex provider ssm settings now new_transport w of
      (started, t, w') \<Rightarrow>
        (let s = supervision_run conf t events; ports = js_keys (tp_states t);
             reported = tp_metrics (sn_transport s);
             serves = (list_ex (\<lambda>p. list_ex enters_search (heard_calls s p)) ports \<and>
               \<not> list_all (\<lambda>p. heard_state (heard_calls s p) = Disabled) ports);
             during_stop = silenced conf events (begin_supervision conf t) False
         in started = (ports \<noteq> []) \<and>
            (if \<not> started then True
             else
               list_all (\<lambda>p. if sn_heard s p = length (port_calls s p)
                             then heard_state (heard_calls s p) = st (sys_sup (sn_port s p)) else True) ports \<and>
               serving None reported = Some (\<not> during_stop \<and> serves) \<and>
               (if StopBegins \<in> set events then True else \<not> during_stop) \<and>
               received reported = (\<Sum>p\<in>set ports. fst (foldl count_bytes (0, 0) (heard_calls s p))) \<and>
               (if list_all (\<lambda>p. rising 0 (byte_events (heard_calls s p))) ports
                then received reported = (\<Sum>p\<in>set ports. final_counts 0 (byte_events (heard_calls s p)))
                else True))))"
proof -
  obtain started t w' where r: "transport_start sha256_hex provider ssm settings now new_transport w = (started, t, w')"
    by (metis prod_cases3)
  show ?thesis
  proof (cases started)
    case False
    then show ?thesis using started_transport(2) [OF r] by (simp add: r js_keys_def Let_def)
  next
    case True
    let ?s = "supervision_run conf t events" and ?ports = "js_keys (tp_states t)"
    note start = started_transport(1) [OF r True]
    have inv: "supervision_inv conf ?ports ?s" by (rule started_run_inv) (use r True in simp)
    have ports: "js_keys (tp_states (sn_transport ?s)) = ?ports" using inv by (simp add: supervision_inv_def)
    have "serving None (tp_metrics (sn_transport ?s)) =
        Some (\<not> silenced conf events (begin_supervision conf t) False \<and> served ?s)"
      unfolding served_iff [OF inv] unfolding supervision_run_def using start
      by (intro run_serving) (auto simp: begin_supervision_def should_serve_def)
    moreover have received: "received (tp_metrics (sn_transport ?s)) =
        (\<Sum>p\<in>set ?ports. fst (foldl count_bytes (0, 0) (heard_calls ?s p)))"
      using inv by (simp add: supervision_inv_def all_received_def)
    moreover have "received (tp_metrics (sn_transport ?s)) =
        (\<Sum>p\<in>set ?ports. final_counts 0 (byte_events (heard_calls ?s p)))"
      if "list_all (\<lambda>p. rising 0 (byte_events (heard_calls ?s p))) ?ports"
      unfolding received using that count_rising [of "(0, 0)"] by (intro sum.cong) (auto simp: list_all_iff)
    moreover have "?ports \<noteq> []" using inv by (simp add: supervision_inv_def)
    ultimately show ?thesis
      using True heard_all [OF inv] by (simp add: r Let_def served_def ports list_all_iff silenced_no_stop)
  qed
qed

section \<open>The stop of the supervisors is the stop of the transport\<close>

fun quiet :: "effect \<Rightarrow> bool" where
  "quiet (Moved f to held) = False"
| "quiet (SawStats b a) = False"
| "quiet e = True"

definition quietly :: "sup \<Rightarrow> sup \<Rightarrow> bool" where
  "quietly s t \<longleftrightarrow> (\<exists>es. calls t = calls s @ es \<and> list_all quiet es) \<and> st t = st s"

lemma quietly_refl: "quietly s s"
  by (auto simp: quietly_def)

lemma quietly_emit [tracking]: "quietly s t \<Longrightarrow> quiet e \<Longrightarrow> quietly s (emit e t)"
  by (auto simp: quietly_def emit_def)

lemma quietly_write [tracking]: "quietly s t \<Longrightarrow> quietly s (writeCommand c m t)"
  by (auto simp: writeCommand_def intro: quietly_emit split: option.split)

lemma quietly_fields [simp]:
  "quietly s (t\<lparr>lockHeld := b\<rparr>) = quietly s t" "quietly s (t\<lparr>helper := h\<rparr>) = quietly s t"
  "quietly s (t\<lparr>ticking := b\<rparr>) = quietly s t"
  by (simp_all add: quietly_def)

lemma quietly_release [tracking]: "quietly s t \<Longrightarrow> quietly s (releaseLock c t)"
  by (auto simp: releaseLock_def Let_def intro: quietly_emit)

lemma shutdown_quietly:
  assumes "\<And>h. raiseIndexFloor c h" and "quietly s t" and "st t \<noteq> Terminated"
  shows "\<exists>u. quietly s u \<and> shutdown c t = transition Terminated u"
proof -
  have helper: "fst (shutdownHelper c h v)" "quietly s (snd (shutdownHelper c h v))" if "quietly s v" for h v
    using that quietly_write [OF that] assms(1)
    by (auto simp: shutdownHelper_def awaitStopAck_def raiseFloor_def Let_def
        intro!: tracking split: ack.splits option.splits prod.splits)
  let ?t = "t\<lparr>ticking := False\<rparr>"
  have t: "quietly s ?t" using assms(2) by simp
  obtain v where v: "quietly s v" "shutdown c t = transition Terminated (if lockHeld v then releaseLock c v else v)"
  proof (cases "helper ?t")
    case None
    then show ?thesis using that [OF t] assms(3) by (simp add: shutdown_def Let_def)
  next
    case (Some h)
    show ?thesis
    proof (cases "childExited c h (calls ?t)")
      case True
      then show ?thesis
        using that [of "emit (SawExited h) ?t"] quietly_emit [OF t] Some assms(3) by (simp add: shutdown_def Let_def)
    next
      case False
      obtain ok v where v: "shutdownHelper c h ?t = (ok, v)" by fastforce
      with helper [OF t, of h] have "ok" "quietly s v" by simp_all
      with v False show ?thesis
        using that [of v] Some assms(3) by (simp add: shutdown_def Let_def)
    qed
  qed
  from v(1) have "quietly s (if lockHeld v then releaseLock c v else v)" by (simp add: quietly_release)
  with v(2) show ?thesis by blast
qed

lemma stop_step_calls:
  assumes "\<And>h. raiseIndexFloor c h"
  shows "\<exists>es. list_all quiet es \<and>
    calls (run_step c StopStep s) = calls s @ es @
      (if st s = Terminated then [] else [Moved (st s) Terminated (lockHeld (run_step c StopStep s))])"
proof (cases "st s = Terminated")
  case True
  then show ?thesis by (intro exI [of _ "[OtherStep]"]) (simp add: shutdown_def emit_def)
next
  case False
  have "quietly s (emit OtherStep s)" by (simp add: quietly_emit quietly_refl)
  from shutdown_quietly [OF assms this] False obtain u where
    "quietly s u" "shutdown c (emit OtherStep s) = transition Terminated u" by (auto simp: emit_def)
  then show ?thesis using False by (auto simp: quietly_def transition_def emit_def)
qed

lemma quiet_hooks: "list_all quiet es \<Longrightarrow> fold (supervisor_hook p) es t = t"
proof (induction es arbitrary: t)
  case (Cons e es)
  then show ?case by (cases e) simp_all
qed simp

definition hear_all :: "int \<Rightarrow> supervision \<Rightarrow> supervision" where
  "hear_all p s = (hear_next p ^^ (length (port_calls s p) - sn_heard s p)) s"

lemma hear_next_fields [simp]:
  "sn_port (hear_next p s) = sn_port s" "port_calls (hear_next p s) = port_calls s"
  by (auto simp: hear_next_def Let_def port_calls_def fun_eq_iff)

lemma hear_many:
  "sn_heard s p + k \<le> length (port_calls s p) \<Longrightarrow>
    (hear_next p ^^ k) s =
      s\<lparr>sn_transport := fold (supervisor_hook p) (take k (drop (sn_heard s p) (port_calls s p))) (sn_transport s),
        sn_heard := (sn_heard s)(p := sn_heard s p + k)\<rparr>"
proof (induction k arbitrary: s)
  case (Suc k)
  let ?s = "hear_next p s"
  have step: "?s = s\<lparr>sn_transport := supervisor_hook p (port_calls s p ! sn_heard s p) (sn_transport s),
      sn_heard := (sn_heard s)(p := Suc (sn_heard s p))\<rparr>"
    using Suc.prems by (simp add: hear_next_def Let_def)
  have "take (Suc k) (drop (sn_heard s p) (port_calls s p)) =
      port_calls s p ! sn_heard s p # take k (drop (Suc (sn_heard s p)) (port_calls s p))"
    using Suc.prems by (simp add: Cons_nth_drop_Suc [symmetric])
  moreover have "(hear_next p ^^ k) ?s =
      ?s\<lparr>sn_transport := fold (supervisor_hook p) (take k (drop (sn_heard ?s p) (port_calls ?s p))) (sn_transport ?s),
        sn_heard := (sn_heard ?s)(p := sn_heard ?s p + k)\<rparr>"
    by (rule Suc.IH) (use Suc.prems in \<open>simp add: step port_calls_def\<close>)
  ultimately show ?case by (simp add: funpow_swap1 funpow_Suc_right step port_calls_def fun_upd_def cong: if_cong del: funpow.simps)
qed simp

lemma hear_all_hooks:
  assumes "port_calls s p = hist @ es" "sn_heard s p = length hist"
  shows "hear_all p s = s\<lparr>sn_transport := fold (supervisor_hook p) es (sn_transport s),
    sn_heard := (sn_heard s)(p := length (port_calls s p))\<rparr>"
  unfolding hear_all_def by (subst hear_many) (use assms in simp_all)

definition port_stops :: "(int \<Rightarrow> config) \<Rightarrow> int \<Rightarrow> supervision \<Rightarrow> supervision" where
  "port_stops conf p s = hear_all p (supervision_step conf (PortDoes p RunNext) s)"

definition awaits_stop :: "supervision \<Rightarrow> int \<Rightarrow> bool" where
  "awaits_stop s p \<longleftrightarrow>
     sys_queue (sn_port s p) = [StopStep] \<and> sn_heard s p = length (port_calls s p) \<and>
     map_of (tp_states (sn_transport s)) p = Some (st (sys_sup (sn_port s p)))"

lemma port_stops_one:
  assumes "\<And>h. raiseIndexFloor (conf p) h" and wait: "awaits_stop s p"
  shows "sn_transport (port_stops conf p s) =
      (if map_of (tp_states (sn_transport s)) p = Some Terminated then sn_transport s
       else onTransition p Terminated (sn_transport s))"
    and "q \<noteq> p \<Longrightarrow> awaits_stop (port_stops conf p s) q = awaits_stop s q"
proof -
  let ?sup = "sys_sup (sn_port s p)" and ?s = "supervision_step conf (PortDoes p RunNext) s"
  let ?last = "if st ?sup = Terminated then []
    else [Moved (st ?sup) Terminated (lockHeld (run_step (conf p) StopStep ?sup))]"
  obtain es where es: "list_all quiet es" "calls (run_step (conf p) StopStep ?sup) = calls ?sup @ es @ ?last"
    using stop_step_calls [OF assms(1)] by blast
  have has: "js_has (tp_states (sn_transport s)) p" using wait by (simp add: awaits_stop_def js_has_def)
  have step: "?s = s\<lparr>sn_port := (sn_port s)(p := (sn_port s p)\<lparr>sys_queue := [], sys_sup := run_step (conf p) StopStep ?sup\<rparr>)\<rparr>"
    using wait has by (simp add: awaits_stop_def del: run_step.simps)
  have "port_calls ?s p = port_calls s p @ es @ ?last" 
    unfolding step by (simp add: port_calls_def es(2) del: run_step.simps)
  then have all: "port_stops conf p s = ?s\<lparr>sn_transport := fold (supervisor_hook p) (es @ ?last) (sn_transport ?s),
      sn_heard := (sn_heard ?s)(p := length (port_calls ?s p))\<rparr>"
    unfolding port_stops_def
    by (rule hear_all_hooks) (use wait in \<open>simp add: step awaits_stop_def del: run_step.simps\<close>)
  show trans: "sn_transport (port_stops conf p s) =
      (if map_of (tp_states (sn_transport s)) p = Some Terminated then sn_transport s
       else onTransition p Terminated (sn_transport s))"
    using wait by (simp add: all step quiet_hooks [OF es(1)] awaits_stop_def del: run_step.simps)
  have "map_of (tp_states (sn_transport (port_stops conf p s))) q = map_of (tp_states (sn_transport s)) q" if "q \<noteq> p"
    using that by (simp add: trans hook_defs Let_def)
  then show "q \<noteq> p \<Longrightarrow> awaits_stop (port_stops conf p s) q = awaits_stop s q"
    by (simp add: awaits_stop_def) (simp add: all step port_calls_def del: run_step.simps)
qed

lemma ports_stop:
  assumes "\<And>p h. raiseIndexFloor (conf p) h" and "distinct ps" and "list_all (awaits_stop s) ps"
  shows "sn_transport (fold (port_stops conf) ps s) =
    fold (\<lambda>p. onTransition p Terminated)
      (List.filter (\<lambda>p. map_of (tp_states (sn_transport s)) p \<noteq> Some Terminated) ps) (sn_transport s)"
  using assms(2,3)
proof (induction ps arbitrary: s)
  case (Cons p ps)
  let ?s = "port_stops conf p s"
  have wait: "awaits_stop s p" using Cons.prems by simp
  note one = port_stops_one [of conf p s, OF assms(1) wait]
  have "x \<noteq> p" if "x \<in> set ps" for x using Cons.prems(1) that by auto
  then have "list_all (awaits_stop ?s) ps" using Cons.prems(2) one(2) by (simp add: list_all_iff)
  moreover have "List.filter (\<lambda>p. map_of (tp_states (sn_transport ?s)) p \<noteq> Some Terminated) ps =
      List.filter (\<lambda>p. map_of (tp_states (sn_transport s)) p \<noteq> Some Terminated) ps"
    using Cons.prems by (intro filter_cong) (auto simp: one(1) hook_defs Let_def)
  ultimately show ?case using Cons by (simp add: one(1))
qed simp

text \<open>\<open>port_stops\<close> is the stop of one supervisor: its step, and all hooks that it runs. From a run at
  rest - nothing queued, every hook run - and if no raise of a floor throws, the stops of all
  supervisors leave the transport as \<open>stop_ports\<close> says, which is what \<open>transport_stop\<close> is made of.\<close>

theorem stop_refines:
  "(case transport_start sha256_hex provider ssm settings now new_transport w of
      (started, t, w') \<Rightarrow>
        (let s = supervision_run conf t events; ports = js_keys (tp_states t) in
         if started \<and> (\<forall>p h. raiseIndexFloor (conf p) h) \<and>
            list_all (\<lambda>p. sys_queue (sn_port s p) = [] \<and> sn_heard s p = length (port_calls s p)) ports
         then sn_transport (fold (port_stops conf) ports (supervision_step conf StopBegins s)) =
           stop_ports (setServing False (sn_transport s))
         else True))"
proof -
  obtain started t w' where start: "transport_start sha256_hex provider ssm settings now new_transport w = (started, t, w')"
    by (metis prod_cases3)
  define s where "s = supervision_run conf t events"
  let ?ports = "js_keys (tp_states t)" and ?s = "supervision_step conf StopBegins s"
  have "sn_transport (fold (port_stops conf) ?ports ?s) = stop_ports (setServing False (sn_transport s))"
    if started: started and r: "\<forall>p h. raiseIndexFloor (conf p) h"
      and rest: "list_all (\<lambda>p. sys_queue (sn_port s p) = [] \<and> sn_heard s p = length (port_calls s p)) ?ports"
  proof -
    have inv: "supervision_inv conf ?ports s" unfolding s_def by (rule started_run_inv) (use start started in simp)
    then have keys: "js_keys (tp_states (sn_transport s)) = ?ports" by (simp add: supervision_inv_def)
    then have ports: "?ports = map fst (tp_states (sn_transport s))" by (simp add: js_keys_def)
    have distinct: "distinct (map fst (tp_states (sn_transport s)))" using inv ports by (simp add: supervision_inv_def)
    have "awaits_stop ?s p" if p: "p \<in> set ?ports" for p
    proof -
      have at_rest: "sys_queue (sn_port s p) = []" "sn_heard s p = length (port_calls s p)"
        using rest p by (simp_all add: list_all_iff)
      have "map_of (tp_states (sn_transport s)) p = Some (st (sys_sup (sn_port s p)))"
        using inv p heard_all [OF inv at_rest(2)] by (simp add: supervision_inv_def port_heard_def js_has_iff split: if_splits)
      then show ?thesis
        using p at_rest stop_begins_calls [of conf s p]
        by (simp add: awaits_stop_def js_has_iff keys enqueue_def setServing_def port_calls_def)
    qed
    then have "list_all (awaits_stop ?s) ?ports" by (simp add: list_all_iff)
    moreover have "distinct ?ports" using inv by (simp add: supervision_inv_def)
    moreover note ports_stop [of conf ?ports ?s]
    ultimately
    have "sn_transport (fold (port_stops conf) ?ports ?s) = fold (\<lambda>p. onTransition p Terminated)
        (List.filter (\<lambda>p. map_of (tp_states (sn_transport s)) p \<noteq> Some Terminated) ?ports) (setServing False (sn_transport s))"
      using r by (simp add: setServing_def)
    moreover have "List.filter (\<lambda>p. map_of (tp_states (sn_transport s)) p \<noteq> Some Terminated) ?ports =
        map fst (List.filter (\<lambda>(port, state). state \<noteq> Terminated) (tp_states (sn_transport s)))"
      unfolding ports using distinct by (auto simp: filter_map comp_def case_prod_beta intro!: arg_cong [where f = "map fst"] filter_cong
          dest: eq_key_imp_eq_value)
    ultimately show ?thesis by (simp add: stop_ports_def setServing_def)
  qed
  then show ?thesis by (simp add: start s_def [symmetric] Let_def)
qed

end
