(* ===== verification/Handover.thy ===== *)
theory Handover
imports Fleet
begin

text \<open>
  How long a lock is held, and how it passes on: the lease of \<open>backend/src/StreamMetadataService.ts\<close> over time,
  and the supervisor that asks for a lock another instance had
  (\<open>backend/src/SrtpPortSupervisor.ts\<close>). \<open>LockLease\<close> shows that two instances do not hold a lock at once;
  here, that one that is at work keeps it, and that one that is gone does not: the second is stated
  over the runs of \<open>Fleet\<close>, where the calls of a supervisor reach the table on their own.

  The locale \<open>answering_lock_service\<close> adds to \<open>lock_service\<close> what a client needs in order to get on: a free
  lock is granted, the owner's refresh is not refused, and the throttle remembers nothing but
  the writes that were answered. It is discharged for the requests of the code like the first.
\<close>

section \<open>An owner that writes in time\<close>

text \<open>What an owner must not do, and by when each next thing has to happen for its lease to last.\<close>

fun gives_up :: "js_string \<Rightarrow> lease_event \<Rightarrow> bool" where
  "gives_up i (Release j now) = (j = i)"
| "gives_up i e = False"

text \<open>The time by which an owner has to have written again: \<open>gap\<close> after its last refresh that was answered.\<close>

fun next_due :: "'db lock_ops \<Rightarrow> int \<Rightarrow> js_string \<Rightarrow> int \<Rightarrow> int \<Rightarrow> 'db lease_sys \<Rightarrow> lease_event \<Rightarrow> int" where
  "next_due ops p i gap due s (Refresh j now) =
     (if j = i \<and> fst (op_refresh ops p j now (nullish (map_of (ls_updates s) j) []) (ls_db s)) = WriteOk
      then now + gap else due)"
| "next_due ops p i gap due s e = due"

text \<open>The owner's calls may fail or be throttled in between; whatever others do is allowed. \<open>due_after\<close> is the
  time up to which the events of a run reach.\<close>

fun refreshes_in_time :: "'db lock_ops \<Rightarrow> int \<Rightarrow> js_string \<Rightarrow> int \<Rightarrow> int \<Rightarrow> 'db lease_sys \<Rightarrow> lease_event list \<Rightarrow> bool" where
  "refreshes_in_time ops p i gap due s [] = True"
| "refreshes_in_time ops p i gap due s (e # es) =
     (event_ok s e \<and> event_time e \<le> due \<and> \<not> gives_up i e \<and>
      refreshes_in_time ops p i gap (next_due ops p i gap due s e) (lease_step ops p e s) es)"

fun due_after :: "'db lock_ops \<Rightarrow> int \<Rightarrow> js_string \<Rightarrow> int \<Rightarrow> int \<Rightarrow> 'db lease_sys \<Rightarrow> lease_event list \<Rightarrow> int" where
  "due_after ops p i gap due s [] = due"
| "due_after ops p i gap due s (e # es) =
     due_after ops p i gap (next_due ops p i gap due s e) (lease_step ops p e s) es"

section \<open>A lock service that answers\<close>

locale answering_lock_service = lock_service ops lock_row row_ok
  for ops :: "'db lock_ops" and lock_row :: "'db \<Rightarrow> int \<Rightarrow> attr option \<times> attr option" and row_ok +
  assumes acquire_granted: "row_ok db p \<Longrightarrow> op_acquire ops p i now now' db = (r, db') \<Longrightarrow>
      fst (lock_row db p) = None \<or> fst (lock_row db p) = Some (S i) \<or>
        (\<exists>t. snd (lock_row db p) = Some (Iso t) \<and> t < now' - kinesis_lock_stale_ms) \<Longrightarrow> r \<noteq> Inr False"
    and refresh_kept: "row_ok db p \<Longrightarrow> op_refresh ops p i now updates db = (w, updates', db') \<Longrightarrow>
      fst (lock_row db p) = Some (S i) \<Longrightarrow> w \<noteq> LostLock"
    and refresh_throttle: "op_refresh ops p i now updates db = (w, updates', db') \<Longrightarrow>
      (if now - nullish (map_of updates p) 0 < update_throttle_ms
       then w = WriteOk \<and> updates' = updates
       else map_of updates' p = (if w = WriteOk then Some now else None))"
begin

lemma refresh_of_owner:
  assumes "row_ok db p" "op_refresh ops p i now updates db = (w, updates', db')" "fst (lock_row db p) = Some (S i)"
  shows "row_ok db' p \<and> w \<noteq> LostLock \<and>
    (lock_row db' p = lock_row db p \<and>
       (w = WriteOk \<longrightarrow> now - nullish (map_of updates p) 0 < update_throttle_ms) \<or>
     lock_row db' p = (Some (S i), Some (Iso now)))"
  using refresh_law [OF assms(1,2)] refresh_kept [OF assms] by auto

text \<open>What the throttle of an instance remembers is a write of its own: not newer than the row's lease while the
  row is its own.\<close>

definition last_write :: "int \<Rightarrow> js_string \<Rightarrow> 'db lease_sys \<Rightarrow> int option" where
  "last_write p i s = map_of (nullish (map_of (ls_updates s) i) []) p"

definition throttle_inv :: "int \<Rightarrow> 'db lease_sys \<Rightarrow> bool" where
  "throttle_inv p s \<longleftrightarrow> row_ok (ls_db s) p \<and>
     (\<forall>i x. last_write p i s = Some x \<longrightarrow> x \<le> ls_clock s \<and>
        (\<forall>u. lock_row (ls_db s) p = (Some (S i), Some (Iso u)) \<longrightarrow> x \<le> u))"

lemma lease_update_sel [simp]:
  "ls_db (lease_update i t s) = ls_db s" "ls_clock (lease_update i t s) = ls_clock s"
  "ls_updates (lease_update i t s) = ls_updates s" "last_write p j (lease_update i t s) = last_write p j s"
  by (auto simp: lease_update_def last_write_def)

lemma throttle_inv_step:
  assumes inv: "throttle_inv p s" and ok: "event_ok s e"
  shows "throttle_inv p (lease_step ops p e s)"
proof (cases e)
  case (Acquire i now now')
  obtain r db' where r: "op_acquire ops p i now now' (ls_db s) = (r, db')" by fastforce
  have "throttle_inv p (s\<lparr>ls_db := db', ls_clock := now'\<rparr>)"
    using acquire_law [OF _ r] inv ok by (fastforce simp: throttle_inv_def last_write_def Acquire)
  then show ?thesis
    by (auto simp: Acquire r Let_def throttle_inv_def split: sum.split bool.split)
next
  case (Release i now)
  obtain r db' where r: "op_release ops p i now (ls_db s) = (r, db')" by fastforce
  show ?thesis
    using release_law [OF _ r] inv ok by (fastforce simp: throttle_inv_def Release r last_write_def lease_update_def)
next
  case (Refresh i now)
  define updates where "updates = nullish (map_of (ls_updates s) i) []"
  obtain w updates' db' where r: "op_refresh ops p i now updates (ls_db s) = (w, updates', db')" by (rule prod_cases3)
  let ?s = "s\<lparr>ls_db := db', ls_clock := now, ls_updates := AList.update i updates' (ls_updates s)\<rparr>"
  have lw: "last_write p j ?s = (if j = i then map_of updates' p else last_write p j s)" for j
    by (simp add: last_write_def)
  have mine: "map_of updates p = last_write p i s" by (simp add: last_write_def updates_def)
  have row: "row_ok db' p" "lock_row db' p = lock_row (ls_db s) p \<or> lock_row db' p = (Some (S i), Some (Iso now))"
    using refresh_law [OF _ r] inv by (auto simp: throttle_inv_def)
  have "throttle_inv p ?s"
    unfolding throttle_inv_def
  proof (intro conjI allI impI)
    fix j x u
    assume x: "last_write p j ?s = Some x"
    have known: "last_write p j s = Some x \<or> j = i \<and> x = now \<and> lock_row db' p = (Some (S i), Some (Iso now))"
      using x refresh_throttle [OF r] refresh_law [OF _ r] inv
      by (auto simp: lw mine throttle_inv_def split: if_splits)
    have clock: "ls_clock s \<le> now" using ok by (simp add: Refresh)
    show "x \<le> ls_clock ?s" using known clock inv by (fastforce simp: throttle_inv_def)
    assume "lock_row (ls_db ?s) p = (Some (S j), Some (Iso u))"
    then show "x \<le> u" using known clock inv row(2) by (fastforce simp: throttle_inv_def)
  qed (use row in simp)
  then show ?thesis
    by (auto simp: Refresh updates_def [symmetric] r Let_def throttle_inv_def split: owned_write.split)
next
  case (Cleanup thr now)
  obtain b db' where r: "op_cleanup ops p thr now (ls_db s) = (b, db')" by fastforce
  show ?thesis
    using cleanup_law [OF _ r] inv ok by (fastforce simp: throttle_inv_def Cleanup r last_write_def)
next
  case (OnFloor op now)
  then show ?thesis
    using floor_law [of "ls_db s" p op] inv ok by (fastforce simp: throttle_inv_def last_write_def)
qed

lemma throttle_inv_reach:
  "lease_reach ops p db0 s \<Longrightarrow> row_ok db0 p \<Longrightarrow> throttle_inv p s"
  by (induction rule: lease_reach.induct) (auto simp: throttle_inv_step, simp add: throttle_inv_def last_write_def)

text \<open>An owner that writes in time keeps the row: \<open>due\<close> is the time by which it has refreshed again.\<close>

definition kept :: "int \<Rightarrow> js_string \<Rightarrow> int \<Rightarrow> int \<Rightarrow> 'db lease_sys \<Rightarrow> bool" where
  "kept p i gap due s \<longleftrightarrow> throttle_inv p s \<and> ls_clock s \<le> due \<and>
     (\<exists>u. lock_row (ls_db s) p = (Some (S i), Some (Iso u)) \<and> 0 \<le> u \<and> u \<le> ls_clock s \<and> due \<le> u + update_throttle_ms + gap)"

lemma kept_step:
  assumes kept: "kept p i gap due s" and ok: "event_ok s e" "event_time e \<le> due" "\<not> gives_up i e"
    and gap: "0 \<le> gap" "gap + update_throttle_ms \<le> kinesis_lock_stale_ms"
  shows "kept p i gap (next_due ops p i gap due s e) (lease_step ops p e s)"
proof -
  obtain u where u: "lock_row (ls_db s) p = (Some (S i), Some (Iso u))" "due \<le> u + update_throttle_ms + gap" "0 \<le> u" "u \<le> ls_clock s"
    and inv: "throttle_inv p s" and clock: "ls_clock s \<le> due"
    using kept by (auto simp: kept_def)
  have row: "row_ok (ls_db s) p" using inv by (simp add: throttle_inv_def)
  have step: "throttle_inv p (lease_step ops p e s)" by (rule throttle_inv_step [OF inv ok(1)])
  show ?thesis
  proof (cases e)
    case (Acquire j now now')
    obtain r db' where r: "op_acquire ops p j now now' (ls_db s) = (r, db')" by fastforce
    have "lock_row db' p = lock_row (ls_db s) p \<or> j = i \<and> lock_row db' p = (Some (S i), Some (Iso now))"
      using acquire_law [OF row r] u ok(2) gap by (auto simp: Acquire)
    moreover have "u \<le> now" using u ok by (simp add: Acquire)
    ultimately show ?thesis
      using step u ok clock
      by (auto simp: kept_def Acquire r Let_def split: sum.split bool.split)
  next
    case (Release j now)
    obtain r db' where r: "op_release ops p j now (ls_db s) = (r, db')" by fastforce
    show ?thesis
      using release_law [OF row r] step u ok by (auto simp: kept_def Release r)
  next
    case (Refresh j now)
    define updates where "updates = nullish (map_of (ls_updates s) j) []"
    obtain w updates' db' where r: "op_refresh ops p j now updates (ls_db s) = (w, updates', db')" by (rule prod_cases3)
    have res: "ls_db (lease_step ops p e s) = db'" "ls_clock (lease_step ops p e s) = now"
      by (simp_all add: Refresh updates_def [symmetric] r Let_def split: owned_write.split)
    show ?thesis
    proof (cases "j = i")
      case True
      have throttled: "now < u + update_throttle_ms" if "now - nullish (map_of updates p) 0 < update_throttle_ms"
      proof (cases "map_of updates p")
        case (Some x)
        then have "last_write p i s = Some x" using True by (simp add: last_write_def updates_def)
        then have "x \<le> u" using inv u(1) by (auto simp: throttle_inv_def)
        then show ?thesis using that Some by simp
      qed (use that u(3) in simp)
      have due: "next_due ops p i gap due s e = (if w = WriteOk then now + gap else due)"
        using r True by (simp add: Refresh updates_def)
      have time: "ls_clock s \<le> now" "now \<le> due" using ok by (simp_all add: Refresh)
      from refresh_of_owner [OF row r [unfolded True]] u(1) have
        "lock_row db' p = lock_row (ls_db s) p \<and> (w = WriteOk \<longrightarrow> now < u + update_throttle_ms) \<or>
          lock_row db' p = (Some (S i), Some (Iso now))" using throttled by auto
      then show ?thesis
        using step u time gap unfolding kept_def res due by (auto simp: update_throttle_ms_def)
    next
      case False
      then show ?thesis
        using refresh_law [OF row r] step u ok by (auto simp: kept_def res) (auto simp: Refresh)
    qed
  next
    case (Cleanup thr now)
    obtain b db' where r: "op_cleanup ops p thr now (ls_db s) = (b, db')" by fastforce
    show ?thesis
      using cleanup_law [OF row r] step u ok gap
      by (auto simp: kept_def Cleanup r inactivity_threshold_ms_def kinesis_lock_stale_ms_def)
  next
    case (OnFloor op now)
    then show ?thesis
      using floor_law [of "ls_db s" p op] row step u ok by (auto simp: kept_def)
  qed
qed

lemma kept_run:
  assumes "kept p i gap due s" "0 \<le> gap" "gap + update_throttle_ms \<le> kinesis_lock_stale_ms"
    and "refreshes_in_time ops p i gap due s events"
  shows "kept p i gap (due_after ops p i gap due s events) (fold (lease_step ops p) events s)"
  using assms
proof (induction events arbitrary: due s)
  case (Cons e events)
  then have "kept p i gap (next_due ops p i gap due s e) (lease_step ops p e s)"
    by (intro kept_step) simp_all
  with Cons show ?case by (simp del: lease_step.simps next_due.simps)
qed auto

text \<open>Nobody else is granted a row that is kept.\<close>

lemma kept_refuses:
  assumes "kept p i gap due s" "gap + update_throttle_ms \<le> kinesis_lock_stale_ms"
    and "j \<noteq> i" "now' \<le> due"
  shows "fst (op_acquire ops p j now now' (ls_db s)) \<noteq> Inr True"
proof -
  obtain r db' where r: "op_acquire ops p j now now' (ls_db s) = (r, db')" by fastforce
  show ?thesis
    using acquire_law [OF _ r] assms by (auto simp: r kept_def throttle_inv_def)
qed

lemma acquired_kept:
  assumes "lease_reach ops p db0 s" "row_ok db0 p" "event_ok s (Acquire i now now')" "0 \<le> now"
    and "fst (op_acquire ops p i now now' (ls_db s)) = Inr True" "now' \<le> now + gap"
  shows "kept p i gap (now + gap) (lease_step ops p (Acquire i now now') s)"
proof -
  obtain r db' where r: "op_acquire ops p i now now' (ls_db s) = (r, db')" by fastforce
  have inv: "throttle_inv p s" by (rule throttle_inv_reach [OF assms(1,2)])
  show ?thesis
    using throttle_inv_step [OF inv assms(3)] acquire_law [OF _ r] inv assms(3-6)
    by (auto simp: r kept_def throttle_inv_def Let_def update_throttle_ms_def)
qed

end

section \<open>The program's lock service answers\<close>

sublocale dynamo \<subseteq> answering: answering_lock_service "stream_locks send" "row_lock item_of" "row_keyed item_of"
proof unfold_locales
  fix p i now now' db r db'
  assume keyed: "row_keyed item_of db p" and r: "op_acquire (stream_locks send) p i now now' db = (r, db')"
    and free: "fst (row_lock item_of db p) = None \<or> fst (row_lock item_of db p) = Some (S i) \<or>
      (\<exists>t. snd (row_lock item_of db p) = Some (Iso t) \<and> t < now' - kinesis_lock_stale_ms)"
  have "may_acquire (item_of db p) i (now' - kinesis_lock_stale_ms)"
    using free by (simp add: may_acquire_keyed [OF keyed] row_lock_def)
  then show "r \<noteq> Inr False"
    using acquire_outcome [OF dynamo_axioms, of p i now now' db r db'] r by (auto simp: Let_def)
next
  fix p i now updates db w updates' db'
  assume "row_keyed item_of db p" and r: "op_refresh (stream_locks send) p i now updates db = (w, updates', db')"
    and own: "fst (row_lock item_of db p) = Some (S i)"
  then show "w \<noteq> LostLock"
    using refresh_outcome [OF dynamo_axioms, of p i now updates db w updates' db'] r
    by (auto simp: row_lock_def Let_def split: owned_write.splits)
next
  fix p i now updates db w updates' db'
  assume "op_refresh (stream_locks send) p i now updates db = (w, updates', db')"
  then show "if now - nullish (map_of updates p) 0 < update_throttle_ms then w = WriteOk \<and> updates' = updates
      else map_of updates' p = (if w = WriteOk then Some now else None)"
    using update_answer
    by (auto simp: updateLastPacketTime_def split: prod.splits response.splits if_splits)
qed

context dynamo
begin

lemma lease_row_keyed:
  "lease_reach (stream_locks send) p db0 s \<Longrightarrow> row_keyed item_of db0 p \<Longrightarrow> row_keyed item_of (ls_db s) p"
  using answering.throttle_inv_reach by (auto simp: answering.throttle_inv_def)

lemma owner_keeps_lock:
  assumes "lease_reach (stream_locks send) p db0 s" "row_keyed item_of db0 p" "event_ok s (Acquire i now now')"
    and "0 \<le> now" "fst (tryAcquireKinesisLock send p i now now' (ls_db s)) = Inr True" "now' \<le> now + gap"
    and gap: "gap + update_throttle_ms \<le> kinesis_lock_stale_ms"
    and "refreshes_in_time (stream_locks send) p i gap (now + gap)
      (lease_step (stream_locks send) p (Acquire i now now') s) events"
  defines "s1 \<equiv> lease_step (stream_locks send) p (Acquire i now now') s"
  defines "s2 \<equiv> fold (lease_step (stream_locks send) p) events s1"
    and "due \<equiv> due_after (stream_locks send) p i gap (now + gap) s1 events"
  shows "\<exists>u. row_lock item_of (ls_db s2) p = (Some (S i), Some (Iso u)) \<and> ls_clock s2 - u \<le> update_throttle_ms + gap"
    and "j \<noteq> i \<Longrightarrow> at' \<le> due \<Longrightarrow> fst (tryAcquireKinesisLock send p j at at' (ls_db s2)) \<noteq> Inr True"
proof -
  have "0 \<le> gap" using assms(3,6) by simp
  then have kept: "answering.kept p i gap due s2"
    unfolding s2_def due_def s1_def
    using assms by (intro answering.kept_run answering.acquired_kept) simp_all
  then show "\<exists>u. row_lock item_of (ls_db s2) p = (Some (S i), Some (Iso u)) \<and> ls_clock s2 - u \<le> update_throttle_ms + gap"
    by (auto simp: answering.kept_def)
  show "fst (tryAcquireKinesisLock send p j at at' (ls_db s2)) \<noteq> Inr True" if "j \<noteq> i" "at' \<le> due"
    using answering.kept_refuses [OF kept gap that] by simp
qed

end

section \<open>Properties\<close>

text \<open>C4. A producer that reports keeps its lock. If an instance was granted the lock and a refresh of it is
  answered at least every \<open>gap\<close>, where the gap and the throttle of 15 seconds are within the five
  minutes, then whatever the other instances, the cleanup and the floor writes do in between, and
  however many of its other refreshes fail: the row is its own, with a lease never older than the gap and
  the throttle together, and nobody else is granted the lock.\<close>

theorem producer_keeps_lock:
  assumes "dynamo send item_of" and "row_keyed item_of db0 p" and "lease_reach (stream_locks send) p db0 s"
    and "event_ok s (Acquire i now now')" "0 \<le> now" "now' \<le> now + gap"
    and "fst (tryAcquireKinesisLock send p i now now' (ls_db s)) = Inr True"
    and "gap + update_throttle_ms \<le> kinesis_lock_stale_ms"
    and "refreshes_in_time (stream_locks send) p i gap (now + gap)
      (lease_step (stream_locks send) p (Acquire i now now') s) events"
  shows "(let s1 = lease_step (stream_locks send) p (Acquire i now now') s;
              s2 = fold (lease_step (stream_locks send) p) events s1;
              due = due_after (stream_locks send) p i gap (now + gap) s1 events in
    (\<exists>u. row_lock item_of (ls_db s2) p = (Some (S i), Some (Iso u)) \<and>
       ls_clock s2 - u \<le> update_throttle_ms + gap) \<and>
    (\<forall>j at at'. j \<noteq> i \<longrightarrow> at' \<le> due \<longrightarrow>
       fst (tryAcquireKinesisLock send p j at at' (ls_db s2)) \<noteq> Inr True))"
  using dynamo.owner_keeps_lock [OF assms(1,3,2,4,5,7,6,8,9)] by (simp add: Let_def)

text \<open>The call a supervisor makes for the lock, where its report comes late enough, and what follows a grant.\<close>

lemma report_asks:
  assumes "st s = Acquiring" "helper s = Some h" "0 < authenticated"
    and "hist = calls s @ [HeardFrame h (Stats inputs inputBytes authenticated aus roc drops), SawStats inputBytes authenticated]"
    and "acquire_retry_ms (c_timeouts c) \<le> dateNow c hist - lastAcquireAttemptMs s"
  shows "prefix (hist @ [DidAcquire (tryAcquire c hist)])
      (calls (run_step c (FrameStep (Stats inputs inputBytes authenticated aus roc drops) h) s))"
    and "tryAcquire c hist = Inr True \<Longrightarrow>
      (let s' = run_step c (FrameStep (Stats inputs inputBytes authenticated aus roc drops) h) s in
        st s' = Producing \<and> lockHeld s' \<and>
        list_ex (\<lambda>e. case e of Wrote g (StartCommand v) line ok \<Rightarrow> g = h | _ \<Rightarrow> False) (calls s'))"
  using assms
  by (auto simp: handleFrame_def handleOwnFrame_def handleStats_def attemptAcquire_def transition_def emit_def
      writeCommand_def now_of_def Let_def split: sum.split bool.split)

text \<open>The calls of an instance only grow while the fleet runs on.\<close>

lemma fleet_calls_grow: "prefix (fleet_calls fl i) (fleet_calls (fold (fleet_step conf ops p) events fl) i)"
proof (induction events arbitrary: fl)
  case (Cons e events)
  have "prefix (fleet_calls fl i) (fleet_calls (fleet_step conf ops p e fl) i)"
    by (cases e) (simp_all add: fleet_calls_def prefix_port happens_def Let_def)
  from prefix_order.trans [OF this Cons.IH [of "fleet_step conf ops p e fl"]] show ?case by simp
qed simp

text \<open>A call that took place was answered by the table as the supervisor heard it.\<close>

lemma call_took_place:
  assumes "fl_done (fleet_step conf ops p (Happens i now now') fl) i = Suc (fl_done fl i)"
    and "prefix (hist @ [DidAcquire r]) (fleet_calls fl i)" and "fl_done fl i = length hist"
  shows "fst (op_acquire ops p i now now' (ls_db (fl_lease fl))) = r"
    and "fl_lease (fleet_step conf ops p (Happens i now now') fl) = lease_step ops p (Acquire i now now') (fl_lease fl)"
    and "fleet_calls fl i ! length hist = DidAcquire r"
proof -
  show call: "fleet_calls fl i ! length hist = DidAcquire r"
    using assms(2) by (auto simp: prefix_def)
  show "fst (op_acquire ops p i now now' (ls_db (fl_lease fl))) = r"
    "fl_lease (fleet_step conf ops p (Happens i now now') fl) = lease_step ops p (Acquire i now now') (fl_lease fl)"
    using assms(1,3) call by (auto simp: happens_def Let_def split: if_splits)
qed

text \<open>C5. The lock of an instance that is gone is taken over, in any run of a fleet. An instance waits for the lock
  that it was refused; its helper's next report of authenticated traffic that comes half a minute or more after
  it last asked - an earlier one changes nothing about that - makes it ask again. Whatever the fleet does until
  that call reaches the table: if by then the row has no owner, or its lease is older than five minutes, and the table
  answers, then the lock is
  granted; the supervisor produces, has told its helper to start, and the row is its own with a
  lease of the time it asked.\<close>

theorem stale_lock_taken_over:
  assumes "dynamo send item_of" and "row_keyed item_of db p"
    and "fl = fleet_run conf (stream_locks send) p t db earlier"
    and "sys_queue (fl_port fl i) = FrameStep (Stats inputs inputBytes authenticated aus roc drops) h # queue"
    and "waiter = sys_sup (fl_port fl i)" "st waiter = Acquiring" "helper waiter = Some h" "0 < authenticated"
    and "hist = fleet_calls fl i @ [HeardFrame h (Stats inputs inputBytes authenticated aus roc drops),
      SawStats inputBytes authenticated]"
    and "acquire_retry_ms (c_timeouts (conf i)) \<le> dateNow (conf i) hist - lastAcquireAttemptMs waiter"
    and "reported = fleet_step conf (stream_locks send) p (Runs i RunNext) fl"
    and "asked = fold (fleet_step conf (stream_locks send) p) between reported" and "fl_done asked i = length hist"
    and "landed = fleet_step conf (stream_locks send) p (Happens i now now') asked"
      "fl_done landed i = Suc (length hist)"
    and "owner_of (item_of (ls_db (fl_lease asked)) p) = None \<or>
      (\<exists>t. lease_of (item_of (ls_db (fl_lease asked)) p) = Some (Iso t) \<and> t < now' - kinesis_lock_stale_ms)"
    and "tryAcquireKinesisLock send p i now now' (ls_db (fl_lease asked)) = (Inr granted, db')"
  shows "(let s' = sys_sup (fl_port reported i) in
      st s' = Producing \<and> lockHeld s' \<and>
      list_ex (\<lambda>e. case e of Wrote g (StartCommand v) line ok \<Rightarrow> g = h | _ \<Rightarrow> False) (calls s')) \<and>
    fleet_calls landed i ! length hist = DidAcquire (Inr True) \<and>
    row_lock item_of (ls_db (fl_lease landed)) p = (Some (S i), Some (Iso now)) \<and>
    map_of (ls_lease (fl_lease landed)) i = Some now"
proof -
  let ?run = "run_step (conf i) (FrameStep (Stats inputs inputBytes authenticated aus roc drops) h) waiter"
  have step: "sys_sup (fl_port reported i) = ?run" using assms(4,5) by (simp add: assms(11) del: run_step.simps)
  have "prefix (hist @ [DidAcquire (tryAcquire (conf i) hist)]) (fleet_calls reported i)"
    unfolding fleet_calls_def step
    by (rule report_asks(1)) (use assms(5-10) in \<open>simp_all add: fleet_calls_def\<close>)
  from prefix_order.trans [OF this fleet_calls_grow]
  have grown: "prefix (hist @ [DidAcquire (tryAcquire (conf i) hist)]) (fleet_calls asked i)" by (simp add: assms(12))
  note call = call_took_place [OF _ grown assms(13), of conf "stream_locks send" p now now', folded assms(14)]
  have answer: "tryAcquire (conf i) hist = Inr granted"
    "fl_lease landed = lease_step (stream_locks send) p (Acquire i now now') (fl_lease asked)"
    "fleet_calls asked i ! length hist = DidAcquire (Inr granted)"
    using call assms(13,15,17) by simp_all
  have "asked = fleet_run conf (stream_locks send) p t db (earlier @ Runs i RunNext # between)"
    by (simp add: assms(3,11,12) fleet_run_def)
  then have "lease_reach (stream_locks send) p db (fl_lease asked)"
    using fleet_run_inv [of conf "stream_locks send" p db t "earlier @ Runs i RunNext # between"] by (simp add: fleet_inv_def)
  then have "row_keyed item_of (ls_db (fl_lease asked)) p"
    by (rule dynamo.lease_row_keyed [OF assms(1) _ assms(2)])
  then have "may_acquire (item_of (ls_db (fl_lease asked)) p) i (now' - kinesis_lock_stale_ms)"
    using assms(16) by (auto simp: may_acquire_keyed)
  with acquire_outcome [OF assms(1,17)]
  have granted: granted "row_lock item_of db' p = (Some (S i), Some (Iso now))"
    by (cases granted; simp add: row_lock_def Let_def)+
  have "ls_db (fl_lease landed) = db'" "map_of (ls_lease (fl_lease landed)) i = Some now"
    using assms(17) granted(1) by (simp_all add: answer(2) lease_update_def Let_def)
  moreover have "fleet_calls landed i = fleet_calls asked i"
    by (simp add: assms(14) fleet_calls_def happens_def Let_def)
  ultimately show ?thesis
    using report_asks(2) [of waiter h authenticated hist inputs inputBytes aus roc drops "conf i"] assms(5-10) answer granted
    by (simp add: step fleet_calls_def Let_def del: run_step.simps)
qed

text \<open>An owner that refreshes twice within 25 seconds, while the cleanup runs and another instance asks.\<close>

definition busy_owner :: "lease_event list" where
  "busy_owner =
     [Refresh (js ''a'') 1700000010000, Cleanup 1699999712000 1700000012000,
      Acquire (js ''b'') 1700000015000 1700000015000, Refresh (js ''a'') 1700000025000]"

definition idle_table :: "table lease_sys" where
  "idle_table = \<lparr>ls_db = free_table, ls_clock = 1699999999000, ls_lease = [], ls_updates = []\<rparr>"

lemma producer_keeps_lock_witness:
  "\<exists>u. row_lock table_item (ls_db (fold (lease_step (stream_locks table_send) 5000) busy_owner
      (lease_step (stream_locks table_send) 5000 (Acquire (js ''a'') 1700000000000 1700000000000) idle_table))) 5000 =
    (Some (S (js ''a'')), Some (Iso u))"
proof -
  note eval = idle_table_def tryAcquireKinesisLock_def cleanup_port_def updateLastPacketTime_def
      free_table_def table_item_def next_fault_def table_write_def table_skip_def row_simps
      may_acquire_def lease_update_def kinesis_lock_stale_ms_def acquire_actions_def refresh_actions_def updated_def
      key_item_def owner_of_def lease_of_def get_def js_Cons update_throttle_ms_def inactivity_threshold_ms_def
  have "refreshes_in_time (stream_locks table_send) 5000 (js ''a'') 20000 (1700000000000 + 20000)
      (lease_step (stream_locks table_send) 5000 (Acquire (js ''a'') 1700000000000 1700000000000) idle_table) busy_owner"
    by (simp add: busy_owner_def eval Let_def)
  moreover have "row_keyed table_item free_table 5000" by (simp add: row_keyed_def free_table_def table_item_def)
  moreover have "lease_reach (stream_locks table_send) 5000 free_table idle_table"
    unfolding idle_table_def by (rule lease_reach.init)
  moreover have "fst (tryAcquireKinesisLock table_send 5000 (js ''a'') 1700000000000 1700000000000 (ls_db idle_table)) = Inr True"
    by (simp add: eval Let_def)
  ultimately show ?thesis
    using producer_keeps_lock [OF dynamo_table, of free_table 5000 idle_table "js ''a''" 1700000000000 1700000000000 20000 busy_owner]
    by (auto simp: Let_def idle_table_def update_throttle_ms_def kinesis_lock_stale_ms_def)
qed

text \<open>The instance b asks while the lease of a is fresh, is refused and waits; when its helper reports again
  the lease has become stale.\<close>

definition waiting_config :: config where
  "waiting_config = fleet_config\<lparr>tryAcquire := \<lambda>hist. Inr (List.member hist (DidAcquire (Inr False))),
     dateNow := \<lambda>hist. (if List.member hist (DidAcquire (Inr False)) then 100000 else 1000 * int (length hist))\<rparr>"

definition stats_line :: js_string where
  "stats_line = json_text (JObj [(js ''t'', JStr (js ''stats'')), (js ''inputs'', JNum (JInt 9)),
     (js ''inputBytes'', JNum (JInt 900)), (js ''authenticated'', JNum (JInt 4))])"

lemma stats_frame: "push (stats_line @ [newline]) new_protocol = ([Stats 9 900 4 0 None 0], new_protocol)"
proof -
  let ?stats = "[(js ''t'', JStr (js ''stats'')), (js ''inputs'', JNum (JInt 9)), (js ''inputBytes'', JNum (JInt 900)),
    (js ''authenticated'', JNum (JInt 4))]"
  have "stringifiable (JObj ?stats)" by (simp add: code_units_def js_Cons is_safe_integer_def max_safe_integer_def)
  moreover have "parse_record u ?stats = Stats 9 900 4 0 None 0" for u
    by (simp add: parse_record_def parse_stats_def field_def field_defs int_within_def js_Cons max_safe_integer_def)
  moreover have "length stats_line \<le> 100" by (simp add: stats_line_def line_eval)
  ultimately show ?thesis
    using push_json [of ?stats] by (simp only: stats_line_def [symmetric]) (simp add: max_line_bytes_def)
qed

definition waiting_port :: port_system where
  "waiting_port = fold (port_step waiting_config) (sample_port_events @ [StdoutData 0 (stats_line @ [newline])])
     (new_port waiting_config)"

definition waiting_calls :: history where
  "waiting_calls = take 11 sample_calls @ [DidAcquire (Inr False)]"

lemma waiting_port_run:
  "calls (sys_sup waiting_port) = waiting_calls" "st (sys_sup waiting_port) = Acquiring" "helper (sys_sup waiting_port) = Some 0"
  "sys_queue waiting_port = [FrameStep (Stats 9 900 4 0 None 0) 0]" "lastAcquireAttemptMs (sys_sup waiting_port) = 10000"
  by (simp_all add: waiting_port_def waiting_calls_def waiting_config_def port_eval stats_frame default_timeouts_def
      del: serializeCommand_def)

definition waiting_events :: "fleet_event list" where
  "waiting_events = map (Runs (js ''b'')) (sample_port_events @ [StdoutData 0 (stats_line @ [newline])]) @
     replicate 12 (Happens (js ''b'') 1700000100000 1700000100000)"

definition waiting_fleet :: "table fleet" where
  "waiting_fleet = fleet_run (\<lambda>i. waiting_config) table_ops 5000 1700000000000 owned_table waiting_events"

lemma owned_table_row:
  "faults owned_table = []" "epoch_of (table_item owned_table 5000) = None" "get (table_item owned_table 5000) ''srtpIndex'' = None"
  "lease_of (table_item owned_table 5000) = Some (Iso 1700000000000)" "row_keyed table_item owned_table 5000"
  by (simp_all add: owned_table_def table_item_def epoch_of_def lease_of_def row_keyed_def get_def js_Cons)

lemma refused_step:
  "tryAcquireKinesisLock table_send 5000 (js ''b'') 1700000100000 1700000100000 owned_table = (Inr False, owned_table)"
  by (simp add: tryAcquireKinesisLock_def owned_table_def table_item_def next_fault_def table_skip_def row_simps
      may_acquire_def owner_of_def lease_of_def get_def num_def kinesis_lock_stale_ms_def js_Cons Let_def)

lemma waiting_fleet_run:
  "fl_port waiting_fleet (js ''b'') = waiting_port" "fl_done waiting_fleet (js ''b'') = 12"
  "fl_lease waiting_fleet = \<lparr>ls_db = owned_table, ls_clock = 1700000100000, ls_lease = [], ls_updates = []\<rparr>"
proof -
  let ?b = "js ''b''" and ?now = "1700000100000"
  define s where "s = \<lparr>ls_db = owned_table, ls_clock = 1700000000000, ls_lease = [] :: (js_string, int) js_map,
    ls_updates = [] :: (js_string, (int, int) js_map) js_map\<rparr>"
  define fl where "fl = (new_fleet (\<lambda>i. waiting_config) 1700000000000 owned_table)
    \<lparr>fl_port := ((\<lambda>i. new_port waiting_config)(?b := waiting_port))\<rparr>"
  have runs: "fold (fleet_step (\<lambda>i. waiting_config) table_ops 5000)
      (map (Runs ?b) (sample_port_events @ [StdoutData 0 (stats_line @ [newline])]))
      (new_fleet (\<lambda>i. waiting_config) 1700000000000 owned_table) = fl"
    unfolding runs_fold by (simp add: fl_def waiting_port_def new_fleet_def del: fold_append)
  note quiet = reads_quiet [where s = s and now = ?now] reads_quiet [where s = "s\<lparr>ls_clock := ?now\<rparr>" and now = ?now]
  have "answered table_ops 5000 ?b sample_key ?now s waiting_calls"
    "fold (perform table_ops 5000 ?b sample_key ?now) waiting_calls s = s\<lparr>ls_clock := ?now\<rparr>"
    using quiet owned_table_row refused_step
    by (simp_all add: waiting_calls_def sample_calls_def Let_def safe_int_def floor_of_def s_def)
      (simp_all add: perform_def)
  moreover have "fleet_calls fl ?b = [] @ waiting_calls @ []" "fl_done fl ?b = length ([] :: history)" "fl_lease fl = s"
    "c_key waiting_config = sample_key" "length waiting_calls = 12"
    using waiting_port_run(1)
    by (simp_all add: fl_def fleet_calls_def new_fleet_def s_def waiting_config_def fleet_config_def sample_config_def)
      (simp add: waiting_calls_def sample_calls_def Let_def)
  ultimately have eq: "waiting_fleet = fl\<lparr>fl_done := (fl_done fl)(?b := 12), fl_lease := s\<lparr>ls_clock := ?now\<rparr>\<rparr>"
    using calls_take_place [of fl ?b "[]" waiting_calls "[]" table_ops 5000 "\<lambda>i. waiting_config" ?now]
    by (simp add: waiting_fleet_def fleet_run_def waiting_events_def fold_append runs del: map_append)
  then show "fl_port waiting_fleet (js ''b'') = waiting_port" "fl_done waiting_fleet (js ''b'') = 12"
    "fl_lease waiting_fleet = \<lparr>ls_db = owned_table, ls_clock = 1700000100000, ls_lease = [], ls_updates = []\<rparr>"
    unfolding eq by (simp_all add: fl_def s_def)
qed

text \<open>Then b's helper reports, its call lands, and b produces with the lock that was a's.\<close>

definition taking_over :: "fleet_event list" where
  "taking_over = [Happens (js ''b'') 1700000100000 1700000100000, Happens (js ''b'') 1700000100000 1700000100000]"

lemma stale_lock_taken_over_witness:
  "(let fl = fold (fleet_step (\<lambda>i. waiting_config) table_ops 5000)
       (Runs (js ''b'') RunNext # taking_over @ [Happens (js ''b'') 1700000400000 1700000400000]) waiting_fleet
    in st (sys_sup (fl_port fl (js ''b''))) = Producing \<and>
       row_lock table_item (ls_db (fl_lease fl)) 5000 = (Some (S (js ''b'')), Some (Iso 1700000400000)))"
proof -
  let ?b = "js ''b''" and ?step = "fleet_step (\<lambda>i. waiting_config) table_ops 5000"
  define reported where "reported = ?step (Runs ?b RunNext) waiting_fleet"
  define asked where "asked = fold ?step taking_over reported"
  define landed where "landed = ?step (Happens ?b 1700000400000 1700000400000) asked"
  define hist where "hist = waiting_calls @ [HeardFrame 0 (Stats 9 900 4 0 None 0), SawStats 900 4]"
  have short: "length waiting_calls = 12" "List.member waiting_calls (DidAcquire (Inr False))"
    by (simp_all add: waiting_calls_def sample_calls_def Let_def)
  have calls: "fleet_calls waiting_fleet ?b = waiting_calls"
    by (simp add: fleet_calls_def waiting_fleet_run waiting_port_run)
  have "prefix (hist @ [DidAcquire (Inr True)]) (fleet_calls reported ?b)"
  proof -
    have "tryAcquire waiting_config hist = Inr True" using short(2) by (simp add: waiting_config_def hist_def)
    moreover have "prefix (hist @ [DidAcquire (tryAcquire waiting_config hist)])
        (calls (run_step waiting_config (FrameStep (Stats 9 900 4 0 None 0) 0) (sys_sup waiting_port)))"
      using short(2)
      by (intro report_asks(1)) (simp_all add: waiting_port_run hist_def, simp add: waiting_config_def fleet_config_def
          sample_config_def default_timeouts_def)
    ultimately show ?thesis
      by (simp add: reported_def fleet_calls_def waiting_fleet_run waiting_port_run(4) del: run_step.simps)
  qed
  then obtain post where post: "fleet_calls reported ?b =
      waiting_calls @ [HeardFrame 0 (Stats 9 900 4 0 None 0), SawStats 900 4] @ DidAcquire (Inr True) # post"
    by (auto simp: prefix_def hist_def)
  have asked: "asked = reported\<lparr>fl_done := (fl_done reported)(?b := 14),
      fl_lease := (fl_lease waiting_fleet)\<rparr>"
    using calls_take_place [of reported ?b waiting_calls "[HeardFrame 0 (Stats 9 900 4 0 None 0), SawStats 900 4]"
        "DidAcquire (Inr True) # post" table_ops 5000 "\<lambda>i. waiting_config" 1700000100000] post short(1)
    by (simp add: asked_def taking_over_def reported_def waiting_fleet_run perform_def numeral_2_eq_2 del: run_step.simps)
  have answer: "\<exists>db'. tryAcquireKinesisLock table_send 5000 ?b 1700000400000 1700000400000 owned_table = (Inr True, db')"
    by (simp add: tryAcquireKinesisLock_def owned_table_def table_item_def next_fault_def row_simps
        may_acquire_def owner_of_def lease_of_def get_def num_def kinesis_lock_stale_ms_def js_Cons Let_def)
  then obtain db' where db': "tryAcquireKinesisLock table_send 5000 ?b 1700000400000 1700000400000
      (ls_db (fl_lease asked)) = (Inr True, db')"
    by (auto simp: asked waiting_fleet_run)
  have "fl_done landed ?b = Suc (length hist)"
    using db' post short(1)
    by (simp add: landed_def happens_def asked fleet_calls_def waiting_fleet_run nth_append hist_def Let_def)
  then have "(let s' = sys_sup (fl_port reported ?b) in st s' = Producing) \<and>
      row_lock table_item (ls_db (fl_lease landed)) 5000 = (Some (S ?b), Some (Iso 1700000400000))"
    using stale_lock_taken_over [OF dynamo_table owned_table_row(5) waiting_fleet_def _ refl _ _ _ _ _ reported_def asked_def _
        landed_def _ _ db', where inputs = 9 and inputBytes = 900 and authenticated = 4 and aus = 0 and roc = None and
        drops = 0 and h = 0 and queue = "[]" and hist = hist] short calls owned_table_row(4)
    by (simp add: waiting_fleet_run waiting_port_run hist_def asked Let_def)
      (simp add: waiting_config_def fleet_config_def sample_config_def default_timeouts_def kinesis_lock_stale_ms_def)
  moreover have "fl_port landed = fl_port reported"
    by (simp add: landed_def asked happens_def Let_def)
  ultimately show ?thesis
    by (simp add: Let_def reported_def [symmetric] asked_def [symmetric] landed_def [symmetric] del: fleet_step.simps)
qed

end
