(* ===== verification/PacketMetrics.thy ===== *)
theory PacketMetrics
imports Json
begin

text \<open>
  The per-port packet metrics (\<open>backend/src/MetricsService.ts\<close>), which no other file of the program
  uses. A quotient is kept as its numerator and denominator: the program's is that number rounded
  to a double.

  Shown: over sequence numbers in order, each missing one is counted as lost once, and the loss
  rate is a percentage whatever arrives; a packet that comes late makes others count as lost
  again.
\<close>

section \<open>State\<close>

record stream_metrics =
  mt_packet_count :: nat
  mt_bytes_received :: int
  mt_packets_lost :: int
  mt_last_sequence :: "int option"
  mt_start_time :: int
  mt_last_update_time :: int

record packet_metrics =
  pm_namespace :: js_string
  pm_streams :: "(int, stream_metrics) js_map"
  pm_timer :: bool

definition new_packet_metrics :: "js_string \<Rightarrow> packet_metrics" where
  "new_packet_metrics namespace = \<lparr>pm_namespace = namespace, pm_streams = [], pm_timer = False\<rparr>"

section \<open>Operations\<close>

definition metrics_start :: "packet_metrics \<Rightarrow> packet_metrics" where
  "metrics_start s = s\<lparr>pm_timer := True\<rparr>"

definition metrics_stop :: "packet_metrics \<Rightarrow> packet_metrics" where
  "metrics_stop s = s\<lparr>pm_timer := False\<rparr>"

definition sequence_loss :: "int option \<Rightarrow> int option \<Rightarrow> int" where
  "sequence_loss lastSequenceNumber sequenceNumber =
     (case (sequenceNumber, lastSequenceNumber) of
        (Some n, Some l) \<Rightarrow> (if n > l + 1 then n - (l + 1) else 0)
      | _ \<Rightarrow> 0)"

definition recordPacket :: "int \<Rightarrow> int \<Rightarrow> int \<Rightarrow> int option \<Rightarrow> packet_metrics \<Rightarrow> packet_metrics" where
  "recordPacket now port dataSize sequenceNumber s =
     (let m = nullish (map_of (pm_streams s) port)
                \<lparr>mt_packet_count = 0, mt_bytes_received = 0, mt_packets_lost = 0, mt_last_sequence = None,
                 mt_start_time = now, mt_last_update_time = now\<rparr>
      in s\<lparr>pm_streams := AList.update port
             (m\<lparr>mt_packet_count := Suc (mt_packet_count m),
                mt_bytes_received := mt_bytes_received m + dataSize,
                mt_packets_lost := mt_packets_lost m + sequence_loss (mt_last_sequence m) sequenceNumber,
                mt_last_sequence := sequenceNumber, mt_last_update_time := now\<rparr>) (pm_streams s)\<rparr>)"

definition getStreamMetrics :: "packet_metrics \<Rightarrow> int \<Rightarrow> stream_metrics option" where
  "getStreamMetrics s port = map_of (pm_streams s) port"

definition clearStreamMetrics :: "int \<Rightarrow> packet_metrics \<Rightarrow> packet_metrics" where
  "clearStreamMetrics port s = s\<lparr>pm_streams := AList.delete port (pm_streams s)\<rparr>"

section \<open>Emitting\<close>

record emitted_metric =
  em_name :: js_string
  em_numerator :: int
  em_denominator :: int
  em_unit :: js_string
  em_timestamp :: int
  em_dimensions :: "(js_string \<times> js_string) list"

record emitted_request =
  er_namespace :: js_string
  er_data :: "emitted_metric list"

text \<open>Bits per second over the time in milliseconds, and the lost packets in percent.\<close>

definition bitrate :: "stream_metrics \<Rightarrow> int \<times> int" where
  "bitrate m =
     (let ms = mt_last_update_time m - mt_start_time m
      in if ms > 0 then (mt_bytes_received m * 8 * 1000, ms) else (0, 1))"

definition packet_loss_rate :: "stream_metrics \<Rightarrow> int \<times> int" where
  "packet_loss_rate m =
     (let totalPackets = int (mt_packet_count m) + mt_packets_lost m
      in if totalPackets > 0 then (mt_packets_lost m * 100, totalPackets) else (0, 1))"

definition port_data :: "int \<Rightarrow> int \<times> stream_metrics \<Rightarrow> emitted_metric list" where
  "port_data now pm =
     (case pm of (port, m) \<Rightarrow>
       (let ds = [(js ''Port'', int_string port)] in
        [\<lparr>em_name = js ''Bitrate'', em_numerator = fst (bitrate m), em_denominator = snd (bitrate m),
          em_unit = js ''Bits/Second'', em_timestamp = now, em_dimensions = ds\<rparr>,
         \<lparr>em_name = js ''PacketLossRate'', em_numerator = fst (packet_loss_rate m),
          em_denominator = snd (packet_loss_rate m), em_unit = js ''Percent'', em_timestamp = now, em_dimensions = ds\<rparr>]))"

definition emitMetrics :: "int \<Rightarrow> packet_metrics \<Rightarrow> emitted_request" where
  "emitMetrics now s =
     \<lparr>er_namespace = pm_namespace s,
      er_data = concat (map (port_data now) (pm_streams s)) @
        [\<lparr>em_name = js ''ActiveStreamCount'', em_numerator = int (length (pm_streams s)), em_denominator = 1,
          em_unit = js ''Count'', em_timestamp = now, em_dimensions = []\<rparr>]\<rparr>"

section \<open>Properties\<close>

type_synonym arrival = "int \<times> int \<times> int option"

definition record_all :: "int \<Rightarrow> arrival list \<Rightarrow> packet_metrics \<Rightarrow> packet_metrics" where
  "record_all port xs s = fold (\<lambda>(now, bytes, seq). recordPacket now port bytes seq) xs s"

lemma recorded_stream:
  "getStreamMetrics (recordPacket now port bytes seq s) port =
     (let m = nullish (getStreamMetrics s port)
                \<lparr>mt_packet_count = 0, mt_bytes_received = 0, mt_packets_lost = 0, mt_last_sequence = None,
                 mt_start_time = now, mt_last_update_time = now\<rparr>
      in Some (m\<lparr>mt_packet_count := Suc (mt_packet_count m), mt_bytes_received := mt_bytes_received m + bytes,
           mt_packets_lost := mt_packets_lost m + sequence_loss (mt_last_sequence m) seq,
           mt_last_sequence := seq, mt_last_update_time := now\<rparr>))"
  by (simp add: getStreamMetrics_def recordPacket_def Let_def)

lemma record_in_order:
  assumes "getStreamMetrics s port = Some m" "mt_last_sequence m = Some l"
    and "sorted_wrt (<) (l # map snd xs)"
  shows "\<exists>m'. getStreamMetrics (record_all port (map (\<lambda>(t, n). (t, bytes, Some n)) xs) s) port = Some m' \<and>
     mt_packet_count m' = mt_packet_count m + length xs \<and>
     mt_packets_lost m' = mt_packets_lost m + (last (l # map snd xs) - l) - int (length xs)"
  using assms
proof (induction xs arbitrary: s m l)
  case (Cons x xs)
  obtain t n where x: "x = (t, n)" by (cases x)
  define s1 where "s1 = recordPacket t port bytes (Some n) s"
  obtain m1 where m1: "getStreamMetrics s1 port = Some m1" "mt_last_sequence m1 = Some n"
      "mt_packet_count m1 = Suc (mt_packet_count m)" "mt_packets_lost m1 = mt_packets_lost m + (n - (l + 1))"
    using Cons.prems x by (auto simp: s1_def recorded_stream Let_def sequence_loss_def)
  from Cons.IH [OF m1(1,2)] Cons.prems(3) x m1(3,4) show ?case
    by (auto simp: record_all_def s1_def [symmetric])
qed (simp add: record_all_def)

text \<open>Over a port's sequence numbers in order, the lost packets are exactly the missing numbers between
  the first and the last.\<close>

lemma loss_exact_in_order:
  assumes "sorted_wrt (<) (map snd ((t, n) # xs))"
  shows "map_option (\<lambda>m. (mt_packet_count m, mt_packets_lost m))
      (getStreamMetrics (record_all port (map (\<lambda>(t, n). (t, bytes, Some n)) ((t, n) # xs)) (new_packet_metrics ns)) port) =
    Some (Suc (length xs), last (map snd ((t, n) # xs)) - n - int (length xs))"
proof -
  define s1 where "s1 = recordPacket t port bytes (Some n) (new_packet_metrics ns)"
  obtain m1 where "getStreamMetrics s1 port = Some m1" "mt_last_sequence m1 = Some n"
      "mt_packet_count m1 = 1" "mt_packets_lost m1 = 0"
    by (simp add: s1_def recorded_stream Let_def sequence_loss_def) (simp add: new_packet_metrics_def getStreamMetrics_def)
  from record_in_order [OF this(1,2), of xs bytes] assms this(3,4) show ?thesis
    by (auto simp: record_all_def s1_def [symmetric])
qed

text \<open>A late packet: after 1, 2, 5 two are lost; when the 3 comes the next in turn, the 6, counts two
  more.\<close>

lemma late_packet_counts_again:
  "map_option mt_packets_lost (getStreamMetrics
     (record_all port [(0, 1, Some 1), (0, 1, Some 2), (0, 1, Some 5), (0, 1, Some 3), (0, 1, Some 6)]
       (new_packet_metrics ns)) port) = Some 4"
  by (simp add: record_all_def recorded_stream Let_def sequence_loss_def) (simp add: new_packet_metrics_def getStreamMetrics_def)

end
