(* ===== verification/Deployment.thy ===== *)
theory Deployment
imports Ingest Traffic Transport PacketMetrics
begin

text \<open>
  What the deployment (\<open>cdk/StreamingStack.ts\<close>) says about the service: the ports and the streams it
  provisions, the environment it starts the service with (its substitutions in
  \<open>cdk/user-data.sh\<close>), and its alarms, as the data they are. The rest of the stack - network,
  instances, functions, permissions - is configuration of resources.

  Shown: the service the stack starts ingests exactly the stack's ports into exactly its streams;
  its alarms read exactly what the service publishes, and each transport's only its own.
\<close>

section \<open>Ports and streams\<close>

definition stack_port_range :: "int \<Rightarrow> int \<Rightarrow> int list" where
  "stack_port_range first final = map (\<lambda>i. first + int i) [0..<nat (final - first + 1)]"

definition unencryptedPorts :: "int list" where "unencryptedPorts = stack_port_range 5000 5009"

definition srtpPorts :: "int list" where "srtpPorts = stack_port_range 6000 6009"

definition kinesisStreamPrefix :: "js_string \<Rightarrow> js_string" where
  "kinesisStreamPrefix stackName = stackName @ js ''-video''"

definition stack_stream :: "js_string \<Rightarrow> int \<Rightarrow> js_string" where
  "stack_stream stackName port = kinesisStreamPrefix stackName @ js ''-'' @ int_string port"

definition stack_streams :: "js_string \<Rightarrow> js_string list" where
  "stack_streams stackName = map (stack_stream stackName) (unencryptedPorts @ srtpPorts)"

section \<open>The environment of the service\<close>

text \<open>The variables of the unit, with the placeholders replaced; the SRTP ports are printed and so
  read back as numbers.\<close>

definition stack_service_env :: "js_string \<Rightarrow> js_string \<Rightarrow> service_env" where
  "stack_service_env region stackName =
     \<lparr>KINESIS_MIN_BYTES_BEFORE_START = None, KINESIS_STREAM_PREFIX = Some (kinesisStreamPrefix stackName),
      KINESIS_INGESTION_LOG_GSTREAMER = None, AWS_REGION = Some region\<rparr>"

definition stack_transport_env :: "js_string \<Rightarrow> transport_env" where
  "stack_transport_env stackName =
     \<lparr>SRTP_KEY_PARAMETER_PREFIX = Some (js ''/'' @ stackName @ js ''/srtp/port''),
      SRTP_PORT_RANGE_START = Some (int_string (hd srtpPorts)),
      SRTP_PORT_RANGE_END = Some (int_string (last srtpPorts))\<rparr>"

section \<open>Alarms\<close>

record metric =
  ms_namespace :: js_string
  ms_name :: js_string
  ms_dimensions :: "(js_string \<times> js_string) list"
  ms_statistic :: js_string
  ms_minutes :: nat

datatype alarm_source =
    OneMetric metric
  | Expression js_string "(js_string \<times> metric) list"

datatype comparison = GreaterThan | LessThan | LessThanOrEqual

record alarm =
  al_name :: js_string
  al_source :: alarm_source
  al_threshold :: int
  al_periods :: nat
  al_comparison :: comparison
  al_missing_breaches :: bool

record transport_alarms =
  ta_dimension :: js_string
  ta_label :: js_string
  ta_ports :: "int list"

definition transports :: "transport_alarms list" where
  "transports =
     [\<lparr>ta_dimension = unencrypted_transport, ta_label = js ''Unencrypted'', ta_ports = unencryptedPorts\<rparr>,
      \<lparr>ta_dimension = srtp_transport, ta_label = js ''SRTP'', ta_ports = srtpPorts\<rparr>]"

definition backendMetric :: "js_string \<Rightarrow> js_string \<Rightarrow> transport_alarms \<Rightarrow> js_string \<Rightarrow> metric" where
  "backendMetric stackName metricName transport statistic =
     \<lparr>ms_namespace = trafficMetricNamespace stackName, ms_name = metricName,
      ms_dimensions = [(transport_dimension, ta_dimension transport)], ms_statistic = statistic, ms_minutes = 1\<rparr>"

definition trafficArrivingOn :: "js_string \<Rightarrow> transport_alarms \<Rightarrow> alarm" where
  "trafficArrivingOn stackName transport =
     \<lparr>al_name = stackName @ js ''-UDP-Traffic-'' @ ta_label transport,
      al_source = OneMetric (backendMetric stackName received_bytes_metric transport (js ''Sum'')),
      al_threshold = 1024 * 1024 * 60, al_periods = 5, al_comparison = GreaterThan, al_missing_breaches = False\<rparr>"

definition notServingOn :: "js_string \<Rightarrow> transport_alarms \<Rightarrow> alarm" where
  "notServingOn stackName transport =
     \<lparr>al_name = stackName @ js ''-Transport-Not-Serving-'' @ ta_label transport,
      al_source = OneMetric (backendMetric stackName serving_metric transport (js ''Minimum'')),
      al_threshold = 1, al_periods = 5, al_comparison = LessThan, al_missing_breaches = False\<rparr>"

definition incoming_metric :: "js_string \<Rightarrow> int \<Rightarrow> metric" where
  "incoming_metric stackName port =
     \<lparr>ms_namespace = js ''AWS/KinesisVideo'', ms_name = js ''PutMedia.IncomingBytes'',
      ms_dimensions = [(js ''StreamName'', stack_stream stackName port)], ms_statistic = js ''Sum'', ms_minutes = 1\<rparr>"

text \<open>The names \<open>s0\<close>, \<open>s1\<close>, ... joined by plus signs.\<close>

definition summand :: "nat \<Rightarrow> js_string" where "summand i = js ''s'' @ nat_digits i"

fun join :: "js_string \<Rightarrow> js_string list \<Rightarrow> js_string" where
  "join sep [] = []"
| "join sep [x] = x"
| "join sep (x # y # xs) = x @ sep @ join sep (y # xs)"

definition kvsIncomingSumFor :: "js_string \<Rightarrow> int list \<Rightarrow> alarm_source" where
  "kvsIncomingSumFor stackName ports =
     Expression (join (js ''+'') (map summand [0..<length ports]))
       (zip (map summand [0..<length ports]) (map (incoming_metric stackName) ports))"

definition noIngestionOn :: "js_string \<Rightarrow> transport_alarms \<Rightarrow> alarm" where
  "noIngestionOn stackName transport =
     \<lparr>al_name = stackName @ js ''-KVS-PutMedia-Incoming-Zero-'' @ ta_label transport,
      al_source = kvsIncomingSumFor stackName (ta_ports transport),
      al_threshold = 0, al_periods = 5, al_comparison = LessThanOrEqual, al_missing_breaches = True\<rparr>"

datatype rule = InAlarm alarm | AllOf "rule list" | AnyOf "rule list"

definition ingestFaultOn :: "js_string \<Rightarrow> transport_alarms \<Rightarrow> rule" where
  "ingestFaultOn stackName transport =
     AllOf [InAlarm (trafficArrivingOn stackName transport), InAlarm (noIngestionOn stackName transport)]"

definition udpTrafficNoIngestionAlarm :: "js_string \<Rightarrow> rule" where
  "udpTrafficNoIngestionAlarm stackName = AnyOf (map (ingestFaultOn stackName) transports)"

definition packetLossAlarm :: "js_string \<Rightarrow> alarm" where
  "packetLossAlarm stackName =
     \<lparr>al_name = stackName @ js ''-HighPacketLoss'',
      al_source = OneMetric \<lparr>ms_namespace = stackName, ms_name = js ''PacketLossRate'', ms_dimensions = [],
                    ms_statistic = js ''Average'', ms_minutes = 5\<rparr>,
      al_threshold = 5, al_periods = 2, al_comparison = GreaterThan, al_missing_breaches = False\<rparr>"

section \<open>What an alarm reads\<close>

definition alarm_metrics :: "alarm \<Rightarrow> metric list" where
  "alarm_metrics a = (case al_source a of OneMetric m \<Rightarrow> [m] | Expression e ms \<Rightarrow> map snd ms)"

fun rule_alarms :: "rule \<Rightarrow> alarm list" where
  "rule_alarms (InAlarm a) = [a]"
| "rule_alarms (AllOf rs) = concat (map rule_alarms rs)"
| "rule_alarms (AnyOf rs) = concat (map rule_alarms rs)"

definition rule_metrics :: "rule \<Rightarrow> metric list" where
  "rule_metrics r = concat (map alarm_metrics (rule_alarms r))"

text \<open>A composite rule, given which alarms are in alarm.\<close>

fun rule_holds :: "(alarm \<Rightarrow> bool) \<Rightarrow> rule \<Rightarrow> bool" where
  "rule_holds firing (InAlarm a) = firing a"
| "rule_holds firing (AllOf rs) = list_all (rule_holds firing) rs"
| "rule_holds firing (AnyOf rs) = list_ex (rule_holds firing) rs"

text \<open>The values of a request that belong to a metric: namespace, name and dimensions are its identity.\<close>

definition metric_values :: "metric \<Rightarrow> metric_request \<Rightarrow> int list" where
  "metric_values m r =
     (if Namespace r = ms_namespace m
      then map Value (filter (\<lambda>d. MetricName d = ms_name m \<and> Dimensions d = ms_dimensions m) (MetricData r))
      else [])"

section \<open>Properties\<close>

lemma stack_ports:
  "unencryptedPorts = [5000, 5001, 5002, 5003, 5004, 5005, 5006, 5007, 5008, 5009]"
  "srtpPorts = [6000, 6001, 6002, 6003, 6004, 6005, 6006, 6007, 6008, 6009]"
  by (simp_all add: unencryptedPorts_def srtpPorts_def stack_port_range_def upt_rec)

lemma in_stack_port_range: "port \<in> set (stack_port_range first final) \<longleftrightarrow> first \<le> port \<and> port \<le> final"
proof
  assume "first \<le> port \<and> port \<le> final"
  then have "port = first + int (nat (port - first))" "nat (port - first) < nat (final - first + 1)" by auto
  then show "port \<in> set (stack_port_range first final)"
    unfolding stack_port_range_def by (metis atLeastLessThan_iff imageI list.set_map set_upt zero_le)
qed (auto simp: stack_port_range_def)

lemma distinct_over_ports:
  assumes "inj f"
  shows "distinct (map f (unencryptedPorts @ srtpPorts))"
proof -
  have "distinct (unencryptedPorts @ srtpPorts)" by (simp add: stack_ports)
  then show ?thesis using assms by (simp only: distinct_map) (metis inj_on_subset subset_UNIV)
qed

lemma stack_transport_config:
  "srtpTransportConfigFromEnv (stack_transport_env stackName) =
    Inr (Some \<lparr>ts_prefix = js ''/'' @ stackName @ js ''/srtp/port'', ts_range = \<lparr>pr_start = 6000, pr_end = 6009\<rparr>\<rparr>)"
proof -
  have "js_trim (js ''/'' @ stackName @ js ''/srtp/port'') = js ''/'' @ stackName @ js ''/srtp/port''"
    by (simp add: js_trim_def js_Cons js_space_def)
  then show ?thesis
    by (simp add: srtpTransportConfigFromEnv_def stack_transport_env_def stack_ports number_or_def
        number_of_int_string max_safe_integer_def unencrypted_port_range_def js_Cons)
qed

lemma stack_srtp_ports: "ports_of \<lparr>pr_start = 6000, pr_end = 6009\<rparr> = srtpPorts"
  by (simp add: ports_of_def srtpPorts_def stack_port_range_def)

text \<open>The service the stack starts ingests exactly what the stack provisions: its unencrypted pipeline
  takes exactly the stack's unencrypted ports; its SRTP configuration is accepted, under the
  stack's parameters, with exactly the stack's SRTP ports; and each port's stream is the one
  provisioned for it, no two ports sharing one.\<close>

theorem stack_agrees_with_service:
  "(let c = service_config_of (stack_service_env region stackName) accepts
    in (\<forall>port. isPortInRange (sc_pipeline c) port \<longleftrightarrow> port \<in> set unencryptedPorts) \<and> sc_enabled c \<and>
       (case srtpTransportConfigFromEnv (stack_transport_env stackName) of
          Inr (Some ts) \<Rightarrow>
            ports_of (ts_range ts) = srtpPorts \<and> ts_prefix ts = js ''/'' @ stackName @ js ''/srtp/port''
        | _ \<Rightarrow> False) \<and>
       map (streamNameForPort (sc_pipeline c)) (unencryptedPorts @ srtpPorts) = stack_streams stackName \<and>
       distinct (stack_streams stackName))"
proof -
  let ?c = "service_config_of (stack_service_env region stackName) accepts"
  have range: "isPortInRange (sc_pipeline ?c) port \<longleftrightarrow> port \<in> set unencryptedPorts" for port
    by (simp add: unencryptedPorts_def in_stack_port_range isPortInRange_def service_config_of_def)
  have enabled: "sc_enabled ?c"
    by (simp add: service_config_of_def stack_service_env_def kinesisStreamPrefix_def js_Cons)
  have streams: "map (streamNameForPort (sc_pipeline ?c)) (unencryptedPorts @ srtpPorts) = stack_streams stackName"
    by (simp add: stack_streams_def stack_stream_def streamNameForPort_def service_config_of_def stack_service_env_def)
  have "inj (stack_stream stackName)" by (rule injI) (simp add: stack_stream_def)
  then have "distinct (stack_streams stackName)" unfolding stack_streams_def by (rule distinct_over_ports)
  then show ?thesis using range enabled streams by (simp add: stack_transport_config stack_srtp_ports Let_def)
qed

text \<open>The alarms read what is published: whatever the publisher of a stack has sent, every request
  has, for each transport, exactly one value of the metric of its traffic alarm, a byte count, and
  exactly one of the metric of its serving alarm, which is 0 or 1; and no metric is read by
  the fault rules of two transports, so that neither's traffic decides the other's alarm.\<close>

theorem alarms_read_what_is_published:
  "list_all (\<lambda>r. list_all (\<lambda>t.
       (case map (\<lambda>m. metric_values m r) (alarm_metrics (trafficArrivingOn stackName t)) of
          [[n]] \<Rightarrow> 0 \<le> n | _ \<Rightarrow> False) \<and>
       (case map (\<lambda>m. metric_values m r) (alarm_metrics (notServingOn stackName t)) of
          [[b]] \<Rightarrow> b = 0 \<or> b = 1 | _ \<Rightarrow> False)) transports)
     (tm_landed (traffic_run (Some stackName) events)) \<and>
   distinct (concat (map (\<lambda>t. rule_metrics (ingestFaultOn stackName t)) transports))"
proof
  have "requests_inv stackName (new_traffic (Some stackName))"
    by (simp add: requests_inv_def new_traffic_def)
  from requests_run [OF traffic_inv_new this, of events]
  have whole: "list_all (whole_request stackName) (tm_landed (traffic_run (Some stackName) events))"
    by (simp add: requests_inv_def traffic_run_def)
  show "list_all (\<lambda>r. list_all (\<lambda>t.
       (case map (\<lambda>m. metric_values m r) (alarm_metrics (trafficArrivingOn stackName t)) of
          [[n]] \<Rightarrow> 0 \<le> n | _ \<Rightarrow> False) \<and>
       (case map (\<lambda>m. metric_values m r) (alarm_metrics (notServingOn stackName t)) of
          [[b]] \<Rightarrow> b = 0 \<or> b = 1 | _ \<Rightarrow> False)) transports)
     (tm_landed (traffic_run (Some stackName) events))"
    using whole
    by (rule list.pred_mono_strong)
      (auto simp: whole_request_def transports_def alarm_metrics_def trafficArrivingOn_def notServingOn_def
        backendMetric_def metric_values_def reports_def [symmetric] split: list.splits)
  have "inj (incoming_metric stackName)" by (rule injI) (simp add: incoming_metric_def stack_stream_def)
  then have "distinct (map (incoming_metric stackName) (unencryptedPorts @ srtpPorts))" by (rule distinct_over_ports)
  moreover have "backendMetric stackName received_bytes_metric t x \<notin> incoming_metric stackName ` ports" for t x ports
    by (auto simp: backendMetric_def incoming_metric_def received_bytes_metric_def js_Cons)
  moreover have "unencrypted_transport \<noteq> srtp_transport" by (simp add: unencrypted_transport_def srtp_transport_def)
  then have "backendMetric stackName n \<lparr>ta_dimension = unencrypted_transport, ta_label = l, ta_ports = ps\<rparr> x \<noteq>
      backendMetric stackName n \<lparr>ta_dimension = srtp_transport, ta_label = l', ta_ports = ps'\<rparr> x" for n l l' ps ps' x
    by (simp add: backendMetric_def)
  ultimately show "distinct (concat (map (\<lambda>t. rule_metrics (ingestFaultOn stackName t)) transports))"
    by (simp add: transports_def ingestFaultOn_def rule_metrics_def alarm_metrics_def trafficArrivingOn_def
        noIngestionOn_def kvsIncomingSumFor_def)
qed

text \<open>The packet-loss alarm sees no data at all: nothing the packet metrics can emit is its metric -
  they come with the dimension of their port, the alarm has none - and nothing the traffic
  metrics publish is either. With missing data not breaching, it never fires.\<close>

theorem packet_loss_alarm_blind:
  "list_all (\<lambda>m. filter (\<lambda>d. em_name d = ms_name m \<and> em_dimensions d = ms_dimensions m) (er_data (emitMetrics now s)) = [] \<and>
       list_all (\<lambda>r. metric_values m r = []) (tm_landed (traffic_run (Some stackName) events)))
     (alarm_metrics (packetLossAlarm stackName))"
proof -
  have "requests_inv stackName (new_traffic (Some stackName))"
    by (simp add: requests_inv_def new_traffic_def)
  from requests_run [OF traffic_inv_new this, of events]
  have "list_all (\<lambda>r. Namespace r = trafficMetricNamespace stackName) (tm_landed (traffic_run (Some stackName) events))"
    by (auto simp: requests_inv_def traffic_run_def whole_request_def list_all_iff)
  then have "list_all (\<lambda>r. Namespace r \<noteq> stackName) (tm_landed (traffic_run (Some stackName) events))"
    by (rule list.pred_mono_strong) (simp add: trafficMetricNamespace_def js_Cons)
  moreover have "filter (\<lambda>d. em_name d = js ''PacketLossRate'' \<and> em_dimensions d = []) (er_data (emitMetrics now s)) = []"
    by (auto simp: emitMetrics_def port_data_def filter_empty_conv js_Cons Let_def split: prod.splits)
  ultimately show ?thesis
    by (simp add: alarm_metrics_def packetLossAlarm_def metric_values_def list_all_iff)
qed

end
