(* ===== verification/StackFunctions.thy ===== *)
theory StackFunctions
imports Deployment Lambdas
begin

text \<open>
  The two functions as the stack deploys them (\<open>cdk/StreamingStack.ts\<close>): their environment and the rule that
  runs the cleanup, with the handlers of \<open>lambda/\<close>.

  Shown: a run of the cleanup that ends gives up exactly the locks of the active ports it was shown
  whose lease is old, and one runs within a minute after a lease has become so; neither function
  fails for its environment.
\<close>

section \<open>The functions of the stack\<close>

record stack_function =
  sf_entry :: js_string
  sf_environment :: "(js_string \<times> js_string) list"
  sf_timeout_s :: int
  sf_every_ms :: "int option"

definition streamCleanupLambda :: "js_string \<Rightarrow> stack_function" where
  "streamCleanupLambda tableName =
     \<lparr>sf_entry = js ''stream-inactivity-cleanup'', sf_environment = [(js ''TABLE_NAME'', tableName)],
      sf_timeout_s = 30, sf_every_ms = Some 60000\<rparr>"

definition restartIngestionLambda :: "js_string \<Rightarrow> stack_function" where
  "restartIngestionLambda asgName =
     \<lparr>sf_entry = js ''restart-ingestion-on-alarm'', sf_environment = [(js ''AUTO_SCALING_GROUP_NAME'', asgName)],
      sf_timeout_s = 60, sf_every_ms = None\<rparr>"

text \<open>What the function's process has in its environment.\<close>

definition env_of :: "stack_function \<Rightarrow> js_string \<Rightarrow> js_string option" where
  "env_of f v = map_of (sf_environment f) v"

section \<open>One run of the cleanup\<close>

text \<open>What the scan shows: rows of the table, each once.\<close>

definition scanned :: "(int \<Rightarrow> item option) \<Rightarrow> item list \<Rightarrow> bool" where
  "scanned table items \<longleftrightarrow>
     distinct (map (\<lambda>r. int_of (map_of r ''port'')) items) \<and>
     list_all (\<lambda>r. case int_of (map_of r ''port'') of None \<Rightarrow> False | Some p \<Rightarrow> table p = Some r) items"

definition scanned_ports :: "item list \<Rightarrow> int list" where
  "scanned_ports items = List.map_filter (\<lambda>r. int_of (map_of r ''port'')) items"

lemma scanned_ports_Cons [simp]:
  "int_of (map_of r ''port'') = Some p \<Longrightarrow> scanned_ports (r # rs) = p # scanned_ports rs"
  "scanned_ports [] = []"
  by (simp_all add: scanned_ports_def map_filter_def)

lemma scanned_ports_iff: "p \<in> set (scanned_ports rs) \<longleftrightarrow> Some p \<in> (\<lambda>r. int_of (map_of r ''port'')) ` set rs"
  by (induction rs) (auto simp: scanned_ports_def map_filter_def)

lemma scanned_Cons:
  "scanned table (r # rs) \<longleftrightarrow>
     (\<exists>p. int_of (map_of r ''port'') = Some p \<and> table p = Some r \<and> p \<notin> set (scanned_ports rs)) \<and> scanned table rs"
  by (cases "int_of (map_of r ''port'')") (auto simp: scanned_def scanned_ports_iff)

lemma scanned_cong: "scanned t rs \<Longrightarrow> (\<And>p. p \<in> set (scanned_ports rs) \<Longrightarrow> t' p = t p) \<Longrightarrow> scanned t' rs"
proof (induction rs)
  case (Cons r rs)
  then obtain p where "int_of (map_of r ''port'') = Some p" "t p = Some r" "p \<notin> set (scanned_ports rs)" "scanned t rs"
    by (auto simp: scanned_Cons)
  with Cons show ?case by (simp add: scanned_Cons)
qed (simp add: scanned_def)

definition given_up :: "int \<Rightarrow> item option \<Rightarrow> item option \<Rightarrow> bool" where
  "given_up p it it' \<longleftrightarrow> (\<exists>now. it' = Some (updated p (cleanup_actions now) it))"

lemma given_up_row:
  "given_up p it it' \<Longrightarrow> owner_of it' = None \<and> get it' ''status'' = Some (S (js ''inactive'')) \<and>
    lease_of it' = lease_of it \<and> floor_fields it' = floor_fields it"
  by (auto simp only: given_up_def cleanup_row)

context dynamo
begin

lemma cleanup_port_exact:
  assumes "cleanup_port send p thr now db = (Inr b, db')"
  shows "(if condition_holds (cleanup_condition thr) (item_of db p) then given_up p (item_of db p) (item_of db' p)
      else item_of db' p = item_of db p) \<and> (q \<noteq> p \<longrightarrow> item_of db' q = item_of db q)"
proof -
  obtain resp where s: "send (UpdateItem p (cleanup_actions now) (cleanup_condition thr)) db = (resp, db')"
    using assms by (auto simp: cleanup_port_def split: prod.splits response.splits)
  show ?thesis
    using s assms update_answer
    by (cases rule: update_cases [OF s])
      (auto simp: cleanup_port_def given_up_def split: response.splits)
qed

lemma cleanup_items_exact:
  assumes "cleanup_items send clock k thr rs n db = (Inr m, db')" and "scanned (item_of db) rs"
  shows "if p \<in> set (scanned_ports rs) \<and> condition_holds (cleanup_condition thr) (item_of db p)
    then given_up p (item_of db p) (item_of db' p) else item_of db' p = item_of db p"
  using assms
proof (induction rs arbitrary: k n db)
  case (Cons r rs)
  obtain q where q: "int_of (map_of r ''port'') = Some q" "item_of db q = Some r" "q \<notin> set (scanned_ports rs)"
    and rest: "scanned (item_of db) rs" using Cons.prems(2) by (auto simp: scanned_Cons)
  have skip: "\<not> condition_holds (cleanup_condition thr) (item_of db q)"
    if "time_of (map_of r ''lastPacketTime'') = None \<or> (\<exists>t. time_of (map_of r ''lastPacketTime'') = Some t \<and> thr \<le> t)"
    using that q(2) by (auto simp: row_simps lease_of_def get_def time_of_def split: option.splits attr.splits)
  show ?case
  proof (cases "\<exists>t. time_of (map_of r ''lastPacketTime'') = Some t \<and> t < thr")
    case False
    then have "cleanup_items send clock k thr rs n db = (Inr m, db')"
      using Cons.prems(1) q(1) by (auto split: option.splits)
    moreover have "\<not> condition_holds (cleanup_condition thr) (item_of db q)"
      using False by (intro skip) (cases "time_of (map_of r ''lastPacketTime'')"; auto simp: not_less)
    ultimately show ?thesis
      using Cons.IH [of k n db] rest q by (cases "p = q") (auto split: if_splits)
  next
    case True
    then obtain t where t: "time_of (map_of r ''lastPacketTime'') = Some t" "t < thr" by blast
    obtain c db1 where c: "cleanup_port send q thr (clock k) db = (c, db1)" by fastforce
    obtain b where b: "c = Inr b" using Cons.prems(1) q(1) t c by (cases c) auto
    obtain k' n' where go: "cleanup_items send clock k' thr rs n' db1 = (Inr m, db')"
      using Cons.prems(1) q(1) t c b by (cases b) auto
    note one = cleanup_port_exact [OF c [unfolded b]]
    have "scanned (item_of db1) rs"
      using one q(3) by (intro scanned_cong [OF rest]) metis
    from Cons.IH [OF go this] show ?thesis
      using one [of p] one [of q] q by (cases "p = q") (auto split: if_splits)
  qed
qed simp

end

section \<open>Properties\<close>

text \<open>C21. What a run of the cleanup does. With the environment the stack gives it, a run that ends gives up the
  lock of each port it was shown whose row is active with a lease older than five minutes when it
  started - the owner is removed, the port inactive, its lease time and replay floor as they were -
  and leaves every other row as it is, also when an answer was lost and the write repeated.\<close>

theorem cleanup_exact:
  assumes "dynamo send item_of" and "tableName \<noteq> []"
    and "scan db = (Inr items, db1)" "item_of db1 = item_of db" "scanned (item_of db) items"
    and "cleanup_handler send scan clock (env_of (streamCleanupLambda tableName) (js ''TABLE_NAME'')) db = (Inr res, db')"
  shows "if p \<in> set (scanned_ports items) \<and>
      condition_holds (cleanup_condition (clock 0 - inactivity_threshold_ms)) (item_of db p)
    then owner_of (item_of db' p) = None \<and> get (item_of db' p) ''status'' = Some (S (js ''inactive'')) \<and>
      lease_of (item_of db' p) = lease_of (item_of db p) \<and> floor_fields (item_of db' p) = floor_fields (item_of db p)
    else item_of db' p = item_of db p"
proof -
  obtain m where "cleanup_items send clock 1 (clock 0 - inactivity_threshold_ms) items 0 db1 = (Inr m, db')"
    using assms(2,3,6) by (auto simp: cleanup_handler_def env_of_def streamCleanupLambda_def split: prod.splits sum.splits)
  from dynamo.cleanup_items_exact [OF assms(1) this, of p] assms(4,5) show ?thesis
    using given_up_row [of p "item_of db p" "item_of db' p"] by (auto split: if_splits)
qed

text \<open>The rule's runs, a minute apart, whatever their phase: one falls in the sixth minute after a write.\<close>

lemma cleanup_run_within:
  assumes "sf_every_ms (streamCleanupLambda tableName) = Some every"
  shows "\<exists>k. u + inactivity_threshold_ms < start + k * every \<and> start + k * every \<le> u + inactivity_threshold_ms + every"
proof -
  have every: "every = 60000" using assms by (simp add: streamCleanupLambda_def)
  define x where "x = u + inactivity_threshold_ms - start"
  have "x mod 60000 < 60000" "0 \<le> x mod 60000" by simp_all
  moreover have "x = x div 60000 * 60000 + x mod 60000" by simp
  ultimately have "x < (x div 60000 + 1) * 60000 \<and> (x div 60000 + 1) * 60000 \<le> x + 60000" by arith
  then show ?thesis by (intro exI [of _ "x div 60000 + 1"]) (simp add: every x_def)
qed

definition scan_active :: "table \<Rightarrow> item list outcome \<times> table" where
  "scan_active t = (Inr (List.filter (\<lambda>r. map_of r ''status'' = Some (S (js ''active''))) (map snd (rows t))), t)"

definition abandoned_table :: table where
  "abandoned_table =
     \<lparr>rows = [(5000, [(''port'', num 5000), (''kinesisOwnerInstanceId'', S (js ''a'')), (''status'', S (js ''active'')),
                (''lastPacketTime'', Iso 1700000000000)]),
              (6000, [(''port'', num 6000), (''kinesisOwnerInstanceId'', S (js ''b'')), (''status'', S (js ''active'')),
                (''lastPacketTime'', Iso 1700000290000)])],
      faults = [Retried]\<rparr>"

lemma cleanup_exact_witness:
  "(let t = snd (cleanup_handler table_send scan_active (\<lambda>k. 1700000360000)
        (env_of (streamCleanupLambda (js ''streams'')) (js ''TABLE_NAME'')) abandoned_table)
    in owner_of (table_item t 5000) = None)"
proof -
  let ?run = "cleanup_handler table_send scan_active (\<lambda>k. 1700000360000)
      (env_of (streamCleanupLambda (js ''streams'')) (js ''TABLE_NAME'')) abandoned_table"
  note eval = cleanup_handler_def scan_active_def abandoned_table_def env_of_def streamCleanupLambda_def cleanup_port_def
    num_def int_of_def time_of_def inactivity_threshold_ms_def table_item_def next_fault_def row_simps
    lease_of_def get_def table_write_def table_skip_def
  obtain res t where run: "?run = (Inr res, t)"
    by (simp add: eval Let_def updated_def cleanup_actions_def split: prod.splits)
  have scan: "scan_active abandoned_table = (Inr (map snd (rows abandoned_table)), abandoned_table)"
    by (simp add: scan_active_def abandoned_table_def)
  have "scanned (table_item abandoned_table) (map snd (rows abandoned_table))"
    by (simp add: scanned_def abandoned_table_def num_def int_of_def table_item_def)
  from cleanup_exact [OF dynamo_table _ scan refl this run, of 5000] show ?thesis
    by (simp add: run Let_def) (simp add: eval scanned_ports_def map_filter_def)
qed

lemma restart_environment:
  assumes "asgName \<noteq> []"
    and "restart_handler describe reboot (env_of (restartIngestionLambda asgName) (js ''AUTO_SCALING_GROUP_NAME'')) raw w = (Inl e, w')"
  shows "\<exists>v. json_parse (nullish raw []) = Some v"
  using restart_only_on_alarm [where describe = describe and reboot = reboot and asgName = "Some asgName" and raw = raw and w = w] assms
  by (simp add: env_of_def restartIngestionLambda_def)

end
