(* ===== verification/Startup.thy ===== *)
theory Startup
imports Ingest Traffic Transport UdpListener
begin

text \<open>
  The start of the whole service (\<open>start\<close> in \<open>backend/src/index.ts\<close>, with the identity from
  \<open>backend/src/InstanceId.ts\<close> and the port of \<open>backend/src/HealthServer.ts\<close>): the components composed
  in the order the program starts them. What surrounds the program - the credential providers,
  the metadata service, the sockets, the parameter store - is the record \<open>surroundings\<close>.

  Shown: whatever the SRTP side meets - an invalid configuration, no credentials, no keys, a store
  that cannot be reached - the unencrypted ports are bound and reported as serving; and when one of
  them cannot be bound the process ends before anything additive was begun.
\<close>

section \<open>Identity\<close>

text \<open>A response: whether its status is a success, and its text; a request that throws is \<open>Inl\<close>.\<close>

type_synonym http_response = "(bool \<times> js_string) outcome"

definition resolveInstanceId :: "js_string option \<Rightarrow> http_response \<Rightarrow> (js_string \<Rightarrow> http_response) \<Rightarrow> js_string" where
  "resolveInstanceId fromEnv tokenRes instanceRes =
     (if nullish fromEnv [] \<noteq> [] then nullish fromEnv []
      else
        (case tokenRes of
           Inr (True, token) \<Rightarrow>
             (case instanceRes token of
                Inr (True, body) \<Rightarrow> js_trim body
              | _ \<Rightarrow> js ''local'')
         | _ \<Rightarrow> js ''local''))"

section \<open>Start\<close>

record 'w surroundings =
  su_stack_name :: "js_string option"
  su_transport_env :: transport_env
  su_credentials :: "unit outcome"
  su_health_listens :: bool
  su_listens :: "int \<Rightarrow> nat \<Rightarrow> bool"
  su_sha256_hex :: "js_string \<Rightarrow> js_string"
  su_provider :: "'w \<Rightarrow> credentials outcome \<times> 'w"
  su_parameters :: "js_string list \<Rightarrow> 'w \<Rightarrow> ssm_parameter list outcome \<times> 'w"
  su_now :: int
  su_reset_api :: "unit outcome"

text \<open>The service's parts after the start, and the code the process has ended with.\<close>

record running =
  rn_exit :: "int option"
  rn_listener :: listener
  rn_traffic :: "traffic option"
  rn_transport :: "transport option"
  rn_reset_api :: bool

definition failed_start :: "listener \<Rightarrow> running" where
  "failed_start l = \<lparr>rn_exit = Some 1, rn_listener = l, rn_traffic = None, rn_transport = None, rn_reset_api = False\<rparr>"

definition resolveSrtpTransportConfig :: "transport_env \<Rightarrow> transport_settings option" where
  "resolveSrtpTransportConfig env =
     (case srtpTransportConfigFromEnv env of Inl e \<Rightarrow> None | Inr c \<Rightarrow> c)"

text \<open>The transport's calls on the metrics publisher it was given.\<close>

fun apply_metric :: "metric_call \<Rightarrow> traffic \<Rightarrow> traffic" where
  "apply_metric (SetServing b) tm = traffic_setServing srtp_transport b tm"
| "apply_metric (RecordReceived n) tm = recordReceived srtp_transport n tm"

definition start_srtp :: "'w surroundings \<Rightarrow> 'w \<Rightarrow> running \<Rightarrow> running" where
  "start_srtp su w rn =
     (case resolveSrtpTransportConfig (su_transport_env su) of
        None \<Rightarrow> rn
      | Some settings \<Rightarrow>
          (case transport_start (su_sha256_hex su) (su_provider su) (su_parameters su) settings (su_now su) new_transport w of
             (served, t, w') \<Rightarrow>
               rn\<lparr>rn_transport := Some t, rn_traffic := map_option (fold apply_metric (tp_metrics t)) (rn_traffic rn),
                  rn_reset_api := (served \<and> su_reset_api su = Inr ())\<rparr>))"

definition start_service :: "'w surroundings \<Rightarrow> 'w \<Rightarrow> running" where
  "start_service su w =
     (if su_credentials su \<noteq> Inr () \<or> \<not> su_health_listens su then failed_start new_listener
      else
        (case listener_start (su_listens su) 5000 5009 new_listener of
           (False, l) \<Rightarrow> failed_start l
         | (True, l) \<Rightarrow>
             start_srtp su w
               \<lparr>rn_exit = None, rn_listener = l,
                rn_traffic = Some (traffic_start (traffic_setServing unencrypted_transport True (new_traffic (su_stack_name su)))),
                rn_transport = None, rn_reset_api = False\<rparr>))"

section \<open>Properties\<close>

lemma apply_metric_fields:
  "map_of (tm_serving (fold apply_metric ms tm)) unencrypted_transport = map_of (tm_serving tm) unencrypted_transport"
  "tm_timer (fold apply_metric ms tm) = tm_timer tm" "tm_client (fold apply_metric ms tm) = tm_client tm"
proof -
  have other: "srtp_transport \<noteq> unencrypted_transport" by (simp add: srtp_transport_def unencrypted_transport_def)
  have one: "map_of (tm_serving (apply_metric m tm)) unencrypted_transport = map_of (tm_serving tm) unencrypted_transport"
    "tm_timer (apply_metric m tm) = tm_timer tm" "tm_client (apply_metric m tm) = tm_client tm" for m tm
    using other by (cases m; simp add: traffic_setServing_def recordReceived_def)+
  show "map_of (tm_serving (fold apply_metric ms tm)) unencrypted_transport = map_of (tm_serving tm) unencrypted_transport"
    "tm_timer (fold apply_metric ms tm) = tm_timer tm" "tm_client (fold apply_metric ms tm) = tm_client tm"
    by (induction ms arbitrary: tm) (simp_all add: one)
qed

lemma started_supervises: "transport_start sha provider ssm settings now new_transport w = (True, t, w') \<Longrightarrow> tp_states t \<noteq> []"
  by (auto simp: transport_start_def new_transport_def recomputeServing_def setServing_def Let_def
      split: prod.splits option.splits sum.splits if_splits)

lemma start_srtp_keeps:
  "rn_exit (start_srtp su w rn) = rn_exit rn" "rn_listener (start_srtp su w rn) = rn_listener rn"
  "rn_traffic rn = Some tm \<Longrightarrow> (\<exists>ms. rn_traffic (start_srtp su w rn) = Some (fold apply_metric ms tm))"
  "rn_reset_api rn = False \<Longrightarrow> rn_reset_api (start_srtp su w rn) \<Longrightarrow>
    (\<exists>t. rn_transport (start_srtp su w rn) = Some t \<and> tp_states t \<noteq> [])"
  by (auto simp: start_srtp_def started_supervises split: option.split prod.splits intro: exI [of _ "[]"])

text \<open>C29. The SRTP side never stops the unencrypted one. With credentials, the health port and ten ports
  that listen within their four attempts, the process runs with every unencrypted port bound,
  reported as serving and its metrics published - whatever the SRTP configuration, the credentials
  of its helpers, the parameter store and the reset API do - and the reset API only runs over a
  transport that supervises a port. Otherwise the process ends with code 1 before anything
  additive was started.\<close>

theorem srtp_never_stops_unencrypted:
  "(let rn = start_service su w in
    if su_credentials su = Inr () \<and> su_health_listens su \<and>
       list_all (\<lambda>p. list_ex (su_listens su p) [0, 1, 2, 3]) (getPortRange 5000 5009)
    then rn_exit rn = None \<and> set (getPortRange 5000 5009) \<subseteq> set (listener_ports (rn_listener rn)) \<and>
      (case rn_traffic rn of
         None \<Rightarrow> False
       | Some tm \<Rightarrow> map_of (tm_serving tm) unencrypted_transport = Some True \<and> tm_timer tm = tm_client tm) \<and>
      (if rn_reset_api rn then (case rn_transport rn of None \<Rightarrow> False | Some t \<Rightarrow> tp_states t \<noteq> []) else True)
    else rn_exit rn = Some 1 \<and> rn_traffic rn = None \<and> rn_transport rn = None \<and> \<not> rn_reset_api rn)"
proof -
  obtain bound l where l: "listener_start (su_listens su) 5000 5009 new_listener = (bound, l)" by fastforce
  define tm where "tm = traffic_start (traffic_setServing unencrypted_transport True (new_traffic (su_stack_name su)))"
  define rn where "rn = \<lparr>rn_exit = None, rn_listener = l, rn_traffic = Some tm, rn_transport = None, rn_reset_api = False\<rparr>"
  have bound: "bound \<longleftrightarrow> list_all (\<lambda>p. list_ex (su_listens su p) [0, 1, 2, 3]) (getPortRange 5000 5009)"
    using listener_start_iff [OF l] .
  have tm: "map_of (tm_serving tm) unencrypted_transport = Some True" "tm_timer tm = tm_client tm"
    by (simp_all add: tm_def traffic_start_def traffic_setServing_def new_traffic_def publish_def)
  show ?thesis
  proof (cases "su_credentials su = Inr () \<and> su_health_listens su \<and> bound")
    case True
    then have start: "start_service su w = start_srtp su w rn" by (simp add: start_service_def l rn_def tm_def)
    obtain ms where "rn_traffic (start_srtp su w rn) = Some (fold apply_metric ms tm)"
      using start_srtp_keeps(3) [of rn tm su w] by (auto simp: rn_def)
    moreover have "set (getPortRange 5000 5009) \<subseteq> set (listener_ports l)"
      using listener_start_bound [OF l] True by simp
    ultimately show ?thesis
      using True bound tm start_srtp_keeps(4) [of rn su w]
      by (auto simp: start Let_def start_srtp_keeps(1,2) apply_metric_fields rn_def)
  next
    case False
    then have "\<exists>l'. start_service su w = failed_start l'" by (auto simp: start_service_def l)
    then show ?thesis using False bound by (auto simp: failed_start_def Let_def)
  qed
qed

end
