(* ===== verification/Network.thy ===== *)
theory Network
imports Deployment Startup FloorReset
begin

text \<open>
  The network of the deployment (\<open>cdk/StreamingStack.ts\<close>) as the data it is: the rules of the
  security group, the target groups and listeners of the load balancer, the group of instances and
  its health checks; and the service's health port (\<open>backend/src/HealthServer.ts\<close>) and the listening
  of the floor reset API.

  Shown: the ports that a packet or a request from outside can reach are, in both directions, the
  ports the service listens on; each of them but the health port has one listener and one target group of
  its own; and every target group checks the health port.
\<close>

section \<open>The health port and the reset API's port\<close>

definition health_port :: int where "health_port = 9999"

definition srtp_floor_reset_port :: int where "srtp_floor_reset_port = 8080"

text \<open>Whether a server object is known, and the port that a server listens on, whether it is still known or
  not. The start of the health server resolves
  when it listens, and never otherwise; its stop closes the server and keeps the object.\<close>

record server =
  sr_known :: bool
  sr_port :: "int option"

definition no_server :: server where
  "no_server = \<lparr>sr_known = False, sr_port = None\<rparr>"

definition health_start :: "bool \<Rightarrow> unit option \<times> server" where
  "health_start listens =
     (if listens then (Some (), \<lparr>sr_known = True, sr_port = Some health_port\<rparr>)
      else (None, \<lparr>sr_known = True, sr_port = None\<rparr>))"

definition health_stop :: "server \<Rightarrow> server" where
  "health_stop s = (if \<not> sr_known s then s else s\<lparr>sr_port := None\<rparr>)"

text \<open>The port the reset API is asked to listen on, and the port it got; \<open>Inl\<close> when it cannot. Its stop
  forgets the server, also one that never listened.\<close>

definition reset_server_start :: "(int \<Rightarrow> int outcome) \<Rightarrow> int option \<Rightarrow> int outcome \<times> server" where
  "reset_server_start listen listenPort =
     (case listen (nullish listenPort srtp_floor_reset_port) of
        Inl e \<Rightarrow> (Inl e, \<lparr>sr_known = True, sr_port = None\<rparr>)
      | Inr p \<Rightarrow> (Inr p, \<lparr>sr_known = True, sr_port = Some p\<rparr>))"

definition reset_server_stop :: "server \<Rightarrow> server" where
  "reset_server_stop s = (if \<not> sr_known s then s else s\<lparr>sr_known := False, sr_port := None\<rparr>)"

text \<open>No server listens that is not known; every operation keeps that.\<close>

definition server_ok :: "server \<Rightarrow> bool" where
  "server_ok s \<longleftrightarrow> sr_known s \<or> sr_port s = None"

lemma servers_ok:
  "server_ok no_server" "server_ok (snd (health_start listens))" "server_ok (snd (reset_server_start listen p))"
  "server_ok s \<Longrightarrow> server_ok (health_stop s)" "server_ok s \<Longrightarrow> server_ok (reset_server_stop s)"
  by (auto simp: server_ok_def no_server_def health_start_def reset_server_start_def health_stop_def
      reset_server_stop_def split: sum.split)

lemma servers_stopped: "server_ok s \<Longrightarrow> sr_port (health_stop s) = None \<and> sr_port (reset_server_stop s) = None"
  by (auto simp: server_ok_def health_stop_def reset_server_stop_def)

section \<open>The security group\<close>

datatype ip_family = IPv4 | IPv6

datatype transport_protocol = Udp | Tcp

datatype peer = AnyIpv4 | AnyIpv6 | VpcCidr

record sg_rule =
  sr_peer :: peer
  sr_protocol :: transport_protocol
  sr_first :: int
  sr_final :: int

definition udp_range :: "peer \<Rightarrow> int \<Rightarrow> int \<Rightarrow> sg_rule" where
  "udp_range p first final = \<lparr>sr_peer = p, sr_protocol = Udp, sr_first = first, sr_final = final\<rparr>"

definition tcp_port :: "peer \<Rightarrow> int \<Rightarrow> sg_rule" where
  "tcp_port p port = \<lparr>sr_peer = p, sr_protocol = Tcp, sr_first = port, sr_final = port\<rparr>"

definition ingress_rules :: "sg_rule list" where
  "ingress_rules =
     [udp_range AnyIpv4 5000 5009, udp_range AnyIpv6 5000 5009,
      udp_range AnyIpv4 6000 6009, udp_range AnyIpv6 6000 6009,
      tcp_port VpcCidr 9999, tcp_port AnyIpv6 9999,
      tcp_port AnyIpv4 8080, tcp_port AnyIpv6 8080]"

definition egress_rules :: "sg_rule list" where
  "egress_rules = [tcp_port AnyIpv4 443, tcp_port AnyIpv4 80]"

text \<open>A remote end: its family, and for IPv4 whether its address is one of the network's own.\<close>

record remote =
  rm_family :: ip_family
  rm_in_vpc :: bool

fun peer_matches :: "peer \<Rightarrow> remote \<Rightarrow> bool" where
  "peer_matches AnyIpv4 r \<longleftrightarrow> rm_family r = IPv4"
| "peer_matches AnyIpv6 r \<longleftrightarrow> rm_family r = IPv6"
| "peer_matches VpcCidr r \<longleftrightarrow> rm_family r = IPv4 \<and> rm_in_vpc r"

definition allows :: "sg_rule list \<Rightarrow> remote \<Rightarrow> transport_protocol \<Rightarrow> int \<Rightarrow> bool" where
  "allows rules r proto port \<longleftrightarrow>
     list_ex (\<lambda>rule. peer_matches (sr_peer rule) r \<and> sr_protocol rule = proto \<and>
       sr_first rule \<le> port \<and> port \<le> sr_final rule) rules"

section \<open>Target groups and listeners\<close>

record health_check =
  hc_protocol :: transport_protocol
  hc_port :: int
  hc_healthy :: nat
  hc_unhealthy :: nat
  hc_interval_s :: nat
  hc_timeout_s :: nat

definition backend_health_check :: health_check where
  "backend_health_check =
     \<lparr>hc_protocol = Tcp, hc_port = 9999, hc_healthy = 2, hc_unhealthy = 2, hc_interval_s = 10, hc_timeout_s = 10\<rparr>"

text \<open>A target group; an attribute that the stack does not set is None, its default is the load balancer's.\<close>

record target_group =
  tg_id :: js_string
  tg_port :: int
  tg_protocol :: transport_protocol
  tg_family :: ip_family
  tg_health :: health_check
  tg_deregistration_s :: nat
  tg_preserve_client_ip :: "bool option"
  tg_stickiness :: "js_string option"

definition createTargetGroup :: "js_string \<Rightarrow> int \<Rightarrow> target_group" where
  "createTargetGroup ident port =
     \<lparr>tg_id = ident, tg_port = port, tg_protocol = Udp, tg_family = IPv6, tg_health = backend_health_check,
      tg_deregistration_s = 30, tg_preserve_client_ip = Some True, tg_stickiness = Some (js ''source_ip'')\<rparr>"

definition floorResetTargetGroup :: target_group where
  "floorResetTargetGroup =
     \<lparr>tg_id = js ''SrtpFloorResetTargetGroup'', tg_port = 8080, tg_protocol = Tcp, tg_family = IPv6,
      tg_health = backend_health_check, tg_deregistration_s = 30, tg_preserve_client_ip = None, tg_stickiness = None\<rparr>"

record nlb_listener =
  nl_id :: js_string
  nl_port :: int
  nl_protocol :: transport_protocol
  nl_target :: target_group

definition port_listener :: "js_string \<Rightarrow> js_string \<Rightarrow> int \<Rightarrow> nlb_listener" where
  "port_listener listenerPrefix groupPrefix port =
     \<lparr>nl_id = listenerPrefix @ int_string port, nl_port = port, nl_protocol = Udp,
      nl_target = createTargetGroup (groupPrefix @ int_string port) port\<rparr>"

definition ingest_listeners :: "nlb_listener list" where
  "ingest_listeners =
     map (port_listener (js ''UDPListener'') (js ''TargetGroup'')) unencryptedPorts @
     map (port_listener (js ''SrtpUDPListener'') (js ''SrtpTargetGroup'')) srtpPorts"

definition stack_listeners :: "nlb_listener list" where
  "stack_listeners =
     ingest_listeners @
     [\<lparr>nl_id = js ''SrtpFloorResetListener'', nl_port = 8080, nl_protocol = Tcp, nl_target = floorResetTargetGroup\<rparr>]"

section \<open>The instances\<close>

record scaling_group =
  ag_min :: nat
  ag_max :: nat
  ag_batch :: nat
  ag_min_in_service :: nat
  ag_pause_s :: nat
  ag_targets :: "target_group list"
  ag_elb_health :: bool
  ag_grace_s :: nat

definition autoScalingGroup :: scaling_group where
  "autoScalingGroup =
     \<lparr>ag_min = 2, ag_max = 10, ag_batch = 1, ag_min_in_service = 1, ag_pause_s = 5 * 60,
      ag_targets = map nl_target stack_listeners, ag_elb_health = True, ag_grace_s = 5 * 60\<rparr>"

text \<open>The subnets of at most two of the zones the stack is given; the first of them is used, and it is an
  error when there is none.\<close>

definition stack_zones :: "js_string list option \<Rightarrow> js_string list" where
  "stack_zones zones = take 2 (nullish zones [])"

definition primarySubnet :: "js_string list \<Rightarrow> js_string outcome" where
  "primarySubnet publicSubnets =
     (case publicSubnets of [] \<Rightarrow> Inl (js ''No public subnets available'') | s # _ \<Rightarrow> Inr s)"

section \<open>What the service listens on\<close>

text \<open>The unencrypted ports, the SRTP ports that its configuration names, the reset API and the health
  port.\<close>

definition service_ports :: "transport_settings \<Rightarrow> (transport_protocol \<times> int) list" where
  "service_ports ts =
     map (Pair Udp) (getPortRange 5000 5009) @ map (Pair Udp) (ports_of (ts_range ts)) @
     [(Tcp, srtp_floor_reset_port), (Tcp, health_port)]"

lemma allows_ingress:
  "allows ingress_rules r proto port \<longleftrightarrow>
     (proto = Udp \<and> (5000 \<le> port \<and> port \<le> 5009 \<or> 6000 \<le> port \<and> port \<le> 6009)) \<or>
     (proto = Tcp \<and> (port = 8080 \<or> port = 9999 \<and> (rm_family r = IPv6 \<or> rm_in_vpc r)))"
  by (cases "rm_family r") (auto simp: allows_def ingress_rules_def udp_range_def tcp_port_def)

section \<open>Properties\<close>

text \<open>C30. The network is closed but for the service: the security group lets in from anywhere exactly the
  ports the service started by the stack listens on - the health port only from the network
  itself, or over IPv6 - and every one of them but the health port has one listener, which
  forwards to a group of its own, on the same port and protocol, over IPv6, without changing the sender's
  protocol. Outward it opens connections only to web ports over IPv4. All target groups are attached to the
  instances, and the check that each of them asks for is a connection to the health port, never to
  a port of a transport. (What else the group of instances takes for their health is its own affair.)\<close>

theorem network_serves_exactly:
  "(case srtpTransportConfigFromEnv (stack_transport_env stackName) of
      Inr (Some ts) \<Rightarrow>
        (let ports = service_ports ts in
         (\<forall>r proto port. allows ingress_rules r proto port \<longleftrightarrow>
            (if (proto, port) = (Tcp, health_port) then rm_family r = IPv6 \<or> rm_in_vpc r
             else (proto, port) \<in> set ports)) \<and>
         map (\<lambda>l. (nl_protocol l, nl_port l)) stack_listeners = butlast ports \<and> distinct ports \<and>
         list_all (\<lambda>l. tg_protocol (nl_target l) = nl_protocol l \<and> tg_port (nl_target l) = nl_port l \<and>
           tg_family (nl_target l) = IPv6) stack_listeners \<and>
         distinct (map nl_id stack_listeners) \<and> distinct (map (\<lambda>l. tg_id (nl_target l)) stack_listeners) \<and>
         (\<forall>r proto port. allows egress_rules r proto port \<longleftrightarrow> rm_family r = IPv4 \<and> proto = Tcp \<and> port \<in> {80, 443}) \<and>
         ag_targets autoScalingGroup = map nl_target stack_listeners \<and>
         list_all (\<lambda>t. hc_protocol (tg_health t) = Tcp \<and> hc_port (tg_health t) = health_port) (ag_targets autoScalingGroup))
    | _ \<Rightarrow> False)"
proof -
  define ts where "ts = \<lparr>ts_prefix = js ''/'' @ stackName @ js ''/srtp/port'', ts_range = \<lparr>pr_start = 6000, pr_end = 6009\<rparr>\<rparr>"
  have unencrypted: "getPortRange 5000 5009 = unencryptedPorts"
    by (simp add: getPortRange_def unencryptedPorts_def stack_port_range_def)
  have ports: "service_ports ts = map (Pair Udp) unencryptedPorts @ map (Pair Udp) srtpPorts @
      [(Tcp, srtp_floor_reset_port), (Tcp, health_port)]"
    by (simp add: service_ports_def ts_def unencrypted stack_srtp_ports)
  have "allows ingress_rules r proto port \<longleftrightarrow>
      (if (proto, port) = (Tcp, health_port) then rm_family r = IPv6 \<or> rm_in_vpc r
       else (proto, port) \<in> set (service_ports ts))" for r proto port
    by (auto simp: allows_ingress ports unencryptedPorts_def srtpPorts_def in_stack_port_range
        health_port_def srtp_floor_reset_port_def)
  moreover have "map (\<lambda>l. (nl_protocol l, nl_port l)) stack_listeners = butlast (service_ports ts)"
    by (simp add: ports butlast_append stack_listeners_def ingest_listeners_def port_listener_def
        srtp_floor_reset_port_def)
  moreover have "distinct (service_ports ts)"
    by (simp add: ports stack_ports srtp_floor_reset_port_def health_port_def)
  moreover have "list_all (\<lambda>l. tg_protocol (nl_target l) = nl_protocol l \<and> tg_port (nl_target l) = nl_port l \<and>
      tg_family (nl_target l) = IPv6) stack_listeners"
    by (auto simp: stack_listeners_def ingest_listeners_def list_all_iff port_listener_def createTargetGroup_def
        floorResetTargetGroup_def)
  moreover have "distinct (map nl_id stack_listeners)" "distinct (map (\<lambda>l. tg_id (nl_target l)) stack_listeners)"
    by (simp_all add: stack_listeners_def ingest_listeners_def port_listener_def createTargetGroup_def
        floorResetTargetGroup_def stack_ports js_Cons)
  moreover have "allows egress_rules r proto port \<longleftrightarrow> rm_family r = IPv4 \<and> proto = Tcp \<and> port \<in> {80, 443}" for r proto port
    by (auto simp: allows_def egress_rules_def tcp_port_def)
  moreover have "list_all (\<lambda>t. hc_protocol (tg_health t) = Tcp \<and> hc_port (tg_health t) = health_port) (ag_targets autoScalingGroup)"
    by (auto simp: autoScalingGroup_def stack_listeners_def ingest_listeners_def list_all_iff
        port_listener_def createTargetGroup_def floorResetTargetGroup_def backend_health_check_def health_port_def)
  moreover have "ag_targets autoScalingGroup = map nl_target stack_listeners" by (simp add: autoScalingGroup_def)
  ultimately show ?thesis by (simp add: stack_transport_config ts_def [symmetric] Let_def)
qed

end
