(* ===== verification/Shutdown.thy ===== *)
theory Shutdown
imports Startup Network
begin

text \<open>
  The shutdown of the whole service (\<open>shutdown\<close> in \<open>backend/src/index.ts\<close>), which composes the stops of
  its parts in the order the program has them: health server, unencrypted ports, streams, reset
  API, SRTP transport, traffic metrics, locks, pipelines. What CloudWatch and the lock table
  answer are parameters.

  Shown: a shutdown leaves no port open but through sockets that had been replaced after an error, and no
  publish behind; every byte that was ever recorded has
  been published when CloudWatch accepts what is left; and the last request a service sends
  whose SRTP side was ever ready claims that it serves.
\<close>

section \<open>The publish chain at its end\<close>

text \<open>The stop of the metrics awaits its own link of the chain, and with it all links before. The
  events of that: the answer to the request in flight, if any, then link after link with its time
  and its answer.\<close>

primrec link_events :: "nat \<Rightarrow> (nat \<Rightarrow> int \<times> cloudwatch_answer) \<Rightarrow> traffic_event list" where
  "link_events 0 links = []"
| "link_events (Suc n) links = NextLink (fst (links 0)) # Answered (snd (links 0)) # link_events n (\<lambda>i. links (Suc i))"

definition chain_events :: "(nat \<Rightarrow> int \<times> cloudwatch_answer) \<Rightarrow> traffic \<Rightarrow> traffic_event list" where
  "chain_events links s = Answered (snd (links 0)) # link_events (tm_chain s) (\<lambda>i. links (Suc i))"

definition metrics_stopped :: "(nat \<Rightarrow> int \<times> cloudwatch_answer) \<Rightarrow> traffic \<Rightarrow> traffic" where
  "metrics_stopped links s = fold traffic_step (chain_events links (traffic_stop s)) (traffic_stop s)"

section \<open>Shutdown\<close>

record process =
  ps_health :: server
  ps_reset :: server
  ps_running :: running
  ps_service :: service

text \<open>The calls on the metrics that a stop of the transport adds.\<close>

definition stop_metrics :: "transport \<Rightarrow> metric_call list" where
  "stop_metrics t = drop (length (tp_metrics t)) (tp_metrics (transport_stop t))"

text \<open>The exit code, the process as it ends, and the transport and the metrics publisher as their stops leave
  them, which the process has then forgotten. The steps run one after the other with nothing in
  between. Of the stops only the release of a lock throws.\<close>

definition shutdown_process ::
  "service_config \<Rightarrow> (nat \<Rightarrow> int \<times> cloudwatch_answer) \<Rightarrow> (int \<Rightarrow> unit outcome) \<Rightarrow> process \<Rightarrow>
    int \<times> process \<times> transport option \<times> traffic option"
where
  "shutdown_process c links answers p =
     (let rn = ps_running p;
          tm = (case rn_transport rn of
                  None \<Rightarrow> rn_traffic rn
                | Some t \<Rightarrow> map_option (fold apply_metric (stop_metrics t)) (rn_traffic rn));
          (code, s) = service_shutdown c answers (ps_service p)
      in (code,
          p\<lparr>ps_health := health_stop (ps_health p), ps_reset := reset_server_stop (ps_reset p),
            ps_running := rn\<lparr>rn_exit := Some code, rn_listener := snd (listener_stop (rn_listener rn)),
              rn_reset_api := False, rn_transport := None, rn_traffic := None\<rparr>,
            ps_service := s\<rparr>,
          map_option transport_stop (rn_transport rn),
          map_option (metrics_stopped links) tm))"

text \<open>The ports of the sockets that are open, whether the process knows them or not.\<close>

definition open_ports :: "process \<Rightarrow> int list" where
  "open_ports p =
     open_sockets (rn_listener (ps_running p)) @ List.map_filter sr_port [ps_health p, ps_reset p]"

section \<open>The chain runs to its end\<close>

lemma link_fields:
  "tm_timer (fold traffic_step (link_events n links) s) = tm_timer s"
  "tm_client (fold traffic_step (link_events n links) s) = tm_client s"
  "tm_serving (fold traffic_step (link_events n links) s) = tm_serving s"
  "tm_stack (fold traffic_step (link_events n links) s) = tm_stack s"
  by (induction n arbitrary: links s)
    (simp_all add: publish_begin_def publish_end_def Let_def split: option.split)

lemma one_link:
  "tm_in_flight s = None \<Longrightarrow> tm_chain s = Suc n \<Longrightarrow>
    tm_in_flight (traffic_step (Answered a) (traffic_step (NextLink at) s)) = None \<and>
    tm_chain (traffic_step (Answered a) (traffic_step (NextLink at) s)) = n"
  by (simp add: publish_begin_def publish_end_def Let_def)

lemma links_settle:
  "tm_in_flight s = None \<Longrightarrow> tm_chain s = n \<Longrightarrow>
    tm_in_flight (fold traffic_step (link_events n links) s) = None \<and>
    tm_chain (fold traffic_step (link_events n links) s) = 0"
proof (induction n arbitrary: links s)
  case (Suc n)
  let ?s = "traffic_step (Answered (snd (links 0))) (traffic_step (NextLink (fst (links 0))) s)"
  have "tm_in_flight ?s = None \<and> tm_chain ?s = n" by (rule one_link) (use Suc.prems in simp_all)
  then show ?case using Suc.IH [of ?s "\<lambda>i. links (Suc i)"] by (simp del: traffic_step.simps)
qed simp

lemma answered_fields:
  "tm_in_flight (traffic_step (Answered a) s) = None"
  "tm_chain (traffic_step (Answered a) s) = tm_chain s" "tm_timer (traffic_step (Answered a) s) = tm_timer s"
  "tm_client (traffic_step (Answered a) s) = tm_client s" "tm_serving (traffic_step (Answered a) s) = tm_serving s"
  by (simp_all add: publish_end_def Let_def split: option.split)

lemma metrics_stopped_settled:
  "tm_in_flight (metrics_stopped links s) = None \<and> tm_chain (metrics_stopped links s) = 0 \<and>
    \<not> tm_timer (metrics_stopped links s)"
  using links_settle [of "traffic_step (Answered (snd (links 0))) (traffic_stop s)" "tm_chain (traffic_stop s)" "\<lambda>i. links (Suc i)"]
  by (simp add: metrics_stopped_def chain_events_def answered_fields link_fields del: traffic_step.simps)
    (simp add: traffic_stop_def publish_def)

text \<open>The last link, when it is accepted, clears the counts and sends what the serving flags are.\<close>

lemma accepted_link:
  "tm_in_flight s = None \<Longrightarrow> tm_chain s = Suc n \<Longrightarrow> tm_client s \<Longrightarrow>
    traffic_step (Answered Accepted) (traffic_step (NextLink at) s) =
    s\<lparr>tm_chain := n, tm_received := map (\<lambda>(t, b). (t, 0)) (tm_received s),
      tm_landed := tm_landed s @ [trafficMetricRequest (snapshot at s) (tm_stack s)], tm_in_flight := None,
      tm_publish_count := Suc (tm_publish_count s)\<rparr>"
  by (simp add: publish_begin_def publish_end_def snapshot_def Let_def)

definition cleared :: "traffic \<Rightarrow> bool" where
  "cleared s \<longleftrightarrow> list_all (\<lambda>(t, b). b = 0) (tm_received s)"

lemma links_accepted:
  "tm_in_flight s = None \<Longrightarrow> tm_chain s = Suc n \<Longrightarrow> tm_client s \<Longrightarrow> (\<And>i. snd (links i) = Accepted) \<Longrightarrow>
    cleared (fold traffic_step (link_events (Suc n) links) s) \<and>
    (\<exists>at s1. last (tm_landed (fold traffic_step (link_events (Suc n) links) s)) =
        trafficMetricRequest (snapshot at s1) (tm_stack s) \<and>
      tm_serving s1 = tm_serving s \<and> map fst (tm_received s1) = map fst (tm_received s))"
proof (induction n arbitrary: links s)
  case 0
  have "fold traffic_step (link_events (Suc 0) links) s =
      traffic_step (Answered Accepted) (traffic_step (NextLink (fst (links 0))) s)"
    by (simp only: link_events.simps fold_simps 0)
  then show ?case
    unfolding accepted_link [OF 0(1-3)] by (auto simp: cleared_def list_all_iff)
next
  case (Suc n)
  let ?s = "traffic_step (Answered Accepted) (traffic_step (NextLink (fst (links 0))) s)"
  note eq = accepted_link [OF Suc.prems(1-3), of "fst (links 0)"]
  have "fold traffic_step (link_events (Suc (Suc n)) links) s = fold traffic_step (link_events (Suc n) (\<lambda>i. links (Suc i))) ?s"
    by (simp only: link_events.simps fold_simps Suc.prems)
  moreover have "tm_in_flight ?s = None" "tm_chain ?s = Suc n" "tm_client ?s" "tm_serving ?s = tm_serving s"
    "tm_stack ?s = tm_stack s" "map fst (tm_received ?s) = map fst (tm_received s)"
    unfolding eq using Suc.prems(3) by (simp_all add: comp_def case_prod_beta)
  ultimately show ?case using Suc.IH [of ?s "\<lambda>i. links (Suc i)"] Suc.prems(4) by (simp only: simp_thms)
qed

section \<open>What the transport's stop reports\<close>

lemma stop_ports_metrics: "\<exists>bs. tp_metrics (fold (\<lambda>p. onTransition p Terminated) ps t) = tp_metrics t @ map SetServing bs"
proof (induction ps arbitrary: t)
  case (Cons p ps)
  have "\<exists>bs. tp_metrics (onTransition p Terminated t) = tp_metrics t @ map SetServing bs"
    by (auto simp: onTransition_def onSupervisorTransition_def recomputeServing_def setServing_def Let_def
        intro: exI [of _ "[]"] exI [of _ "[b]" for b])
  moreover obtain cs where "tp_metrics (fold (\<lambda>p. onTransition p Terminated) ps (onTransition p Terminated t)) =
      tp_metrics (onTransition p Terminated t) @ map SetServing cs" using Cons.IH by blast
  ultimately show ?case by (auto simp flip: map_append)
qed (auto intro: exI [of _ "[]"])

lemma stop_metrics: "tp_metrics (transport_stop t) = tp_metrics t @ stop_metrics t" "\<exists>bs. stop_metrics t = map SetServing (False # bs)"
proof -
  obtain bs where bs: "tp_metrics (transport_stop t) = tp_metrics t @ SetServing False # map SetServing bs"
    using stop_ports_metrics [of _ "setServing False t"]
    by (auto simp: transport_stop_def stop_ports_def setServing_def)
  then show "tp_metrics (transport_stop t) = tp_metrics t @ stop_metrics t" by (simp add: stop_metrics_def)
  have "stop_metrics t = map SetServing (False # bs)" using bs by (simp add: stop_metrics_def)
  then show "\<exists>bs. stop_metrics t = map SetServing (False # bs)" by blast
qed

lemma serving_flags: "serving b (map SetServing (x # xs)) = serving b' (map SetServing (x # xs))"
  by simp

lemma stop_metrics_serving:
  assumes "tp_ever_ready t \<noteq> []" and "List.filter (\<lambda>(port, state). state \<noteq> Terminated) (tp_states t) \<noteq> []"
  shows "serving b (stop_metrics t) = Some True"
proof -
  obtain bs where bs: "stop_metrics t = map SetServing (False # bs)" using stop_metrics(2) by blast
  have "serving b (tp_metrics t @ stop_metrics t) = Some True"
    unfolding stop_metrics(1) [symmetric] by (rule stop_leaves_serving_reported [OF assms])
  then show ?thesis unfolding serving_append bs by (simp only: serving_flags [of "serving b (tp_metrics t)" _ _ b])
qed

lemma serving_applied:
  "map_of (tm_serving (fold apply_metric ms tm)) srtp_transport = serving (map_of (tm_serving tm) srtp_transport) ms"
proof (induction ms arbitrary: tm)
  case (Cons m ms)
  then show ?case by (cases m) (simp_all add: traffic_setServing_def recordReceived_def)
qed simp

lemma serving_events: "fold apply_metric (map SetServing bs) tm = fold traffic_step (map (ServingIs srtp_transport) bs) tm"
  by (induction bs arbitrary: tm) simp_all

lemma nothing_recorded:
  "recorded t (map (ServingIs x) bs) = 0" "recorded t (link_events n links) = 0"
  by (induction bs) (simp_all, induction n arbitrary: links, simp_all)

lemma recorded_append: "recorded t (xs @ ys) = recorded t xs + recorded t ys"
proof (induction xs)
  case (Cons e xs)
  then show ?case by (cases e) simp_all
qed simp

lemma none_lost: "(\<And>i. snd (links i) = Accepted) \<Longrightarrow> Answered LostAnswer \<notin> set (link_events n links)"
  by (induction n arbitrary: links) auto

lemma client_kept:
  "tm_client (fold traffic_step es s) = tm_client s" "tm_stack (fold traffic_step es s) = tm_stack s"
proof -
  have "tm_client (traffic_step e s) = tm_client s \<and> tm_stack (traffic_step e s) = tm_stack s" for e s
    by (cases e) (simp_all add: traffic_start_def traffic_stop_def publish_def traffic_setServing_def recordReceived_def
        publish_begin_def publish_end_def Let_def split: option.split)
  then show "tm_client (fold traffic_step es s) = tm_client s" "tm_stack (fold traffic_step es s) = tm_stack s"
    by (induction es arbitrary: s) simp_all
qed

text \<open>The publisher at the end of a shutdown is one that ran on: the flags, the stop, the chain.\<close>

definition final_events :: "(nat \<Rightarrow> int \<times> cloudwatch_answer) \<Rightarrow> bool list \<Rightarrow> traffic \<Rightarrow> traffic_event list" where
  "final_events links bs tm =
     (let es = map (ServingIs srtp_transport) bs in
      es @ StopTraffic # chain_events links (traffic_stop (fold traffic_step es tm)))"

lemma metrics_stopped_run:
  "metrics_stopped links (fold apply_metric (map SetServing bs) tm) = fold traffic_step (final_events links bs tm) tm"
  by (simp add: metrics_stopped_def final_events_def serving_events Let_def)

lemma final_events_recorded: "recorded t (final_events links bs tm) = 0"
  by (simp add: final_events_def Let_def recorded_append nothing_recorded chain_events_def)

lemma final_events_none_lost:
  "(\<And>i. snd (links i) = Accepted) \<Longrightarrow> Answered LostAnswer \<notin> set (final_events links bs tm)"
  using none_lost [of "\<lambda>i. links (Suc i)"] by (auto simp: final_events_def Let_def chain_events_def)

lemma metrics_stopped_accepted:
  assumes "tm_client tm" and "\<And>i. snd (links i) = Accepted"
  shows "cleared (metrics_stopped links tm)"
    and "\<exists>at s1. last (tm_landed (metrics_stopped links tm)) = trafficMetricRequest (snapshot at s1) (tm_stack tm) \<and>
      tm_serving s1 = tm_serving tm \<and>
      map fst (tm_received s1) = map fst (tm_received (traffic_step (Answered (snd (links 0))) (traffic_stop tm)))"
proof -
  let ?s = "traffic_step (Answered (snd (links 0))) (traffic_stop tm)"
  have chain: "tm_chain (traffic_stop tm) = Suc (tm_chain tm)" "tm_serving (traffic_stop tm) = tm_serving tm"
    "tm_client (traffic_stop tm) = tm_client tm" by (simp_all add: traffic_stop_def publish_def)
  have stack: "tm_stack ?s = tm_stack tm" using client_kept(2) [of "[StopTraffic, Answered (snd (links 0))]" tm] by simp
  have fields: "tm_in_flight ?s = None" "tm_chain ?s = Suc (tm_chain tm)" "tm_client ?s" "tm_serving ?s = tm_serving tm"
    by (simp_all only: answered_fields chain assms(1))
  have eq: "metrics_stopped links tm = fold traffic_step (link_events (Suc (tm_chain tm)) (\<lambda>i. links (Suc i))) ?s"
    by (simp only: metrics_stopped_def chain_events_def chain fold_simps)
  from links_accepted [OF fields(1-3), of "\<lambda>i. links (Suc i)"] assms(2) show "cleared (metrics_stopped links tm)"
    and "\<exists>at s1. last (tm_landed (metrics_stopped links tm)) = trafficMetricRequest (snapshot at s1) (tm_stack tm) \<and>
      tm_serving s1 = tm_serving tm \<and> map fst (tm_received s1) = map fst (tm_received ?s)"
    unfolding eq fields(4) stack by simp_all
qed

lemma cleared_counted: "cleared s \<Longrightarrow> tm_in_flight s = None \<Longrightarrow> counted t s = 0"
proof -
  have "list_all (\<lambda>(t, b). b = 0) m \<Longrightarrow> nullish (map_of m t) (0 :: int) = 0" for m :: "(js_string, int) js_map"
    by (induction m) auto
  then show "cleared s \<Longrightarrow> tm_in_flight s = None \<Longrightarrow> counted t s = 0"
    by (simp add: cleared_def counted_def sampled_def)
qed

lemma release_locks_buffers: "release_locks answers ports s = (ok, s') \<Longrightarrow> sv_buffers s' = sv_buffers s"
  by (induction answers ports s rule: release_locks.induct) (auto simp: Let_def asked_def split: sum.splits)

section \<open>Properties\<close>

text \<open>C33. A shutdown of the whole service, whatever its listener has been through and whatever state its other
  parts are in. The servers of the health port and of the reset API no longer listen, and of the sockets ever
  bound to the unencrypted ports only those are still open whose port was bound a second time after
  an error - so none if no bound socket failed, and then no port is open. The transport has no port and
  no key left, and no publish of the metrics is pending or under way. Every lock held is asked to be released, in
  order; if all are, the process ends with code 0, no lock held and no pipeline left, and if one
  release throws it ends with code 1 at once, its locks and pipelines as they were. A server of
  which there is no object does not listen.\<close>

theorem whole_shutdown:
  assumes "rn_listener (ps_running p) = listener_run binds" and "server_ok (ps_health p)" and "server_ok (ps_reset p)"
  shows "(case shutdown_process c links answers p of
      (code, p', stopped, final) \<Rightarrow>
        (let ok = list_all (\<lambda>port. answers port = Inr ()) (sv_held (ps_service p))
         in code = (if ok then 0 else 1) \<and> rn_exit (ps_running p') = Some code \<and>
            open_ports p' = superseded (map fst (ul_bound (rn_listener (ps_running p)))) \<and>
            (case binds of [Bind listens first final] \<Rightarrow> open_ports p' = [] | _ \<Rightarrow> True) \<and>
            listener_ports (rn_listener (ps_running p')) = [] \<and> sv_buffers (ps_service p') = [] \<and>
            (case stopped of None \<Rightarrow> rn_transport (ps_running p) = None | Some t \<Rightarrow> tp_states t = [] \<and> tp_keys t = []) \<and>
            (case final of
               None \<Rightarrow> rn_traffic (ps_running p) = None
             | Some tm \<Rightarrow> \<not> tm_timer tm \<and> tm_chain tm = 0 \<and> tm_in_flight tm = None) \<and>
            (if ok then sv_held (ps_service p') = [] \<and>
               sv_effects (ps_service p') = sv_effects (ps_service p) @ map AskedRelease (sv_held (ps_service p)) \<and>
               (if sc_enabled c then pl_active (sv_pipes (ps_service p')) = [] else True)
             else sv_held (ps_service p') = sv_held (ps_service p) \<and> sv_pipes (ps_service p') = sv_pipes (ps_service p))))"
proof -
  let ?s = "ps_service p" let ?cleared = "?s\<lparr>sv_streams := streams_stop (sv_streams ?s), sv_buffers := []\<rparr>"
  obtain ok s1 where r: "release_locks answers (sv_held ?cleared) ?cleared = (ok, s1)" by fastforce
  have buffers: "sv_buffers s1 = []" using release_locks_buffers [OF r] by simp
  have left: "case map_option (metrics_stopped links) tm of
      None \<Rightarrow> tm = None | Some tm' \<Rightarrow> \<not> tm_timer tm' \<and> tm_chain tm' = 0 \<and> tm_in_flight tm' = None" for tm
    using metrics_stopped_settled by (cases tm) simp_all
  obtain code p' stopped final where eq: "shutdown_process c links answers p = (code, p', stopped, final)"
    by (cases "shutdown_process c links answers p")
  have closed: "open_ports p' = superseded (map fst (ul_bound (rn_listener (ps_running p))))"
    using stop_closes [OF listener_run_inv [of binds]] servers_stopped [OF assms(2)] servers_stopped [OF assms(3)] eq
    by (auto simp: shutdown_process_def open_ports_def assms(1) Let_def List.map_filter_simps case_prod_beta)
  have none: "case binds of [Bind listens first final] \<Rightarrow> open_ports p' = [] | _ \<Rightarrow> True"
    by (auto simp: closed assms(1) started_closes split: list.split listener_event.split)
  have parts: "listener_ports (rn_listener (ps_running p')) = []" "rn_exit (ps_running p') = Some code"
    "case stopped of None \<Rightarrow> rn_transport (ps_running p) = None | Some t \<Rightarrow> tp_states t = [] \<and> tp_keys t = []"
    "case final of None \<Rightarrow> rn_traffic (ps_running p) = None
     | Some tm \<Rightarrow> \<not> tm_timer tm \<and> tm_chain tm = 0 \<and> tm_in_flight tm = None"
    "(code, ps_service p') = service_shutdown c answers ?s"
    using eq left [of "case rn_transport (ps_running p) of None \<Rightarrow> rn_traffic (ps_running p)
      | Some t \<Rightarrow> map_option (fold apply_metric (stop_metrics t)) (rn_traffic (ps_running p))"]
    by (auto simp: shutdown_process_def Let_def listener_stop_def listener_ports_def js_keys_def transport_stop_def
        case_prod_beta split: option.splits)
  show ?thesis
    using release_locks_result [OF r] r buffers parts(5)
    by (simp add: eq closed [symmetric] none parts(1-4) Let_def)
      (auto simp: service_shutdown_def Let_def stopAll_empties split: if_splits)
qed

lemma one_flag:
  assumes "distinct (map fst (tm_received s))" and "t \<in> set (map fst (tm_received s))"
  shows "reports serving_metric t (trafficMetricRequest (snapshot at s) stack) =
    [if nullish (map_of (tm_serving s) t) False then 1 else 0]"
proof -
  have "distinct (map fst m) \<Longrightarrow> t \<in> set (map fst m) \<Longrightarrow>
      map sa_serving (samples_of t (map (\<lambda>(k, b). \<lparr>sa_transport = k, sa_bytes = b, sa_serving = f k, sa_at = at\<rparr>) m)) = [f t]"
    for f and m :: "(js_string \<times> int) list"
  proof (induction m)
    case (Cons x m)
    have "t \<notin> set (map fst m) \<Longrightarrow>
        samples_of t (map (\<lambda>(k, b). \<lparr>sa_transport = k, sa_bytes = b, sa_serving = f k, sa_at = at\<rparr>) m) = []"
      by (induction m) (auto simp: samples_of_def)
    then show ?case using Cons by (cases x) (auto simp: samples_of_def)
  qed simp
  from this [OF assms, of "\<lambda>k. if nullish (map_of (tm_serving s) k) False then 1 else 0"] show ?thesis
    by (simp add: reports_request snapshot_def)
qed

text \<open>C39. The last report of a service with a stack name that is shut down, with an SRTP transport or without
  one, when CloudWatch accepts what it is sent: every
  byte ever recorded has been published - exactly once if no earlier answer was lost - and nothing
  is left uncounted. (Without a stack name nothing is ever published.) But if a helper was ever ready and a
  port had not given up, its last word is
  that SRTP serves: the transport's stop publishes the value anew after it has set it to false.\<close>

theorem last_report:
  assumes "rn_traffic (ps_running p) = Some (traffic_run (Some stackName) events)" and "stackName \<noteq> []"
    and "snd \<circ> links = (\<lambda>i. Accepted)"
  shows "(case shutdown_process c links answers p of
      (code, p', stopped, Some tm) \<Rightarrow>
        recorded transport events \<le> published transport tm \<and> counted transport tm = 0 \<and>
        (if Answered LostAnswer \<in> set events then True else published transport tm = recorded transport events) \<and>
        (case rn_transport (ps_running p) of
           None \<Rightarrow> True
         | Some t \<Rightarrow>
             (if tp_ever_ready t \<noteq> [] \<and> List.filter (\<lambda>(port, state). state \<noteq> Terminated) (tp_states t) \<noteq> []
              then reports serving_metric srtp_transport (last (tm_landed tm)) = [1] else True))
    | _ \<Rightarrow> False)"
proof -
  let ?run = "traffic_run (Some stackName) events"
  have "\<exists>bs. (case rn_transport (ps_running p) of None \<Rightarrow> [] | Some t \<Rightarrow> stop_metrics t) = map SetServing bs"
    using stop_metrics(2) by (metis list.simps(8) option.case(1,2) not_None_eq)
  then obtain bs where bs: "(case rn_transport (ps_running p) of None \<Rightarrow> [] | Some t \<Rightarrow> stop_metrics t) = map SetServing bs" ..
  let ?stopped = "fold apply_metric (map SetServing bs) ?run"
  define tm where "tm = metrics_stopped links ?stopped"
  have shutdown: "\<exists>code p' t'. shutdown_process c links answers p = (code, p', t', Some tm)"
    using assms(1) bs by (cases "rn_transport (ps_running p)")
      (simp_all add: shutdown_process_def tm_def Let_def case_prod_beta)
  have accepted: "snd (links i) = Accepted" for i using assms(3) by (metis comp_apply)
  have final: "tm = fold traffic_step (events @ final_events links bs ?run) (new_traffic (Some stackName))"
    by (simp add: tm_def metrics_stopped_run traffic_run_def)
  then have tm_eq: "fold traffic_step (final_events links bs ?run) (fold traffic_step events (new_traffic (Some stackName))) = tm"
    by simp
  have client: "tm_client ?stopped"
    using assms(2) by (simp add: serving_events client_kept traffic_run_def) (simp add: new_traffic_def)
  have counted: "counted transport tm = 0"
    using metrics_stopped_accepted(1) [where links = links, OF client accepted] metrics_stopped_settled by (simp add: tm_def cleared_counted)
  have "recorded transport (events @ final_events links bs ?run) = recorded transport events"
    by (simp add: recorded_append final_events_recorded)
  moreover have "balance transport (new_traffic (Some stackName)) = 0"
    by (simp add: balance_def published_def counted_def new_traffic_def sampled_def nullish_def)
  ultimately have "recorded transport events \<le> published transport tm"
    "Answered LostAnswer \<notin> set events \<Longrightarrow> published transport tm = recorded transport events"
    using run_inv(2,3) [OF traffic_inv_new [of "Some stackName"], where t = transport and
        es = "events @ final_events links bs ?run"]
      counted final_events_none_lost [where links = links, OF accepted]
    by (simp_all add: tm_eq balance_def)
  moreover have "reports serving_metric srtp_transport (last (tm_landed tm)) = [1]"
    if "rn_transport (ps_running p) = Some t" and "tp_ever_ready t \<noteq> []"
      and "List.filter (\<lambda>(port, state). state \<noteq> Terminated) (tp_states t) \<noteq> []" for t
  proof -
    obtain at s1 where s1: "last (tm_landed tm) = trafficMetricRequest (snapshot at s1) (tm_stack ?stopped)"
      "tm_serving s1 = tm_serving ?stopped"
      "map fst (tm_received s1) = map fst (tm_received (traffic_step (Answered (snd (links 0))) (traffic_stop ?stopped)))"
      using metrics_stopped_accepted(2) [where links = links, OF client accepted] unfolding tm_def by blast
    have "traffic_inv (fold traffic_step (events @ map (ServingIs srtp_transport) bs @ [StopTraffic, Answered (snd (links 0))])
        (new_traffic (Some stackName)))"
      by (rule run_inv(1)) (rule traffic_inv_new)
    then have "distinct (map fst (tm_received s1))" "srtp_transport \<in> set (map fst (tm_received s1))"
      unfolding s1(3) by (simp_all add: serving_events traffic_run_def traffic_inv_def js_map_ok_def js_has_iff js_keys_def)
    moreover have "map_of (tm_serving s1) srtp_transport = Some True"
      using stop_metrics_serving [OF that(2,3)] bs that(1) by (simp add: s1(2) serving_applied)
    ultimately show ?thesis by (simp add: s1(1) one_flag)
  qed
  ultimately show ?thesis
    using counted shutdown by (auto split: option.split)
qed

definition sample_process :: process where
  "sample_process =
     \<lparr>ps_health = \<lparr>sr_known = True, sr_port = Some health_port\<rparr>, ps_reset = \<lparr>sr_known = True, sr_port = Some 8080\<rparr>,
      ps_running = \<lparr>rn_exit = None,
        rn_listener = listener_run [Bind (\<lambda>port attempt. True) 5000 5001, SocketFails (\<lambda>attempt. True) 5001 0],
        rn_traffic = Some (traffic_run (Some (js ''video'')) [StartTraffic, Recorded srtp_transport 100]),
        rn_transport = Some (onTransition 6000 Searching (new_transport\<lparr>tp_states := [(6000, Starting)]\<rparr>)),
        rn_reset_api = True\<rparr>,
      ps_service = new_service\<rparr>"

text \<open>Its port 5001 was bound twice, and stays open.\<close>

lemma whole_shutdown_witness:
  "(case shutdown_process (service_config_of (stack_service_env (js ''eu-west-1'') (js ''video'')) (\<lambda>t. True))
        (\<lambda>i. (60000 * int i, Accepted)) (\<lambda>port. Inr ()) sample_process of
      (code, p', stopped, final) \<Rightarrow> code = 0 \<and> open_ports p' = [5001])"
proof -
  have "getPortRange 5000 5001 = [5000, 5001]" by (simp add: getPortRange_def upt_rec)
  then have bound: "map fst (ul_bound (listener_run [Bind (\<lambda>port attempt. True) 5000 5001, SocketFails (\<lambda>attempt. True) 5001 0])) =
      [5000, 5001, 5001]"
    by (simp add: listener_run_def listener_start_def socket_error_def listening_def new_listener_def
        bind_max_retries_def eval_nat_numeral)
  show ?thesis
    using whole_shutdown [where p = sample_process and answers = "\<lambda>port. Inr ()" and links = "\<lambda>i. (60000 * int i, Accepted)" and
        c = "service_config_of (stack_service_env (js ''eu-west-1'') (js ''video'')) (\<lambda>t. True)"]
    by (simp add: sample_process_def server_ok_def bound new_service_def Let_def case_prod_beta)
qed

lemma last_report_witness:
  "(case shutdown_process (service_config_of (stack_service_env (js ''eu-west-1'') (js ''video'')) (\<lambda>t. True))
        (\<lambda>i. (60000 * int i, Accepted)) (\<lambda>port. Inr ()) sample_process of
      (code, p', stopped, Some tm) \<Rightarrow>
        published srtp_transport tm = 100 \<and> reports serving_metric srtp_transport (last (tm_landed tm)) = [1]
    | _ \<Rightarrow> False)"
  using last_report [where p = sample_process and stackName = "js ''video''" and
      events = "[StartTraffic, Recorded srtp_transport 100]" and links = "\<lambda>i. (60000 * int i, Accepted)" and
      c = "service_config_of (stack_service_env (js ''eu-west-1'') (js ''video'')) (\<lambda>t. True)" and
      answers = "\<lambda>port. Inr ()" and transport = srtp_transport]
  by (simp add: sample_process_def js_Cons comp_def onTransition_def onSupervisorTransition_def recomputeServing_def
      setServing_def new_transport_def js_has_def Let_def case_prod_beta split: option.split_asm prod.split_asm)

end
