(* ===== verification/ResetFlow.thy ===== *)
theory ResetFlow
imports FloorReset KeyStore
begin

text \<open>
  The way of a floor from a signed request to a helper, through all the components it passes:
  \<open>SrtpFloorResetServer.ts\<close> accepts the request, \<open>SrtpTransport.ts\<close> adds the key's identity,
  \<open>StreamMetadataService.ts\<close> writes the row and, on whichever instance, reads it when a session is
  started, and \<open>SrtpPortSupervisor.ts\<close> and \<open>SrtpHelperProtocol.ts\<close> write it into the line the helper reads.

  Shown: what the reply names is what the next helper starts from, or more, until a newer key takes
  the row over.
\<close>

section \<open>The request\<close>

lemma reset_accepted:
  assumes "handle_reset hmac decode keyFor resetCall now req w = ((200, body), w')"
  obtains port timestamp floor where "path_port (nullish (rq_url req) []) = Some port" "0 \<le> floor" "floor \<le> max_floor"
    "body = JObj [(js ''port'', integer_value port), (js ''floor'', integer_value floor)]"
    "resetCall port timestamp floor w = (Inr ResetDone, w')"
proof -
  have "\<exists>port timestamp floor. path_port (nullish (rq_url req) []) = Some port \<and> 0 \<le> floor \<and> floor \<le> max_floor \<and>
      body = JObj [(js ''port'', integer_value port), (js ''floor'', integer_value floor)] \<and>
      resetCall port timestamp floor w = (Inr ResetDone, w')"
    using assms
    by (auto simp: handle_reset_def body_floor_def
      split: option.splits sum.splits prod.splits reset_result.splits jsval.splits jsnum.splits if_splits)
  then show ?thesis using that by blast
qed

lemma reset_call_row:
  assumes "reset_call send t clock port timestamp floor db = (Inr ResetDone, db')"
  obtains k where "keyForPort t port = Some k"
    "resetSrtpIndexFloor send port \<lparr>fr_requested_at = timestamp, fr_floor = floor, fr_ssrc = pk_ssrc k,
       fr_fingerprint = pk_fingerprint k, fr_generation = pk_generation k\<rparr> clock db = (Inr ResetDone, db')"
  using assms by (auto simp: reset_call_def resetFloor_def Let_def split: option.splits prod.splits)

context dynamo
begin

lemma reset_floor_kept:
  assumes "resetSrtpIndexFloor send p reset now db = (Inr ResetDone, db')"
    and "0 \<le> fr_floor reset" "fr_floor reset \<le> max_safe_integer"
  shows "floor_kept (fr_ssrc reset) (fr_fingerprint reset) (fr_generation reset) (fr_floor reset) (item_of db' p)"
proof -
  define it where "it = Some (updated p (reset_actions reset now) (item_of db p))"
  have "get it ''srtpIndex'' = Some (num (fr_floor reset))" "get it ''srtpIndexSsrc'' = Some (num (fr_ssrc reset))"
    "get it ''srtpIndexKeyFingerprint'' = Some (S (fr_fingerprint reset))" "generation_of it = Some (num (fr_generation reset))"
    using reset_row(2) [of p reset now "item_of db p"] by (simp_all add: it_def floor_fields_def generation_of_def)
  then have "floor_kept (fr_ssrc reset) (fr_fingerprint reset) (fr_generation reset) (fr_floor reset) it"
    using assms(2,3) by (simp add: floor_kept_def floor_of_num)
  then show ?thesis using reset_effect [OF assms(1)] by (auto simp: it_def)
qed

text \<open>A read after it, whatever other requests came in between.\<close>

lemma floor_read_back:
  assumes "floor_kept ssrc fp g f (item_of db p)" and "list_all ordinary ops"
    and "getSrtpIndexFloor send p ssrc fp (run_ops send ops db) = (Inr r, db')"
  shows "(case int_of (generation_of (item_of db' p)) of None \<Rightarrow> False | Some g' \<Rightarrow> g < g') \<or>
    (\<exists>f'. r = Some f' \<and> f \<le> f' \<and> 0 \<le> f' \<and> f' \<le> max_safe_integer)"
proof -
  have kept: "floor_kept ssrc fp g f (item_of (run_ops send ops db) p)" by (rule ops_keep [OF assms(2,1)])
  have read: "item_of db' = item_of (run_ops send ops db)" "r = floor_of (item_of (run_ops send ops db) p) ssrc fp"
    using read_effect(1) [OF assms(3)] by auto
  have "floor_of it ssrc fp = Some f' \<Longrightarrow> 0 \<le> f' \<and> f' \<le> max_safe_integer" for it f'
    using floor_of_SomeD [of it ssrc fp f'] floor_of_num [of it f' ssrc fp] by (auto split: if_splits)
  then show ?thesis using kept read by (auto simp: floor_kept_def split: option.splits)
qed

end

section \<open>The line the helper reads\<close>

lemma usable_key_printable:
  assumes "key_usable sha256_hex k"
  shows "code_units (pk_key_hex k) \<and> code_units (pk_cipher k) \<and> code_units (pk_auth k) \<and>
    0 \<le> pk_ssrc k \<and> pk_ssrc k \<le> max_uint32"
proof -
  have "hex_value c \<noteq> None \<Longrightarrow> c < 65536" for c by (auto simp: hex_value_def split: if_splits)
  then show ?thesis
    using assms by (auto simp: key_usable_def isValidSrtpKeyHex_def list_all_iff is_hex_def code_units_def
        supported_srtp_cipher_def supported_srtp_auth_def js_Cons)
qed

definition carry_ok :: "carry option \<Rightarrow> bool" where
  "carry_ok ca \<longleftrightarrow> (case ca of None \<Rightarrow> True | Some x \<Rightarrow> 0 \<le> ca_search_from x \<and> ca_search_from x \<le> uint32_max)"

lemma init_line:
  assumes "key_usable sha256_hex (c_key c)" "carry_ok ca" "0 \<le> f" "f \<le> max_safe_integer"
  shows "(case json_parse (serializeCommand (InitCommand (session_init c (Some f) ca))) of
      Some (JObj ob) \<Rightarrow> field ob ''floor'' = Some (integer_value f) \<and> field ob ''key'' = Some (JStr (pk_key_hex (c_key c)))
    | _ \<Rightarrow> False)"
proof -
  let ?command = "InitCommand (session_init c (Some f) ca)"
  have ok: "stringifiable (command_value ?command)"
    using usable_key_printable [OF assms(1)] assms(2-4)
    by (auto simp: session_init_def optional_member_def integer_value_def is_safe_integer_def max_safe_integer_def
        max_uint32_def uint32_max_def carry_ok_def carried_search_def helper_protocol_version_def code_units_def js_Cons
        split: option.splits)
  show ?thesis
    using json_round_trip [OF ok]
    by (simp add: serializeCommand_def session_init_def field_def optional_member_def js_Cons split: option.split)
qed

section \<open>Property\<close>

text \<open>C14. A floor reaches the helper. When a request was answered 200, its reply names a floor; after any
  requests of any instances, lost and retried ones included, other than a later reset of a floor (which
  may lower it, and is what it is for), a floor that is read
  under the port's key is at least that floor, and a session that is started with it sends its
  helper a line whose floor is the one that was read and whose key is the port's - unless
  the row has passed to a newer key. The key is one that the key store loads, and the search position that the
  session carries over, if any, is a number of 32 bits, as the parser of the helper's frames admits it.\<close>

theorem signed_floor_reaches_helper:
  assumes "dynamo send item_of"
    and "handle_reset hmac decode (keyForPort t) (reset_call send t clock) now req db = ((200, body), db1)"
    and "path_port (nullish (rq_url req) []) = Some port" "keyForPort t port = Some k" "key_usable sha256_hex k"
    and "list_all ordinary ops"
    and "getSrtpIndexFloor send port (pk_ssrc k) (pk_fingerprint k) (run_ops send ops db1) = (Inr r, db2)"
    and "c_key c = k" "carry_ok ca"
  shows "(case int_of (generation_of (item_of db2 port)) of None \<Rightarrow> False | Some g \<Rightarrow> pk_generation k < g) \<or>
    (\<exists>floor f. body = JObj [(js ''port'', integer_value port), (js ''floor'', integer_value floor)] \<and>
       r = Some f \<and> floor \<le> f \<and>
       (case json_parse (serializeCommand (InitCommand (session_init c r ca))) of
          Some (JObj ob) \<Rightarrow> field ob ''floor'' = Some (integer_value f) \<and> field ob ''key'' = Some (JStr (pk_key_hex k))
        | _ \<Rightarrow> False))"
proof -
  obtain timestamp floor where accepted: "0 \<le> floor" "floor \<le> max_floor"
    "body = JObj [(js ''port'', integer_value port), (js ''floor'', integer_value floor)]"
    "reset_call send t clock port timestamp floor db = (Inr ResetDone, db1)"
    using reset_accepted [OF assms(2)] assms(3) by (metis option.inject)
  obtain k' where k': "keyForPort t port = Some k'" and landed: "resetSrtpIndexFloor send port
      \<lparr>fr_requested_at = timestamp, fr_floor = floor, fr_ssrc = pk_ssrc k', fr_fingerprint = pk_fingerprint k',
       fr_generation = pk_generation k'\<rparr> clock db = (Inr ResetDone, db1)"
    by (rule reset_call_row [OF accepted(4)])
  have k: "k' = k" using k' assms(4) by simp
  have "floor_kept (pk_ssrc k) (pk_fingerprint k) (pk_generation k) floor (item_of db1 port)"
    using dynamo.reset_floor_kept [OF assms(1) landed] accepted(1,2)
    by (simp add: k max_floor_def max_safe_integer_def)
  from dynamo.floor_read_back [OF assms(1) this assms(6,7)] show ?thesis
    using init_line [of sha256_hex c ca] assms(5,8,9) accepted(3) by auto
qed

text \<open>An operator resets the port 6001 to 70000; then the port's lock is acquired and its floor read.\<close>

definition flow_hex :: js_string where "flow_hex = concat (replicate 30 (js ''ab''))"

definition flow_sha :: "js_string \<Rightarrow> js_string" where "flow_sha s = js ''0123456789abcdef''"

definition flow_key :: port_key where
  "flow_key = \<lparr>pk_key_hex = flow_hex, pk_ssrc = 7, pk_cipher = supported_srtp_cipher, pk_auth = supported_srtp_auth,
     pk_fingerprint = js ''0123456789abcdef'', pk_generation = 2000000001\<rparr>"

definition flow_transport :: transport where
  "flow_transport = new_transport\<lparr>tp_keys := [(6001, flow_key)]\<rparr>"

definition flow_request :: http_request where
  "flow_request = script_request sample_hmac (\<lambda>s. s) flow_hex 6001 70000 1700000000000"

definition flow_table :: table where
  "flow_table = snd (reset_call table_send flow_transport 1 6001 1700000000000 70000 free_table)"

lemma flow_key_usable: "key_usable flow_sha flow_key"
  by (simp add: key_usable_def flow_key_def flow_hex_def isValidSrtpKeyHex_def is_hex_def hex_value_def max_uint32_def
      srtp_generation_base_def keyFingerprint_def flow_sha_def js_Cons list_all_iff eval_nat_numeral)

lemma flow_transport_key: "keyForPort flow_transport 6001 = Some flow_key"
  by (simp add: keyForPort_def flow_transport_def)

lemma flow_done: "fst (reset_call table_send flow_transport 1 6001 1700000000000 70000 free_table) = Inr ResetDone"
  by (simp add: reset_call_def resetFloor_def flow_transport_key resetSrtpIndexFloor_def free_table_def
      table_item_def next_fault_def row_simps epoch_of_def generation_of_def Let_def)

lemma flow_accepted:
  "handle_reset sample_hmac (\<lambda>s. s) (keyForPort flow_transport) (reset_call table_send flow_transport 1)
     1700000030000 flow_request free_table =
   ((200, JObj [(js ''port'', integer_value 6001), (js ''floor'', integer_value 70000)]), flow_table)"
  using flow_done unfolding flow_request_def flow_table_def
  by (subst script_request_served [OF ascii_faithful_id, of _ _ _ flow_key])
    (auto simp: flow_transport_key max_floor_def max_clock_skew_ms_def flow_key_def js_Cons split: prod.split)

definition flow_after :: table where
  "flow_after = run_ops table_send [AcquireOp 6001 (js ''a'') 2 2] flow_table"

lemma flow_row:
  "faults flow_after = []" "floor_of (table_item flow_after 6001) 7 (js ''0123456789abcdef'') = Some 70000"
  "int_of (generation_of (table_item flow_after 6001)) = Some 2000000001"
proof -
  let ?reset = "\<lparr>fr_requested_at = 1700000000000, fr_floor = 70000, fr_ssrc = 7,
    fr_fingerprint = js ''0123456789abcdef'', fr_generation = 2000000001\<rparr>"
  have table: "flow_table = table_write 6001 (updated 6001 (reset_actions ?reset 1) None) free_table"
    by (simp add: flow_table_def reset_call_def resetFloor_def flow_transport_key flow_key_def resetSrtpIndexFloor_def
        free_table_def table_item_def next_fault_def row_simps epoch_of_def generation_of_def Let_def)
  show "faults flow_after = []" "floor_of (table_item flow_after 6001) 7 (js ''0123456789abcdef'') = Some 70000"
    "int_of (generation_of (table_item flow_after 6001)) = Some 2000000001"
    by (simp_all add: flow_after_def run_ops_def table tryAcquireKinesisLock_def free_table_def table_item_def next_fault_def
        table_write_def table_skip_def row_simps may_acquire_def acquire_actions_def reset_actions_def updated_def key_item_def
        owner_of_def lease_of_def get_def generation_of_def floor_of_def num_def int_of_def is_safe_integer_def max_safe_integer_def
        Let_def)
qed

lemma flow_read:
  "getSrtpIndexFloor table_send 6001 7 (js ''0123456789abcdef'') flow_after = (Inr (Some 70000), flow_after)"
  using flow_row by (simp add: getSrtpIndexFloor_def next_fault_def table_skip_def)

lemma signed_floor_reaches_helper_witness:
  "(case json_parse (serializeCommand (InitCommand (session_init (sample_config\<lparr>c_key := flow_key\<rparr>) (Some 70000) None))) of
      Some (JObj ob) \<Rightarrow> field ob ''floor'' = Some (integer_value 70000) \<and> field ob ''key'' = Some (JStr flow_hex)
    | _ \<Rightarrow> False)"
proof -
  have port: "path_port (nullish (rq_url flow_request) []) = Some 6001"
    by (simp add: flow_request_def script_request_def path_of_port)
  have key: "pk_ssrc flow_key = 7" "pk_fingerprint flow_key = js ''0123456789abcdef''" "pk_key_hex flow_key = flow_hex"
    "pk_generation flow_key = 2000000001"
    by (simp_all add: flow_key_def)
  show ?thesis
    unfolding key(3) [symmetric]
    using signed_floor_reaches_helper [OF dynamo_table flow_accepted port flow_transport_key flow_key_usable,
        of "[AcquireOp 6001 (js ''a'') 2 2]" "Some 70000" flow_after "sample_config\<lparr>c_key := flow_key\<rparr>" None]
    by (simp add: key(1,2,4) flow_after_def [symmetric] flow_read flow_row carry_ok_def integer_value_def)
qed

end
