(* ===== verification/VideoSender.thy ===== *)
theory VideoSender
imports Json
begin

text \<open>
  The sender for the PutMedia API (\<open>backend/src/KinesisVideoSender.ts\<close>), which no other file of the
  program uses: the cached data endpoint, the signed request, and what becomes of the response -
  its acknowledgements, cut into lines as they come, or its error. The video service, the
  credentials, \<open>URL\<close>, the signer \<open>aws4\<close> and the decoding of UTF-8 are parameters; a response and
  the sockets are events. What is logged is kept, oldest first.

  Shown: the acknowledgements are those of the text that the chunks decode to one by one, wherever it is cut
  - of the whole response, if no character is cut; one
  is passed over exactly when the last one reported was of the same fragment and error less than
  a minute before; and an invalid endpoint is asked for anew.
\<close>

section \<open>Acknowledgements\<close>

definition error_ack_throttle_ms :: int where "error_ack_throttle_ms = 60000"

datatype sender_log =
    LogError "jsval option" "jsval option" "jsval option"
  | LogAck "jsval option" "jsval option" "jsval option"
  | LogFirstFragment "jsval option"
  | LogConnected
  | LogHttpError int js_string js_string
  | LogRequestError

record sender =
  dataEndpointUrl :: "js_string option"
  lastErrorAckKey :: "js_string option"
  lastErrorAckTime :: int
  putMediaConnectionLogged :: bool
  firstFragmentAckLogged :: bool
  sd_log :: "sender_log list"

definition new_sender :: sender where
  "new_sender = \<lparr>dataEndpointUrl = None, lastErrorAckKey = None, lastErrorAckTime = 0,
     putMediaConnectionLogged = False, firstFragmentAckLogged = False, sd_log = []\<rparr>"

definition sender_logs :: "sender_log \<Rightarrow> sender \<Rightarrow> sender" where
  "sender_logs l s = s\<lparr>sd_log := sd_log s @ [l]\<rparr>"

definition invalidateEndpoint :: "sender \<Rightarrow> sender" where
  "invalidateEndpoint s = s\<lparr>dataEndpointUrl := None\<rparr>"

text \<open>\<open>${value ?? ''}\<close>. What a value other than a string or an integer is printed as, if it can be
  printed at all, is the parameter \<open>show_value\<close>.\<close>

definition interpolated :: "(jsval \<Rightarrow> js_string outcome) \<Rightarrow> jsval option \<Rightarrow> js_string outcome" where
  "interpolated show_value v =
     (case v of
        None \<Rightarrow> Inr []
      | Some w \<Rightarrow>
          (case w of
             JNull \<Rightarrow> Inr []
           | JStr t \<Rightarrow> Inr t
           | JNum n \<Rightarrow> (case n of JInt i \<Rightarrow> (if \<bar>i\<bar> < 10 ^ 21 then Inr (int_string i) else show_value w) | _ \<Rightarrow> show_value w)
           | _ \<Rightarrow> show_value w))"

definition error_ack_key ::
  "(jsval \<Rightarrow> js_string outcome) \<Rightarrow> (js_string \<times> jsval) list \<Rightarrow> js_string outcome" where
  "error_ack_key show_value ack =
     (case interpolated show_value (field ack ''ErrorCode'') of
        Inl e \<Rightarrow> Inl e
      | Inr code \<Rightarrow>
          (case interpolated show_value (field ack ''FragmentTimecode'') of
             Inl e \<Rightarrow> Inl e
           | Inr timecode \<Rightarrow>
               (case interpolated show_value (field ack ''FragmentNumber'') of
                  Inl e \<Rightarrow> Inl e
                | Inr number \<Rightarrow> Inr (code @ js '':'' @ timecode @ js '':'' @ number))))"

definition is_repeat :: "js_string \<Rightarrow> int \<Rightarrow> sender \<Rightarrow> bool" where
  "is_repeat key now s \<longleftrightarrow> lastErrorAckKey s = Some key \<and> now - lastErrorAckTime s < error_ack_throttle_ms"

definition handle_error_ack :: "js_string \<Rightarrow> int \<Rightarrow> (js_string \<times> jsval) list \<Rightarrow> sender \<Rightarrow> sender" where
  "handle_error_ack key now ack s =
     (let s1 = (if is_repeat key now s then s
                else sender_logs (LogError (field ack ''ErrorId'') (field ack ''ErrorCode'') (field ack ''FragmentTimecode''))
                       (s\<lparr>lastErrorAckKey := Some key, lastErrorAckTime := now\<rparr>))
      in if field ack ''ErrorCode'' = Some (JStr (js ''InvalidEndpointException'')) then invalidateEndpoint s1 else s1)"

text \<open>\<open>handleAck\<close> on a record; the result is None where it throws.\<close>

definition handleAck ::
  "(jsval \<Rightarrow> js_string outcome) \<Rightarrow> int \<Rightarrow> (js_string \<times> jsval) list \<Rightarrow> sender \<Rightarrow> sender option" where
  "handleAck show_value now ack s =
     (let kind = field ack ''AckEventType'' in
      if kind = Some (JStr (js ''Error'')) then
        (case error_ack_key show_value ack of Inl e \<Rightarrow> None | Inr key \<Rightarrow> Some (handle_error_ack key now ack s))
      else if kind = Some (JStr (js ''Persisted'')) \<or> kind = Some (JStr (js ''Idle'')) then
        Some (sender_logs (LogAck kind (field ack ''FragmentTimecode'') (field ack ''FragmentNumber'')) s)
      else if \<not> firstFragmentAckLogged s \<and> (kind = Some (JStr (js ''Buffering'')) \<or> kind = Some (JStr (js ''Received''))) then
        Some (sender_logs (LogFirstFragment kind) (s\<lparr>firstFragmentAckLogged := True\<rparr>))
      else Some s)"

text \<open>One line of the response. What is no record has no \<open>AckEventType\<close>, and what throws - the parser,
  a \<open>null\<close>, a value that cannot be printed - is ignored.\<close>

definition ack_line :: "(jsval \<Rightarrow> js_string outcome) \<Rightarrow> int \<Rightarrow> js_string \<Rightarrow> sender \<Rightarrow> sender" where
  "ack_line show_value now line s =
     (let trimmed = js_trim line in
      if trimmed = [] then s
      else
        (case json_parse trimmed of
           Some (JObj ack) \<Rightarrow> (case handleAck show_value now ack s of None \<Rightarrow> s | Some s' \<Rightarrow> s')
         | _ \<Rightarrow> s))"

definition ack_lines :: "(jsval \<Rightarrow> js_string outcome) \<Rightarrow> int \<Rightarrow> js_string list \<Rightarrow> sender \<Rightarrow> sender" where
  "ack_lines show_value now lines s = fold (ack_line show_value now) lines s"

text \<open>The \<open>data\<close> listener: the line that is still open, and the sender.\<close>

definition ack_chunk ::
  "(nat list \<Rightarrow> js_string) \<Rightarrow> (jsval \<Rightarrow> js_string outcome) \<Rightarrow> int \<Rightarrow> nat list \<Rightarrow> js_string \<times> sender \<Rightarrow> js_string \<times> sender"
where
  "ack_chunk decode show_value now chunk bs =
     (let pieces = split_lines (fst bs @ decode chunk)
      in (last pieces, ack_lines show_value now (butlast pieces) (snd bs)))"

section \<open>The request\<close>

definition getPutMediaEndpoint ::
  "('w \<Rightarrow> js_string option outcome \<times> 'w) \<Rightarrow> sender \<Rightarrow> 'w \<Rightarrow> js_string outcome \<times> sender \<times> 'w" where
  "getPutMediaEndpoint get_data_endpoint s w =
     (if nullish (dataEndpointUrl s) [] \<noteq> [] then (Inr (nullish (dataEndpointUrl s) []), s, w)
      else
        (case get_data_endpoint w of
           (Inl e, w') \<Rightarrow> (Inl e, s, w')
         | (Inr endpoint, w') \<Rightarrow>
             (if nullish endpoint [] = [] then (Inl (js ''GetDataEndpoint did not return DataEndpoint''), s, w')
              else
                (let e = nullish endpoint [];
                     url = (if last e = 47 then e @ js ''putMedia'' else e @ js ''/putMedia'')
                 in (Inr url, s\<lparr>dataEndpointUrl := Some url\<rparr>, w')))))"

record signing_credentials =
  sg_accessKeyId :: js_string
  sg_secretAccessKey :: js_string
  sg_sessionToken :: "js_string option"

record put_request =
  rq_host :: js_string
  rq_path :: js_string
  rq_headers :: "(js_string \<times> js_string) list"

definition put_headers :: "js_string \<Rightarrow> int \<Rightarrow> (js_string \<times> js_string) list" where
  "put_headers streamName now =
     [(js ''x-amzn-stream-name'', streamName),
      (js ''x-amzn-producer-start-timestamp'', int_string now),
      (js ''x-amzn-fragment-timecode-type'', js ''RELATIVE''),
      (js ''Transfer-Encoding'', js ''chunked''),
      (js ''X-Amz-Content-Sha256'', js ''UNSIGNED-PAYLOAD'')]"

text \<open>An empty session token is left out of what is signed with.\<close>

definition sign_creds :: "signing_credentials \<Rightarrow> signing_credentials" where
  "sign_creds cr = (if sg_sessionToken cr = Some [] then cr\<lparr>sg_sessionToken := None\<rparr> else cr)"

text \<open>\<open>putMedia\<close> up to the request: its endpoint, the credentials and the signature. A URL is its host
  name, path and query.\<close>

definition put_media_request ::
  "('w \<Rightarrow> js_string option outcome \<times> 'w) \<Rightarrow> (js_string \<Rightarrow> (js_string \<times> js_string \<times> js_string) outcome) \<Rightarrow>
    ('w \<Rightarrow> signing_credentials outcome \<times> 'w) \<Rightarrow> (put_request \<Rightarrow> signing_credentials \<Rightarrow> put_request outcome) \<Rightarrow>
    js_string \<Rightarrow> int \<Rightarrow> sender \<Rightarrow> 'w \<Rightarrow> put_request outcome \<times> sender \<times> 'w"
where
  "put_media_request get_data_endpoint parse_url provide sign streamName now s w =
     (case getPutMediaEndpoint get_data_endpoint s w of
        (Inl e, s', w') \<Rightarrow> (Inl e, s', w')
      | (Inr url, s', w') \<Rightarrow>
          (case parse_url url of
             Inl e \<Rightarrow> (Inl e, s', w')
           | Inr (host, pathname, query) \<Rightarrow>
               (case provide w' of
                  (Inl e, w'') \<Rightarrow> (Inl e, s', w'')
                | (Inr cr, w'') \<Rightarrow>
                    (sign \<lparr>rq_host = host, rq_path = pathname @ query, rq_headers = put_headers streamName now\<rparr>
                       (sign_creds cr), s', w''))))"

section \<open>The response\<close>

text \<open>The promise is settled by whichever comes first; what comes later has no effect on it.\<close>

datatype response_event =
    Response int js_string "js_string option"
  | Data int "nat list"
  | Ended
  | ResponseFailed
  | RequestFailed
  | MediaFailed

datatype response_phase =
    Awaiting
  | Refused int js_string "js_string option" "nat list"
  | Reading js_string

record exchange =
  ex_phase :: response_phase
  ex_settled :: "unit outcome option"
  ex_sender :: sender

definition settle_promise :: "unit outcome \<Rightarrow> exchange \<Rightarrow> exchange" where
  "settle_promise r x = x\<lparr>ex_settled := (case ex_settled x of None \<Rightarrow> Some r | Some q \<Rightarrow> Some q)\<rparr>"

definition http_error_message :: "int \<Rightarrow> js_string \<Rightarrow> js_string option \<Rightarrow> js_string \<Rightarrow> js_string" where
  "http_error_message status message errorType body =
     js ''PutMedia failed: '' @ int_string status @ js '' '' @ message @
     (case errorType of None \<Rightarrow> [] | Some t \<Rightarrow> js '' ('' @ t @ js '')'') @
     (if body = [] then [] else js '' - '' @ take 200 body)"

fun exchange_step ::
  "(nat list \<Rightarrow> js_string) \<Rightarrow> (jsval \<Rightarrow> js_string outcome) \<Rightarrow> response_event \<Rightarrow> exchange \<Rightarrow> exchange"
where
  "exchange_step decode show_value (Response status message errorType) x =
     (if status \<noteq> 200 then x\<lparr>ex_phase := Refused status message errorType []\<rparr>
      else x\<lparr>ex_phase := Reading [],
             ex_sender := (if putMediaConnectionLogged (ex_sender x) then ex_sender x
               else sender_logs LogConnected ((ex_sender x)\<lparr>putMediaConnectionLogged := True\<rparr>))\<rparr>)"
| "exchange_step decode show_value (Data now chunk) x =
     (case ex_phase x of
        Awaiting \<Rightarrow> x
      | Refused status message errorType got \<Rightarrow> x\<lparr>ex_phase := Refused status message errorType (got @ chunk)\<rparr>
      | Reading buffer \<Rightarrow>
          (case ack_chunk decode show_value now chunk (buffer, ex_sender x) of
             (buffer', s) \<Rightarrow> x\<lparr>ex_phase := Reading buffer', ex_sender := s\<rparr>))"
| "exchange_step decode show_value Ended x =
     (case ex_phase x of
        Awaiting \<Rightarrow> x
      | Refused status message errorType got \<Rightarrow>
          settle_promise (Inl (http_error_message status message errorType (decode got)))
            (x\<lparr>ex_sender := sender_logs
                 (LogHttpError status (nullish errorType (js ''(none)'')) (take 500 (decode got))) (ex_sender x)\<rparr>)
      | Reading buffer \<Rightarrow> settle_promise (Inr ()) x)"
| "exchange_step decode show_value ResponseFailed x =
     (case ex_phase x of Reading buffer \<Rightarrow> settle_promise (Inl (js ''response'')) x | _ \<Rightarrow> x)"
| "exchange_step decode show_value RequestFailed x =
     settle_promise (Inl (js ''request'')) (x\<lparr>ex_sender := sender_logs LogRequestError (ex_sender x)\<rparr>)"
| "exchange_step decode show_value MediaFailed x = settle_promise (Inl (js ''media'')) x"

definition exchange_run ::
  "(nat list \<Rightarrow> js_string) \<Rightarrow> (jsval \<Rightarrow> js_string outcome) \<Rightarrow> sender \<Rightarrow> response_event list \<Rightarrow> exchange"
where
  "exchange_run decode show_value s events =
     fold (exchange_step decode show_value) events \<lparr>ex_phase = Awaiting, ex_settled = None, ex_sender = s\<rparr>"

section \<open>Properties\<close>

text \<open>The reference: the text with the time of each of its bytes, read byte by byte. A line counts from the
  time of the line feed that ends it.\<close>

fun timed_lines :: "js_string \<Rightarrow> (int \<times> nat) list \<Rightarrow> (int \<times> js_string) list \<times> js_string" where
  "timed_lines cur [] = ([], cur)"
| "timed_lines cur ((t, c) # cs) =
     (if c = 10 then (case timed_lines [] cs of (ls, r) \<Rightarrow> ((t, cur) # ls, r)) else timed_lines (cur @ [c]) cs)"

definition timed_text :: "(int \<times> nat list) list \<Rightarrow> (int \<times> nat) list" where
  "timed_text chunks = concat (map (\<lambda>(t, chunk). map (Pair t) chunk) chunks)"

definition timed_acks :: "(jsval \<Rightarrow> js_string outcome) \<Rightarrow> (int \<times> js_string) list \<Rightarrow> sender \<Rightarrow> sender" where
  "timed_acks show_value ls s = fold (\<lambda>(t, line). ack_line show_value t line) ls s"

lemma timed_lines_append:
  "timed_lines cur (xs @ ys) =
    (fst (timed_lines cur xs) @ fst (timed_lines (snd (timed_lines cur xs)) ys), snd (timed_lines (snd (timed_lines cur xs)) ys))"
  by (induction cur xs rule: timed_lines.induct) (simp_all add: case_prod_beta)

lemma timed_chunk:
  "10 \<notin> set cur \<Longrightarrow> timed_lines cur (map (Pair t) chunk) =
    (map (Pair t) (butlast (split_lines (cur @ chunk))), last (split_lines (cur @ chunk)))"
proof (induction chunk arbitrary: cur)
  case (Cons c cs)
  show ?case
  proof (cases "c = 10")
    case True
    then show ?thesis using Cons.IH [of "[]"] Cons.prems by (simp add: split_lines_line)
  next
    case False
    then show ?thesis using Cons.IH [of "cur @ [c]"] Cons.prems by simp
  qed
qed (simp add: split_lines_plain)

lemma timed_acks_append: "timed_acks sv (xs @ ys) s = timed_acks sv ys (timed_acks sv xs s)"
  by (simp add: timed_acks_def)

lemma timed_acks_chunk: "timed_acks sv (map (Pair t) ls) s = ack_lines sv t ls s"
  by (simp add: timed_acks_def ack_lines_def fold_map comp_def)

text \<open>The lines, without their times, are those that the text splits into.\<close>

lemma timed_lines_split:
  "10 \<notin> set cur \<Longrightarrow> map snd (fst (timed_lines cur cs)) = butlast (split_lines (cur @ map snd cs)) \<and>
    snd (timed_lines cur cs) = last (split_lines (cur @ map snd cs))"
proof (induction cur cs rule: timed_lines.induct)
  case (2 cur t c cs)
  then show ?case by (cases "c = 10") (simp_all add: split_lines_line case_prod_beta)
qed (simp add: split_lines_plain)

text \<open>The text that the chunks are taken for: each is decoded by itself.\<close>

definition decoded :: "(nat list \<Rightarrow> js_string) \<Rightarrow> (int \<times> nat list) list \<Rightarrow> (int \<times> js_string) list" where
  "decoded decode chunks = map (\<lambda>(t, chunk). (t, decode chunk)) chunks"

lemma decoded_text: "map snd (timed_text (decoded decode chunks)) = concat (map (decode \<circ> snd) chunks)"
  by (induction chunks) (auto simp: timed_text_def decoded_def comp_def)

lemma decoded_ascii:
  "ascii_identity decode \<Longrightarrow> list_all (\<lambda>(t, chunk). list_all (\<lambda>c. c < 128) chunk) chunks \<Longrightarrow>
    decode (concat (map snd chunks)) = concat (map (decode \<circ> snd) chunks) \<and>
    decode (concat (map snd chunks)) = concat (map snd chunks)"
proof -
  assume decode: "ascii_identity decode" and "list_all (\<lambda>(t, chunk). list_all (\<lambda>c. c < 128) chunk) chunks"
  then have "list_all (\<lambda>c. c < 128) (concat (map snd chunks)) \<and> map (decode \<circ> snd) chunks = map snd chunks"
    by (induction chunks) (auto simp: ascii_identity_def)
  then show ?thesis using decode unfolding ascii_identity_def by metis
qed

text \<open>The chunks leave what that text leaves: the lines it has, and the one it ends in.\<close>

lemma ack_chunks:
  "10 \<notin> set cur \<Longrightarrow>
    fold (\<lambda>(t, chunk). ack_chunk decode sv t chunk) chunks (cur, s) =
      (snd (timed_lines cur (timed_text (decoded decode chunks))),
       timed_acks sv (fst (timed_lines cur (timed_text (decoded decode chunks)))) s)"
proof (induction chunks arbitrary: cur s)
  case (Cons tc cs)
  obtain t c where tc: "tc = (t, c)" by fastforce
  show ?case
    using Cons.IH [of "last (split_lines (cur @ decode c))"] Cons.prems last_piece_plain [of "cur @ decode c"]
    by (simp add: tc timed_text_def decoded_def ack_chunk_def Let_def timed_lines_append timed_chunk timed_acks_append
        timed_acks_chunk)
qed (simp add: timed_text_def timed_acks_def decoded_def)

lemma data_chunks:
  "fold (exchange_step decode sv) (map (\<lambda>(t, chunk). Data t chunk) chunks)
      \<lparr>ex_phase = Reading cur, ex_settled = r, ex_sender = s\<rparr> =
    (case fold (\<lambda>(t, chunk). ack_chunk decode sv t chunk) chunks (cur, s) of
       (cur', s') \<Rightarrow> \<lparr>ex_phase = Reading cur', ex_settled = r, ex_sender = s'\<rparr>)"
proof (induction chunks arbitrary: cur s)
  case (Cons tc cs)
  obtain t c where tc: "tc = (t, c)" by fastforce
  obtain cur' s' where c: "ack_chunk decode sv t c (cur, s) = (cur', s')" by fastforce
  show ?case by (simp add: tc c Cons.IH)
qed simp

definition connected :: "sender \<Rightarrow> sender" where
  "connected s = ex_sender (exchange_step (\<lambda>b. b) (\<lambda>v. Inl []) (Response 200 [] None)
     \<lparr>ex_phase = Awaiting, ex_settled = None, ex_sender = s\<rparr>)"

text \<open>C38. Each chunk of a response is decoded by itself, and the acknowledgements are those of the text that this
  makes, each at the time of the line feed that
  ends it: in whatever places the network cuts, in the middle of a line or between lines,
  each complete line has been handled once and in order, and what is kept back is the line
  the text ends in. When no cut goes through a character, so that the parts decode to what the whole decodes to
  - always so for a response in ASCII - the lines are those of the response; a character that is
  cut in two is not read back as it was sent, since nothing keeps its first bytes for the next chunk.\<close>

theorem acks_any_chunking:
  "(case timed_lines [] (timed_text (decoded decode chunks)) of
      (ls, rest) \<Rightarrow>
        exchange_run decode show_value s
            (Response 200 message errorType # map (\<lambda>(t, chunk). Data t chunk) chunks) =
          \<lparr>ex_phase = Reading rest, ex_settled = None, ex_sender = timed_acks show_value ls (connected s)\<rparr> \<and>
        (let response = decode (concat (map snd chunks)) in
          (if response = concat (map (decode \<circ> snd) chunks)
           then map snd ls = butlast (split_lines response) \<and> rest = last (split_lines response) else True) \<and>
          (if ascii_identity decode \<and> list_all (\<lambda>(t, chunk). list_all (\<lambda>c. c < 128) chunk) chunks
           then response = concat (map (decode \<circ> snd) chunks) \<and> response = concat (map snd chunks) else True)))"
proof -
  have "fold (\<lambda>(t, chunk). ack_chunk decode show_value t chunk) chunks ([], connected s) =
      (snd (timed_lines [] (timed_text (decoded decode chunks))),
       timed_acks show_value (fst (timed_lines [] (timed_text (decoded decode chunks)))) (connected s))"
    by (rule ack_chunks) simp
  moreover have "exchange_run decode show_value s (Response 200 message errorType # map (\<lambda>(t, chunk). Data t chunk) chunks) =
      (case fold (\<lambda>(t, chunk). ack_chunk decode show_value t chunk) chunks ([], connected s) of
         (rest, s') \<Rightarrow> \<lparr>ex_phase = Reading rest, ex_settled = None, ex_sender = s'\<rparr>)"
    by (simp add: exchange_run_def connected_def data_chunks)
  ultimately show ?thesis
    using timed_lines_split [of "[]" "timed_text (decoded decode chunks)"] decoded_ascii [of decode chunks]
    by (auto simp: decoded_text Let_def split: prod.split)
qed

lemma acks_any_chunking_witness:
  "exchange_run (\<lambda>b. b) (\<lambda>v. Inl []) new_sender
     [Response 200 [] None, Data 5 (js ''{\"AckEvent''), Data 7 (js ''Type\":\"Idle\"}'' @ [10] @ js ''{'')] =
   \<lparr>ex_phase = Reading (js ''{''), ex_settled = None,
    ex_sender = ack_line (\<lambda>v. Inl []) 7 (js ''{\"AckEventType\":\"Idle\"}'') (connected new_sender)\<rparr>"
  using acks_any_chunking [where decode = "\<lambda>b. b" and chunks = "[(5, js ''{\"AckEvent''), (7, js ''Type\":\"Idle\"}'' @ [10] @ js ''{'')]" and
      show_value = "\<lambda>v. Inl []" and s = new_sender and message = "[]" and errorType = None]
  by (simp add: timed_text_def decoded_def timed_acks_def js_Cons)

text \<open>An error is reported unless the last one reported was the same less than a minute before; the
  report is what the next one is compared with, so two errors in turn are both reported each time.\<close>

lemma error_ack_reported:
  "error_ack_key sv ack = Inr key \<Longrightarrow> field ack ''AckEventType'' = Some (JStr (js ''Error'')) \<Longrightarrow>
    (case handleAck sv now ack s of
       None \<Rightarrow> False
     | Some s' \<Rightarrow>
         (if lastErrorAckKey s = Some key \<and> now - lastErrorAckTime s < 60000 then sd_log s' = sd_log s
          else length (sd_log s') = Suc (length (sd_log s)) \<and> lastErrorAckKey s' = Some key \<and> lastErrorAckTime s' = now) \<and>
         (if field ack ''ErrorCode'' = Some (JStr (js ''InvalidEndpointException'')) then dataEndpointUrl s' = None
          else dataEndpointUrl s' = dataEndpointUrl s))"
  by (simp add: handleAck_def handle_error_ack_def is_repeat_def error_ack_throttle_ms_def sender_logs_def
      invalidateEndpoint_def Let_def)

text \<open>After an invalid endpoint the service is asked; otherwise the endpoint in use is kept.\<close>

lemma endpoint_asked_iff:
  "getPutMediaEndpoint get (s\<lparr>dataEndpointUrl := None\<rparr>) w = (r, s', w') \<Longrightarrow>
    (case get w of
       (Inr (Some e), v) \<Rightarrow> w' = v \<and> (e \<noteq> [] \<longrightarrow> (case r of Inl _ \<Rightarrow> False | Inr url \<Rightarrow> dataEndpointUrl s' = Some url \<and>
           getPutMediaEndpoint get s' w' = (Inr url, s', w')))
     | (_, v) \<Rightarrow> w' = v \<and> threw r)"
  by (auto simp: getPutMediaEndpoint_def Let_def split: prod.splits sum.splits option.splits if_splits)

text \<open>Once settled the promise stays as it is, and it only resolves at the end of a response of 200.\<close>

lemma settled_stays:
  "ex_settled x = Some r \<Longrightarrow> ex_settled (exchange_step decode sv e x) = Some r"
  by (cases e) (auto simp: settle_promise_def split: response_phase.split prod.split)

lemma resolves_at_end:
  "ex_settled x = None \<Longrightarrow> ex_settled (exchange_step decode sv e x) = Some (Inr ()) \<longleftrightarrow>
    e = Ended \<and> (case ex_phase x of Reading _ \<Rightarrow> True | _ \<Rightarrow> False)"
  by (cases e) (auto simp: settle_promise_def split: response_phase.split prod.split)

end
