(* ===== verification/Permissions.thy ===== *)
theory Permissions
imports Deployment Lambdas
begin

text \<open>
  What the deployment (\<open>cdk/StreamingStack.ts\<close>) lets its parts do: the policy statements it writes out
  for the instances and for the restart function, and the log groups it creates. How the
  service decides on a request is the locale \<open>policies\<close>, its documented behaviour for statements that
  allow, with patterns whose only wildcard is a star at the end. What the managed policy and the
  CDK's grants add to the instances' role is the parameter \<open>attached\<close>.

  Shown: the instances may read the parameters of the SRTP keys the service asks for, and of all
  actions on parameters the stack's own statements allow only to read those below the stack's path; what the
  restart function calls is allowed to it; and none of these statements lets the instances
  do anything to the log groups that the stack creates.
\<close>

section \<open>Policy statements\<close>

record statement =
  ps_actions :: "js_string list"
  ps_resources :: "js_string list"

record stack_identity =
  si_name :: js_string
  si_partition :: js_string
  si_region :: js_string
  si_account :: js_string

definition kinesis_statement :: statement where
  "kinesis_statement =
     \<lparr>ps_actions = [js ''kinesisvideo:GetDataEndpoint'', js ''kinesisvideo:DescribeStream'', js ''kinesisvideo:PutMedia''],
      ps_resources = [js ''*'']\<rparr>"

definition parameters_statement :: "stack_identity \<Rightarrow> statement" where
  "parameters_statement si =
     \<lparr>ps_actions = [js ''ssm:GetParameter'', js ''ssm:GetParameters''],
      ps_resources = [js ''arn:'' @ si_partition si @ js '':ssm:'' @ si_region si @ js '':'' @ si_account si @
                      js '':parameter/'' @ si_name si @ js ''/srtp/*'']\<rparr>"

definition metrics_statement :: statement where
  "metrics_statement = \<lparr>ps_actions = [js ''cloudwatch:PutMetricData''], ps_resources = [js ''*'']\<rparr>"

definition logs_statement :: "stack_identity \<Rightarrow> statement" where
  "logs_statement si =
     \<lparr>ps_actions = [js ''logs:CreateLogGroup'', js ''logs:CreateLogStream'', js ''logs:PutLogEvents'', js ''logs:DescribeLogStreams''],
      ps_resources = [js ''arn:aws:logs:'' @ si_region si @ js '':'' @ si_account si @ js '':log-group:/video-streaming/*'']\<rparr>"

text \<open>The role of the instances: what is attached to it, then the statements that the stack writes out; and
  those of the restart function.\<close>

definition ec2_statements :: "stack_identity \<Rightarrow> statement list" where
  "ec2_statements si = [kinesis_statement, parameters_statement si, metrics_statement, logs_statement si]"

definition ec2Role :: "statement list \<Rightarrow> stack_identity \<Rightarrow> statement list" where
  "ec2Role attached si = attached @ ec2_statements si"

definition restart_role :: "statement list" where
  "restart_role =
     [\<lparr>ps_actions = [js ''autoscaling:DescribeAutoScalingGroups''], ps_resources = [js ''*'']\<rparr>,
      \<lparr>ps_actions = [js ''ec2:RebootInstances''], ps_resources = [js ''*'']\<rparr>]"

section \<open>Log groups\<close>

definition stack_log_groups :: "stack_identity \<Rightarrow> js_string list" where
  "stack_log_groups si = map (\<lambda>n. si_name si @ n) [js ''/application'', js ''/system'', js ''/cloud-init'']"

definition log_group_resource :: "stack_identity \<Rightarrow> js_string \<Rightarrow> js_string" where
  "log_group_resource si name =
     js ''arn:'' @ si_partition si @ js '':logs:'' @ si_region si @ js '':'' @ si_account si @ js '':log-group:'' @ name"

text \<open>A parameter's resource: its name follows, which starts with a slash.\<close>

definition parameter_resource :: "stack_identity \<Rightarrow> js_string \<Rightarrow> js_string" where
  "parameter_resource si name =
     js ''arn:'' @ si_partition si @ js '':ssm:'' @ si_region si @ js '':'' @ si_account si @ js '':parameter'' @ name"

section \<open>The service that decides\<close>

text \<open>Whether a pattern is one the behaviour below is stated for, and whether it matches.\<close>

definition simple_pattern :: "js_string \<Rightarrow> bool" where
  "simple_pattern pat \<longleftrightarrow> 42 \<notin> set (butlast pat) \<and> 63 \<notin> set pat"

definition pattern_matches :: "js_string \<Rightarrow> js_string \<Rightarrow> bool" where
  "pattern_matches pat resource \<longleftrightarrow>
     (if pat \<noteq> [] \<and> last pat = 42 then take (length pat - 1) resource = butlast pat else resource = pat)"

text \<open>Actions are compared without regard to case.\<close>

definition lower :: "js_string \<Rightarrow> js_string" where
  "lower = map (\<lambda>c. if 65 \<le> c \<and> c \<le> 90 then c + 32 else c)"

definition matches_statement :: "js_string \<Rightarrow> js_string \<Rightarrow> statement \<Rightarrow> bool" where
  "matches_statement action resource s \<longleftrightarrow>
     list_ex (\<lambda>pat. pattern_matches (lower pat) (lower action)) (ps_actions s) \<and>
     list_ex (\<lambda>pat. pattern_matches pat resource) (ps_resources s)"

definition simple_statement :: "statement \<Rightarrow> bool" where
  "simple_statement s \<longleftrightarrow> list_all simple_pattern (ps_actions s) \<and> list_all simple_pattern (ps_resources s)"

locale policies =
  fixes permits :: "statement list \<Rightarrow> js_string \<Rightarrow> js_string \<Rightarrow> bool"
  assumes permits_iff: "list_all simple_statement sts \<Longrightarrow>
      permits sts action resource \<longleftrightarrow> list_ex (matches_statement action resource) sts"

definition permits_simply :: "statement list \<Rightarrow> js_string \<Rightarrow> js_string \<Rightarrow> bool" where
  "permits_simply sts action resource \<longleftrightarrow> list_ex (matches_statement action resource) sts"

interpretation simple: policies permits_simply
  by unfold_locales (simp add: permits_simply_def)

lemma policies_simple: "policies permits_simply"
  by (rule simple.policies_axioms)

text \<open>The parts of an identity have no wildcards, no colons and no slashes.\<close>

definition plain :: "js_string \<Rightarrow> bool" where
  "plain s \<longleftrightarrow> 42 \<notin> set s \<and> 63 \<notin> set s \<and> 58 \<notin> set s \<and> 47 \<notin> set s"

definition plain_identity :: "stack_identity \<Rightarrow> bool" where
  "plain_identity si \<longleftrightarrow> plain (si_name si) \<and> plain (si_partition si) \<and> plain (si_region si) \<and> plain (si_account si)"

lemma star_pattern [simp]: "pattern_matches (p @ [42]) r \<longleftrightarrow> (\<exists>rest. r = p @ rest)"
  by (auto simp: pattern_matches_def) (metis append_take_drop_id)

lemma simple_star [simp]: "42 \<notin> set p \<Longrightarrow> 63 \<notin> set p \<Longrightarrow> simple_pattern (p @ [42])"
  by (simp add: simple_pattern_def)

lemma js_star: "js (s @ ''*'') = js s @ [42]"
  by (simp add: js_Cons)

lemma role_resources:
  "ps_resources (parameters_statement si) = [(js ''arn:'' @ si_partition si @ js '':ssm:'' @ si_region si @ js '':'' @
     si_account si @ js '':parameter/'' @ si_name si @ js ''/srtp/'') @ [42]]"
  "ps_resources (logs_statement si) = [(js ''arn:aws:logs:'' @ si_region si @ js '':'' @ si_account si @
     js '':log-group:/video-streaming/'') @ [42]]"
  "ps_resources kinesis_statement = [[] @ [42]]" "ps_resources metrics_statement = [[] @ [42]]"
  by (simp_all add: parameters_statement_def logs_statement_def kinesis_statement_def metrics_statement_def js_Cons)

lemma statement_matches:
  "list_ex (\<lambda>pat. pattern_matches pat r) (ps_resources (parameters_statement si)) \<longleftrightarrow>
     (\<exists>rest. r = (js ''arn:'' @ si_partition si @ js '':ssm:'' @ si_region si @ js '':'' @ si_account si @
        js '':parameter/'' @ si_name si @ js ''/srtp/'') @ rest)"
  "list_ex (\<lambda>pat. pattern_matches pat r) (ps_resources (logs_statement si)) \<longleftrightarrow>
     (\<exists>rest. r = (js ''arn:aws:logs:'' @ si_region si @ js '':'' @ si_account si @ js '':log-group:/video-streaming/'') @ rest)"
  by (simp_all only: role_resources list_ex_Nil_iff list_ex_Cons_iff star_pattern simp_thms)

text \<open>The service an action belongs to, and the actions of the stack's statements, by the service.\<close>

definition has_action :: "js_string \<Rightarrow> statement \<Rightarrow> bool" where
  "has_action action s \<longleftrightarrow> list_ex (\<lambda>pat. pattern_matches (lower pat) (lower action)) (ps_actions s)"

definition service_of :: "js_string \<Rightarrow> js_string" where
  "service_of action = takeWhile (\<lambda>ch. ch \<noteq> 58) (lower action)"

definition reads_parameters :: "js_string \<Rightarrow> bool" where
  "reads_parameters action \<longleftrightarrow> lower action \<in> {lower (js ''ssm:GetParameter''), lower (js ''ssm:GetParameters'')}"

lemma statement_actions:
  "has_action action kinesis_statement \<Longrightarrow> service_of action = js ''kinesisvideo''"
  "has_action action metrics_statement \<Longrightarrow> service_of action = js ''cloudwatch''"
  "has_action action (logs_statement si) \<Longrightarrow> service_of action = js ''logs''"
  "has_action action (parameters_statement si) \<longleftrightarrow> reads_parameters action"
  "reads_parameters action \<Longrightarrow> service_of action = js ''ssm''"
  by (auto simp: has_action_def service_of_def reads_parameters_def kinesis_statement_def parameters_statement_def
      metrics_statement_def logs_statement_def pattern_matches_def lower_def js_Cons)

lemma simple_statements:
  assumes "plain_identity si"
  shows "list_all simple_statement (ec2_statements si)"
proof -
  have "simple_pattern ((js ''arn:'' @ si_partition si @ js '':ssm:'' @ si_region si @ js '':'' @
     si_account si @ js '':parameter/'' @ si_name si @ js ''/srtp/'') @ [42])"
    "simple_pattern ((js ''arn:aws:logs:'' @ si_region si @ js '':'' @ si_account si @ js '':log-group:/video-streaming/'') @ [42])"
    "simple_pattern ([] @ [42])"
    by (rule simple_star; use assms in \<open>simp add: plain_identity_def plain_def js_Cons\<close>)+
  then have "list_all simple_pattern (ps_resources s)" if "s \<in> set (ec2_statements si)" for s
    using that by (auto simp: ec2_statements_def role_resources simp del: append_Nil append_assoc)
  moreover have "list_all (\<lambda>s. list_all simple_pattern (ps_actions s)) (ec2_statements si)"
    by (simp add: ec2_statements_def kinesis_statement_def parameters_statement_def metrics_statement_def
        logs_statement_def simple_pattern_def js_Cons)
  ultimately show ?thesis by (simp add: list_all_iff simple_statement_def)
qed

context policies
begin

lemma role_permits:
  assumes "plain_identity si" "list_all simple_statement attached"
  shows "permits (ec2Role attached si) action resource \<longleftrightarrow>
    permits attached action resource \<or> list_ex (matches_statement action resource) (ec2_statements si)"
  using assms simple_statements [OF assms(1)] by (simp add: ec2Role_def permits_iff)

lemma restart_permits:
  "action \<in> {js ''autoscaling:DescribeAutoScalingGroups'', js ''ec2:RebootInstances''} \<Longrightarrow> permits restart_role action resource"
  by (subst permits_iff)
    (auto simp: restart_role_def lower_def simple_statement_def simple_pattern_def matches_statement_def pattern_matches_def js_Cons)

lemma ssm_permitted:
  assumes "plain_identity si" "list_all simple_statement attached" and "service_of action = js ''ssm''"
  shows "permits (ec2Role attached si) action resource \<longleftrightarrow>
    permits attached action resource \<or>
    reads_parameters action \<and> (\<exists>rest. resource = parameter_resource si (js ''/'' @ si_name si @ js ''/srtp/'' @ rest))"
proof -
  have "\<not> has_action action kinesis_statement" "\<not> has_action action metrics_statement"
    "\<not> has_action action (logs_statement si)"
    using statement_actions(1-3) assms(3) by (auto simp: js_Cons)
  then show ?thesis
    unfolding role_permits [OF assms(1,2)] matches_statement_def has_action_def [symmetric]
    unfolding ec2_statements_def list_ex_Nil_iff list_ex_Cons_iff statement_actions(4) statement_matches
    by (simp add: parameter_resource_def js_Cons)
qed

lemma logs_permitted:
  assumes "plain_identity si" "list_all simple_statement attached" and "service_of action = js ''logs''"
    and "permits (ec2Role attached si) action resource" and "\<not> permits attached action resource"
  shows "\<exists>rest. resource =
       (js ''arn:aws:logs:'' @ si_region si @ js '':'' @ si_account si @ js '':log-group:/video-streaming/'') @ rest"
proof -
  have "\<not> has_action action kinesis_statement" "\<not> has_action action metrics_statement" "\<not> reads_parameters action"
    using statement_actions(1,2,5) assms(3) by (auto simp: js_Cons)
  then show ?thesis
    using assms(4,5) unfolding role_permits [OF assms(1,2)] matches_statement_def has_action_def [symmetric]
    unfolding ec2_statements_def list_ex_Nil_iff list_ex_Cons_iff statement_actions(4) statement_matches by blast
qed

lemma log_groups_unwritable:
  assumes "plain_identity si" "list_all simple_statement attached" "name \<in> set (stack_log_groups si)"
    and "service_of action = js ''logs''" and "permits (ec2Role attached si) action (log_group_resource si name)"
  shows "permits attached action (log_group_resource si name)"
proof (rule ccontr)
  assume "\<not> permits attached action (log_group_resource si name)"
  then obtain rest where eq: "log_group_resource si name =
      (js ''arn:aws:logs:'' @ si_region si @ js '':'' @ si_account si @ js '':log-group:/video-streaming/'') @ rest"
    using logs_permitted [OF assms(1,2,4,5)] by blast
  have parts: "58 \<notin> set (si_partition si)" "58 \<notin> set (si_name si)" "47 \<notin> set (si_name si)"
    using assms(1) by (simp_all add: plain_identity_def plain_def)
  have "si_partition si @ 58 # x = js ''aws'' @ 58 # y \<Longrightarrow> x = y" for x y
    using parts(1) split_at_separator [of 58 "si_partition si" "js ''aws''" x y] by (simp add: js_Cons)
  from this [of "js ''logs:'' @ si_region si @ js '':'' @ si_account si @ js '':log-group:'' @ name"
      "js ''logs:'' @ si_region si @ js '':'' @ si_account si @ js '':log-group:/video-streaming/'' @ rest"] eq
  have "name = js ''/video-streaming/'' @ rest" by (simp add: log_group_resource_def js_Cons)
  then show False
    using assms(3) parts(3) by (cases "si_name si") (auto simp: stack_log_groups_def js_Cons)
qed

end

lemma keys_of_stack:
  assumes "plain_identity si" and "47 \<notin> set other"
    and "parameter_resource si (js ''/'' @ other @ js ''/srtp/'' @ rest) =
      parameter_resource si (js ''/'' @ si_name si @ js ''/srtp/'' @ rest')"
  shows "other = si_name si"
  using assms split_at_separator [of 47 other "si_name si" "js ''srtp/'' @ rest" "js ''srtp/'' @ rest'"]
  by (simp add: parameter_resource_def plain_identity_def plain_def js_Cons)

section \<open>Properties\<close>

text \<open>C32. The instances may read the key parameter of every SRTP port the service is configured with. Of the
  actions of the parameter service - all of them, \<open>ssm:GetParametersByPath\<close> and the writes as
  well - the stack's own statements allow only \<open>GetParameter\<close> and \<open>GetParameters\<close>, and those
  on the parameters below the stack's path only, so none on the keys of a stack of another name:
  whatever else they may do, they may by what is attached to their role. The restart
  function may do the two things it does. And no action of the log service is allowed
  on a log group that the stack creates, unless by what is attached: the instances' statement is for the groups
  below \<open>/video-streaming/\<close>, and the stack's are named after the stack. The names of an identity
  have no wildcards, colons or slashes, and what is attached has no pattern but those the model of
  the deciding service covers.\<close>

theorem instance_permissions:
  assumes "policies permits" and "plain_identity si" and "list_all simple_statement attached"
  shows "(case srtpTransportConfigFromEnv (stack_transport_env (si_name si)) of
      Inr (Some ts) \<Rightarrow>
        list_all (\<lambda>port. permits (ec2Role attached si) (js ''ssm:GetParameters'')
          (parameter_resource si (parameterNameForPort (ts_prefix ts) port))) (ports_of (ts_range ts))
    | _ \<Rightarrow> False) \<and>
    (\<forall>action resource. service_of action = js ''ssm'' \<longrightarrow>
       (permits (ec2Role attached si) action resource \<longleftrightarrow>
          permits attached action resource \<or>
          reads_parameters action \<and>
            (\<exists>rest. resource = parameter_resource si (js ''/'' @ si_name si @ js ''/srtp/'' @ rest)))) \<and>
    (\<forall>action other rest. service_of action = js ''ssm'' \<and> 47 \<notin> set other \<and> other \<noteq> si_name si \<longrightarrow>
       permits (ec2Role attached si) action (parameter_resource si (js ''/'' @ other @ js ''/srtp/'' @ rest)) =
       permits attached action (parameter_resource si (js ''/'' @ other @ js ''/srtp/'' @ rest))) \<and>
    (\<forall>resource. permits restart_role (js ''autoscaling:DescribeAutoScalingGroups'') resource \<and>
       permits restart_role (js ''ec2:RebootInstances'') resource) \<and>
    (\<forall>action. service_of action = js ''logs'' \<longrightarrow>
       list_all (\<lambda>name. permits (ec2Role attached si) action (log_group_resource si name) =
         permits attached action (log_group_resource si name)) (stack_log_groups si))"
proof -
  note allowed = policies.ssm_permitted [OF assms]
  have "reads_parameters (js ''ssm:GetParameters'')" by (simp add: reads_parameters_def)
  moreover have "\<exists>rest. parameterNameForPort (js ''/'' @ si_name si @ js ''/srtp/port'') port =
      js ''/'' @ si_name si @ js ''/srtp/'' @ rest" for port
    by (simp add: parameterNameForPort_def js_Cons)
  ultimately have "permits (ec2Role attached si) (js ''ssm:GetParameters'')
      (parameter_resource si (parameterNameForPort (js ''/'' @ si_name si @ js ''/srtp/port'') port))" for port
    using allowed [OF statement_actions(5)] by metis
  moreover have "permits attached a r \<Longrightarrow> permits (ec2Role attached si) a r" for a r
    by (simp add: policies.role_permits [OF assms])
  ultimately show ?thesis
    using policies.log_groups_unwritable [OF assms] keys_of_stack [OF assms(2)]
    by (auto simp: stack_transport_config allowed policies.restart_permits [OF assms(1)] list_all_iff)
qed

definition sample_identity :: stack_identity where
  "sample_identity = \<lparr>si_name = js ''video-streaming-2026-05'', si_partition = js ''aws'',
     si_region = js ''eu-west-1'', si_account = js ''123456789012''\<rparr>"

lemma instance_permissions_witness:
  "permits_simply (ec2Role [] sample_identity) (js ''ssm:GetParameters'')
     (parameter_resource sample_identity (js ''/video-streaming-2026-05/srtp/port/6000/key'')) \<and>
   \<not> permits_simply (ec2Role [] sample_identity) (js ''ssm:GetParametersByPath'')
     (parameter_resource sample_identity (js ''/video-streaming-2026-05/srtp/'')) \<and>
   \<not> permits_simply (ec2Role [] sample_identity) (js ''logs:PutLogEvents'')
     (log_group_resource sample_identity (js ''video-streaming-2026-05/application''))"
proof -
  let ?key = "js ''/video-streaming-2026-05/srtp/port/6000/key''" let ?path = "js ''/video-streaming-2026-05/srtp/''"
  let ?group = "js ''video-streaming-2026-05/application''"
  have identity: "plain_identity sample_identity"
    by (simp add: plain_identity_def plain_def sample_identity_def js_Cons)
  have attached: "list_all simple_statement []" by simp
  note granted = instance_permissions [OF policies_simple identity attached]
  note ssm = granted [THEN conjunct2, THEN conjunct1, rule_format]
  note logs = granted [THEN conjunct2, THEN conjunct2, THEN conjunct2, THEN conjunct2, rule_format, unfolded list_all_iff, THEN bspec]
  have none: "permits_simply [] a r = False" for a r by (simp add: permits_simply_def)
  have names: "?key = js ''/'' @ si_name sample_identity @ js ''/srtp/'' @ js ''port/6000/key''"
    "?group \<in> set (stack_log_groups sample_identity)"
    by (simp_all add: stack_log_groups_def sample_identity_def js_Cons)
  have actions: "service_of (js ''ssm:GetParameters'') = js ''ssm''" "service_of (js ''logs:PutLogEvents'') = js ''logs''"
    "service_of (js ''ssm:GetParametersByPath'') = js ''ssm''" "reads_parameters (js ''ssm:GetParameters'')"
    "\<not> reads_parameters (js ''ssm:GetParametersByPath'')"
    by (simp_all add: service_of_def reads_parameters_def lower_def js_Cons)
  have "permits_simply (ec2Role [] sample_identity) (js ''ssm:GetParameters'') (parameter_resource sample_identity ?key)"
    unfolding ssm [OF actions(1)] names(1) using actions(4) by blast
  moreover have "\<not> permits_simply (ec2Role [] sample_identity) (js ''ssm:GetParametersByPath'')
      (parameter_resource sample_identity ?path)"
    using ssm [OF actions(3)] actions(5) none by blast
  moreover have "\<not> permits_simply (ec2Role [] sample_identity) (js ''logs:PutLogEvents'')
      (log_group_resource sample_identity ?group)"
    using logs [OF actions(2) names(2)] none by blast
  ultimately show ?thesis by blast
qed

end
