(* ===== verification/Alarms.thy ===== *)
theory Alarms
imports Deployment Lambdas
begin

text \<open>
  What the deployment's alarms (\<open>cdk/StreamingStack.ts\<close>) say of the service, and what they set off. How
  an alarm is evaluated is the locale \<open>cloudwatch\<close>: its documented behaviour where the points of its
  periods are all there and where its whole range has none. How a sum of series treats a
  point that only some of them have is the parameter \<open>add_up\<close>, of which nothing is assumed there.

  Shown: with every stream of a transport in use, or none, the fleet is restarted exactly when a
  transport has been receiving more than a mebibyte a second for five minutes while nothing of
  it reached its streams; the serving alarms fire exactly when in each of five minutes an
  instance says that it does not serve; and if a sum has a point only where all its series have
  one, a single stream that is not in use restarts a fleet that is ingesting on the others.
\<close>

section \<open>The remaining alarm, and the topics\<close>

definition cpuAlarm :: "js_string \<Rightarrow> js_string \<Rightarrow> alarm" where
  "cpuAlarm stackName asgName =
     \<lparr>al_name = stackName @ js ''-HighCPUUsage'',
      al_source = OneMetric \<lparr>ms_namespace = js ''AWS/EC2'', ms_name = js ''CPUUtilization'',
                    ms_dimensions = [(js ''AutoScalingGroupName'', asgName)],
                    ms_statistic = js ''Average'', ms_minutes = 5\<rparr>,
      al_threshold = 80, al_periods = 2, al_comparison = GreaterThan, al_missing_breaches = False\<rparr>"

datatype topic = AlarmTopic | RestartIngestionTopic

definition ingest_fault_name :: "js_string \<Rightarrow> transport_alarms \<Rightarrow> js_string" where
  "ingest_fault_name stackName t = stackName @ js ''-UDP-Traffic-No-KVS-Ingestion-'' @ ta_label t"

definition restart_alarm_name :: "js_string \<Rightarrow> js_string" where
  "restart_alarm_name stackName = stackName @ js ''-UDP-Traffic-No-KVS-Ingestion''"

text \<open>What each alarm notifies. The legs of the composites notify nobody.\<close>

definition alarm_topics :: "js_string \<Rightarrow> js_string \<Rightarrow> (js_string \<times> topic list) list" where
  "alarm_topics stackName asgName =
     [(al_name (packetLossAlarm stackName), [AlarmTopic]), (al_name (cpuAlarm stackName asgName), [AlarmTopic])] @
     map (\<lambda>t. (al_name (notServingOn stackName t), [AlarmTopic])) transports @
     map (\<lambda>t. (ingest_fault_name stackName t, [AlarmTopic])) transports @
     [(restart_alarm_name stackName, [AlarmTopic, RestartIngestionTopic])]"

text \<open>The restart function is subscribed to its topic; the environment names the group.\<close>

definition notified ::
  "('w \<Rightarrow> js_string option list outcome \<times> 'w) \<Rightarrow> (js_string list \<Rightarrow> 'w \<Rightarrow> unit outcome \<times> 'w) \<Rightarrow>
    js_string \<Rightarrow> js_string \<Rightarrow> topic \<Rightarrow> 'w \<Rightarrow> 'w"
where
  "notified describe reboot asgName message topic w =
     (case topic of
        AlarmTopic \<Rightarrow> w
      | RestartIngestionTopic \<Rightarrow> snd (restart_handler describe reboot (Some asgName) (Some message) w))"

section \<open>The data of an alarm\<close>

text \<open>The statistic of a metric in each minute, the last one first; None when there is no sample.\<close>

type_synonym datapoints = "metric \<Rightarrow> nat \<Rightarrow> int option"

fun compares :: "comparison \<Rightarrow> int \<Rightarrow> int \<Rightarrow> bool" where
  "compares GreaterThan v threshold \<longleftrightarrow> threshold < v"
| "compares LessThan v threshold \<longleftrightarrow> v < threshold"
| "compares LessThanOrEqual v threshold \<longleftrightarrow> v \<le> threshold"

definition breaches :: "alarm \<Rightarrow> int \<Rightarrow> bool" where
  "breaches a v \<longleftrightarrow> compares (al_comparison a) v (al_threshold a)"

text \<open>The point an alarm looks at. Of the expressions only the sums that the stack builds have a meaning
  here.\<close>

definition source_point :: "(int option \<Rightarrow> int option \<Rightarrow> int option) \<Rightarrow> datapoints \<Rightarrow> alarm \<Rightarrow> nat \<Rightarrow> int option" where
  "source_point add_up d a k =
     (case al_source a of
        OneMetric m \<Rightarrow> d m k
      | Expression e ms \<Rightarrow>
          (if e = join (js ''+'') (map fst ms)
           then (case map (\<lambda>m. d (snd m) k) ms of [] \<Rightarrow> None | v # vs \<Rightarrow> foldl add_up v vs)
           else None))"

locale cloudwatch =
  fixes in_alarm :: "datapoints \<Rightarrow> alarm \<Rightarrow> bool"
    and evaluation_range :: "alarm \<Rightarrow> nat"
    and add_up :: "int option \<Rightarrow> int option \<Rightarrow> int option"
  assumes range_periods: "al_periods a \<le> evaluation_range a"
    and all_present: "list_all (\<lambda>k. source_point add_up d a k \<noteq> None) [0..<al_periods a] \<Longrightarrow>
      in_alarm d a \<longleftrightarrow> list_all (\<lambda>k. breaches a (the (source_point add_up d a k))) [0..<al_periods a]"
    and none_present: "0 < al_periods a \<Longrightarrow> list_all (\<lambda>k. source_point add_up d a k = None) [0..<evaluation_range a] \<Longrightarrow>
      in_alarm d a \<longleftrightarrow> al_missing_breaches a"
    and plus_values: "add_up (Some x) (Some y) = Some (x + y)"
    and plus_gaps: "add_up None None = None"

text \<open>Evaluators that behave so, over the periods alone: a missing point counts as it is said to. Of the
  sums, one has a point only where all its series have one, the other counts what is missing as 0.\<close>

definition evaluate :: "(int option \<Rightarrow> int option \<Rightarrow> int option) \<Rightarrow> datapoints \<Rightarrow> alarm \<Rightarrow> bool" where
  "evaluate add_up d a \<longleftrightarrow>
     list_all (\<lambda>k. case source_point add_up d a k of None \<Rightarrow> al_missing_breaches a | Some v \<Rightarrow> breaches a v)
       [0..<al_periods a]"

fun plus_where_all :: "int option \<Rightarrow> int option \<Rightarrow> int option" where
  "plus_where_all (Some x) (Some y) = Some (x + y)"
| "plus_where_all _ _ = None"

fun plus_where_any :: "int option \<Rightarrow> int option \<Rightarrow> int option" where
  "plus_where_any None None = None"
| "plus_where_any x y = Some (nullish x 0 + nullish y 0)"

lemma evaluate_law:
  assumes "\<And>x y. add_up (Some x) (Some y) = Some (x + y)" and "add_up None None = None"
  shows "cloudwatch (evaluate add_up) al_periods add_up"
proof
  show "evaluate add_up d a \<longleftrightarrow> list_all (\<lambda>k. breaches a (the (source_point add_up d a k))) [0..<al_periods a]"
    if "list_all (\<lambda>k. source_point add_up d a k \<noteq> None) [0..<al_periods a]" for d a
    using that by (auto simp: evaluate_def list_all_iff split: option.split)
  show "evaluate add_up d a \<longleftrightarrow> al_missing_breaches a"
    if "0 < al_periods a" "list_all (\<lambda>k. source_point add_up d a k = None) [0..<al_periods a]" for d a
    using that by (auto simp: evaluate_def list_all_iff)
qed (simp_all add: assms)

interpretation where_all: cloudwatch "evaluate plus_where_all" al_periods plus_where_all
  by (rule evaluate_law) simp_all

interpretation where_any: cloudwatch "evaluate plus_where_any" al_periods plus_where_any
  by (rule evaluate_law) simp_all

section \<open>What the service reports\<close>

text \<open>The requests of a minute, those of all instances, become a point: their sum, or the least of them.\<close>

definition minute_values :: "metric \<Rightarrow> metric_request list \<Rightarrow> int list" where
  "minute_values m rs = concat (map (metric_values m) rs)"

definition sum_point :: "int list \<Rightarrow> int option" where
  "sum_point vs = (if vs = [] then None else Some (sum_list vs))"

definition least_point :: "int list \<Rightarrow> int option" where
  "least_point vs = (if vs = [] then None else Some (fold min vs (hd vs)))"

definition collected :: "js_string \<Rightarrow> (nat \<Rightarrow> metric_request list) \<Rightarrow> datapoints \<Rightarrow> bool" where
  "collected stackName reqs d \<longleftrightarrow>
     list_all (\<lambda>t. \<forall>k.
       d (backendMetric stackName received_bytes_metric t (js ''Sum'')) k =
         sum_point (minute_values (backendMetric stackName received_bytes_metric t (js ''Sum'')) (reqs k)) \<and>
       d (backendMetric stackName serving_metric t (js ''Minimum'')) k =
         least_point (minute_values (backendMetric stackName serving_metric t (js ''Minimum'')) (reqs k))) transports"

text \<open>Every minute some instance has reported, and what was reported is what the service publishes.\<close>

definition reporting :: "js_string \<Rightarrow> (nat \<Rightarrow> metric_request list) \<Rightarrow> bool" where
  "reporting stackName reqs \<longleftrightarrow>
     list_all (\<lambda>k. reqs k \<noteq> [] \<and> list_all (whole_request stackName) (reqs k)) [0..<5]"

definition received_in :: "transport_alarms \<Rightarrow> metric_request list \<Rightarrow> int" where
  "received_in t rs = sum_list (map (\<lambda>r. sum_list (reports received_bytes_metric (ta_dimension t) r)) rs)"

definition someone_not_serving :: "transport_alarms \<Rightarrow> metric_request list \<Rightarrow> bool" where
  "someone_not_serving t rs \<longleftrightarrow> list_ex (\<lambda>r. reports serving_metric (ta_dimension t) r = [0]) rs"

definition reached_streams :: "js_string \<Rightarrow> datapoints \<Rightarrow> transport_alarms \<Rightarrow> nat \<Rightarrow> int" where
  "reached_streams stackName d t k =
     sum_list (map (\<lambda>port. nullish (d (incoming_metric stackName port) k) 0) (ta_ports t))"

text \<open>Every stream of the transport has a sample in each of the last minutes, or none has any.\<close>

definition in_use :: "js_string \<Rightarrow> datapoints \<Rightarrow> transport_alarms \<Rightarrow> bool" where
  "in_use stackName d t \<longleftrightarrow>
     list_all (\<lambda>port. list_all (\<lambda>k. d (incoming_metric stackName port) k \<noteq> None) [0..<5]) (ta_ports t)"

definition unused :: "js_string \<Rightarrow> datapoints \<Rightarrow> nat \<Rightarrow> int \<Rightarrow> bool" where
  "unused stackName d n port \<longleftrightarrow> list_all (\<lambda>k. d (incoming_metric stackName port) k = None) [0..<n]"

section \<open>Points\<close>

lemma metric_values_reports:
  "whole_request stackName r \<Longrightarrow>
    metric_values (backendMetric stackName name t statistic) r = reports name (ta_dimension t) r"
  by (simp add: whole_request_def metric_values_def backendMetric_def reports_def)

lemma minute_values_reports:
  "list_all (whole_request stackName) rs \<Longrightarrow>
    minute_values (backendMetric stackName name t statistic) rs = concat (map (reports name (ta_dimension t)) rs)"
  by (induction rs) (simp_all add: minute_values_def metric_values_reports)

lemma transport_dimensions: "t \<in> set transports \<Longrightarrow> ta_dimension t \<in> {unencrypted_transport, srtp_transport}"
  by (auto simp: transports_def)

lemma whole_reports:
  assumes "whole_request stackName r" and "t \<in> set transports"
  obtains n b where "reports received_bytes_metric (ta_dimension t) r = [n]"
    "reports serving_metric (ta_dimension t) r = [b]" "b = 0 \<or> b = 1"
  using assms transport_dimensions [OF assms(2)] that
  by (auto simp: whole_request_def split: list.splits)

lemma sum_concat: "sum_list (concat (map f rs)) = sum_list (map (\<lambda>r. sum_list (f r)) rs :: int list)"
  by (induction rs) simp_all

lemma fold_min: "fold min vs (v :: int) = Min (set (v # vs))"
  by (induction vs arbitrary: v) (simp_all, metis List.finite_set Min.insert Min_singleton empty_not_insert finite.insertI insert_not_empty min.commute min.left_commute)

lemma least_point_below:
  "list_all (\<lambda>v. v = 0 \<or> v = 1) vs \<Longrightarrow> vs \<noteq> [] \<Longrightarrow> \<exists>m. least_point vs = Some m \<and> (m < 1 \<longleftrightarrow> 0 \<in> set vs)"
proof -
  assume vs: "list_all (\<lambda>v. v = 0 \<or> v = 1) vs" "vs \<noteq> []"
  have "least_point vs = Some (Min (set vs))"
    using vs(2) by (simp add: least_point_def fold_min insert_absorb)
  moreover have "Min (set vs) < 1 \<longleftrightarrow> 0 \<in> set vs"
    using vs by (auto simp: list_all_iff Min_less_iff intro: bexI [where x = 0])
  ultimately show ?thesis by simp
qed

lemma sum_list_eq_0: "(\<And>x. x \<in> set xs \<Longrightarrow> f x = (0 :: int)) \<Longrightarrow> sum_list (map f xs) = 0"
  by (induction xs) simp_all

text \<open>A sum written out over its series.\<close>

definition added :: "(int option \<Rightarrow> int option \<Rightarrow> int option) \<Rightarrow> int option list \<Rightarrow> int option" where
  "added add_up vs = (case vs of [] \<Rightarrow> None | w # ws \<Rightarrow> foldl add_up w ws)"

lemma added_values:
  assumes "\<And>x y. add_up (Some x) (Some y) = Some (x + y)" and "xs \<noteq> []"
  shows "added add_up (map Some xs) = Some (sum_list xs)"
proof -
  have "foldl add_up (Some v) (map Some vs) = Some (v + sum_list vs)" for v vs
    by (induction vs arbitrary: v) (simp_all add: assms(1))
  then show ?thesis using assms(2) by (cases xs) (simp_all add: added_def)
qed

lemma added_gaps: "add_up None None = None \<Longrightarrow> added add_up (map (\<lambda>x. None) xs) = None"
proof -
  assume "add_up None None = None"
  then have "foldl add_up None (map (\<lambda>x. None) xs) = None" for xs :: "'a list" by (induction xs) simp_all
  then show ?thesis by (cases xs) (simp_all add: added_def)
qed

lemma added_absorbed:
  assumes "\<And>x. add_up x None = None" "\<And>x. add_up None x = None" and "None \<in> set vs"
  shows "added add_up vs = None"
proof -
  have none: "foldl add_up None vs = None" for vs by (induction vs) (simp_all add: assms(2))
  have "None \<in> set vs \<Longrightarrow> foldl add_up v vs = None" for v vs
    by (induction vs arbitrary: v) (auto simp: assms(1) none)
  then show ?thesis using assms(3) by (cases vs) (auto simp: added_def none)
qed

lemma map_zip_snd:
  "length xs = length ys \<Longrightarrow> map (\<lambda>m. f (snd m)) (zip xs (map g ys)) = map (\<lambda>y. f (g y)) ys"
  by (induction xs ys rule: list_induct2) simp_all

lemma ingestion_point:
  "source_point add_up d (noIngestionOn stackName t) k =
    added add_up (map (\<lambda>port. d (incoming_metric stackName port) k) (ta_ports t))"
proof -
  let ?ms = "zip (map summand [0..<length (ta_ports t)]) (map (incoming_metric stackName) (ta_ports t))"
  have "map fst ?ms = map summand [0..<length (ta_ports t)]" by (rule map_fst_zip) simp
  moreover have "map (\<lambda>m. d (snd m) k) ?ms = map (\<lambda>port. d (incoming_metric stackName port) k) (ta_ports t)"
    by (rule map_zip_snd) simp
  ultimately show ?thesis
    by (simp add: source_point_def noIngestionOn_def kvsIncomingSumFor_def added_def)
qed

lemma ten_streams: "t \<in> set transports \<Longrightarrow> ta_ports t \<noteq> []"
  by (auto simp: transports_def stack_ports)

lemma alarm_fields:
  "al_periods (trafficArrivingOn stackName t) = 5" "al_periods (notServingOn stackName t) = 5"
  "al_periods (noIngestionOn stackName t) = 5" "al_missing_breaches (noIngestionOn stackName t)"
  "source_point add_up d (trafficArrivingOn stackName t) k = d (backendMetric stackName received_bytes_metric t (js ''Sum'')) k"
  "source_point add_up d (notServingOn stackName t) k = d (backendMetric stackName serving_metric t (js ''Minimum'')) k"
  "breaches (trafficArrivingOn stackName t) v \<longleftrightarrow> 1024 * 1024 * 60 < v"
  "breaches (notServingOn stackName t) v \<longleftrightarrow> v < 1" "breaches (noIngestionOn stackName t) v \<longleftrightarrow> v \<le> 0"
  by (simp_all add: trafficArrivingOn_def notServingOn_def noIngestionOn_def source_point_def breaches_def)

lemma reported_points:
  assumes "collected stackName reqs d" "reporting stackName reqs" "t \<in> set transports" "k < 5"
  shows "d (backendMetric stackName received_bytes_metric t (js ''Sum'')) k = Some (received_in t (reqs k))"
    and "\<exists>m. d (backendMetric stackName serving_metric t (js ''Minimum'')) k = Some m \<and>
      (m < 1 \<longleftrightarrow> someone_not_serving t (reqs k))"
proof -
  have rs: "list_all (whole_request stackName) (reqs k)" "reqs k \<noteq> []"
    using assms(2,4) by (simp_all add: reporting_def list_all_iff)
  obtain r where r: "r \<in> set (reqs k)" using rs(2) by (cases "reqs k") auto
  have whole: "whole_request stackName r" if "r \<in> set (reqs k)" for r using rs(1) that by (simp add: list_all_iff)
  have one: "\<exists>n b. reports received_bytes_metric (ta_dimension t) r = [n] \<and>
      reports serving_metric (ta_dimension t) r = [b] \<and> (b = 0 \<or> b = 1)" if "r \<in> set (reqs k)" for r
    using whole_reports [OF whole [OF that] assms(3)] by metis
  let ?bytes = "concat (map (reports received_bytes_metric (ta_dimension t)) (reqs k))"
  let ?serving = "concat (map (reports serving_metric (ta_dimension t)) (reqs k))"
  obtain n b where "reports received_bytes_metric (ta_dimension t) r = [n]" "reports serving_metric (ta_dimension t) r = [b]"
    using one [OF r] by blast
  then have "n \<in> set ?bytes" "b \<in> set ?serving" using r by force+
  then have "?bytes \<noteq> []" "?serving \<noteq> []" by (force simp del: set_concat)+
  moreover have "list_all (\<lambda>v. v = 0 \<or> v = 1) ?serving"
    by (simp add: list_all_iff) (metis one empty_iff empty_set set_ConsD)
  moreover have "0 \<in> set ?serving \<longleftrightarrow> someone_not_serving t (reqs k)"
    by (simp add: someone_not_serving_def list_ex_iff) (metis one empty_iff empty_set list.set_intros(1) set_ConsD)
  moreover note least = least_point_below [of ?serving]
  ultimately show "d (backendMetric stackName received_bytes_metric t (js ''Sum'')) k = Some (received_in t (reqs k))"
    "\<exists>m. d (backendMetric stackName serving_metric t (js ''Minimum'')) k = Some m \<and>
      (m < 1 \<longleftrightarrow> someone_not_serving t (reqs k))"
    using assms(1,3) minute_values_reports [OF rs(1)]
    by (auto simp: collected_def list_all_iff sum_point_def received_in_def sum_concat)
qed

section \<open>When the alarms fire\<close>

context cloudwatch
begin

lemma traffic_alarm:
  assumes "collected stackName reqs d" "reporting stackName reqs" "t \<in> set transports"
  shows "in_alarm d (trafficArrivingOn stackName t) \<longleftrightarrow>
    list_all (\<lambda>k. 1024 * 1024 * 60 < received_in t (reqs k)) [0..<5]"
proof -
  note point = reported_points(1) [OF assms]
  show ?thesis
    by (subst all_present) (simp_all add: alarm_fields list_all_iff point)
qed

lemma serving_alarm:
  assumes "collected stackName reqs d" "reporting stackName reqs" "t \<in> set transports"
  shows "in_alarm d (notServingOn stackName t) \<longleftrightarrow> list_all (\<lambda>k. someone_not_serving t (reqs k)) [0..<5]"
proof -
  have point: "d (backendMetric stackName serving_metric t (js ''Minimum'')) k \<noteq> None \<and>
      (the (d (backendMetric stackName serving_metric t (js ''Minimum'')) k) < 1 \<longleftrightarrow> someone_not_serving t (reqs k))"
    if "k < 5" for k
    using reported_points(2) [OF assms that] by auto
  show ?thesis
    by (subst all_present) (use point in \<open>auto simp: alarm_fields list_all_iff\<close>)
qed

lemma used_ingestion_alarm:
  assumes "in_use stackName d t" "t \<in> set transports"
  shows "in_alarm d (noIngestionOn stackName t) \<longleftrightarrow>
    list_all (\<lambda>k. reached_streams stackName d t k \<le> 0) [0..<5]"
proof -
  have point: "source_point add_up d (noIngestionOn stackName t) k = Some (reached_streams stackName d t k)"
    if "k < 5" for k
  proof -
    let ?vs = "map (\<lambda>port. nullish (d (incoming_metric stackName port) k) 0) (ta_ports t)"
    have "map (\<lambda>port. d (incoming_metric stackName port) k) (ta_ports t) = map Some ?vs"
      using assms(1) that by (auto simp: in_use_def list_all_iff nullish_def split: option.split)
    moreover have "added add_up (map Some ?vs) = Some (sum_list ?vs)"
      by (rule added_values) (use plus_values ten_streams [OF assms(2)] in simp_all)
    ultimately show ?thesis by (simp only: ingestion_point reached_streams_def)
  qed
  show ?thesis
    by (subst all_present) (simp_all add: alarm_fields list_all_iff point)
qed

lemma unused_ingestion_alarm:
  assumes "list_all (unused stackName d (evaluation_range (noIngestionOn stackName t))) (ta_ports t)" "t \<in> set transports"
  shows "in_alarm d (noIngestionOn stackName t)" "k < 5 \<Longrightarrow> reached_streams stackName d t k = 0"
proof -
  have none: "map (\<lambda>port. d (incoming_metric stackName port) k) (ta_ports t) = map (\<lambda>port. None) (ta_ports t)"
    if "k < evaluation_range (noIngestionOn stackName t)" for k
    using assms(1) that by (simp add: unused_def list_all_iff)
  then have "source_point add_up d (noIngestionOn stackName t) k = None"
    if "k < evaluation_range (noIngestionOn stackName t)" for k
    using that added_gaps [of add_up, OF plus_gaps] by (simp add: ingestion_point none)
  then show "in_alarm d (noIngestionOn stackName t)"
    by (subst none_present) (simp_all add: alarm_fields list_all_iff)
  show "reached_streams stackName d t k = 0" if "k < 5"
  proof -
    have "k < evaluation_range (noIngestionOn stackName t)"
      using that range_periods [of "noIngestionOn stackName t"] by (simp add: alarm_fields)
    then have "list_all (\<lambda>port. nullish (d (incoming_metric stackName port) k) 0 = 0) (ta_ports t)"
      using assms(1) by (simp add: unused_def list_all_iff nullish_def)
    then show ?thesis by (simp add: reached_streams_def list_all_iff sum_list_eq_0)
  qed
qed

lemma fault_alarm:
  assumes "collected stackName reqs d" "reporting stackName reqs" "t \<in> set transports"
    and "in_use stackName d t \<or> list_all (unused stackName d (evaluation_range (noIngestionOn stackName t))) (ta_ports t)"
  shows "rule_holds (in_alarm d) (ingestFaultOn stackName t) \<longleftrightarrow>
    list_all (\<lambda>k. 1024 * 1024 * 60 < received_in t (reqs k) \<and> reached_streams stackName d t k \<le> 0) [0..<5]"
  using assms(4) traffic_alarm [OF assms(1-3)] used_ingestion_alarm [OF _ assms(3)] unused_ingestion_alarm [OF _ assms(3)]
  by (auto simp: ingestFaultOn_def list_all_iff)

lemma gap_alarm:
  assumes "\<And>x. add_up x None = None" "\<And>x. add_up None x = None"
    and "unused stackName d (evaluation_range (noIngestionOn stackName t)) port" "port \<in> set (ta_ports t)"
  shows "in_alarm d (noIngestionOn stackName t)"
proof -
  have "source_point add_up d (noIngestionOn stackName t) k = None"
    if "k < evaluation_range (noIngestionOn stackName t)" for k
  proof -
    have "None \<in> set (map (\<lambda>port. d (incoming_metric stackName port) k) (ta_ports t))"
      using assms(3,4) that by (auto simp: unused_def list_all_iff image_iff intro!: bexI [of _ port])
    then show ?thesis unfolding ingestion_point by (intro added_absorbed assms(1,2))
  qed
  then show ?thesis by (subst none_present) (simp_all add: alarm_fields list_all_iff)
qed

end

section \<open>Properties\<close>

lemma restart_rule:
  "rule_holds firing (udpTrafficNoIngestionAlarm stackName) \<longleftrightarrow> list_ex (\<lambda>t. rule_holds firing (ingestFaultOn stackName t)) transports"
  by (simp add: udpTrafficNoIngestionAlarm_def list_ex_iff)

text \<open>C31. When the fleet is restarted. With instances reporting, and each transport's streams all in use or
  none of them, the alarm behind the restart holds exactly if some transport has received more
  than a mebibyte a second in each of the last five minutes while nothing reached its streams in
  any of them; a transport's serving alarm fires exactly if in each of the five minutes some
  instance says that it does not serve; and of all the alarms, whose names differ from its own, only that
  behind the restart has what it notifies run the restart function, which the serving alarms thus never do.\<close>

theorem alarms_decide_restart:
  assumes "cloudwatch in_alarm evaluation_range add_up" "collected stackName reqs d" "reporting stackName reqs"
    and "list_all (\<lambda>t. in_use stackName d t \<or>
      list_all (unused stackName d (evaluation_range (noIngestionOn stackName t))) (ta_ports t)) transports"
  shows "(rule_holds (in_alarm d) (udpTrafficNoIngestionAlarm stackName) \<longleftrightarrow>
      list_ex (\<lambda>t. list_all (\<lambda>k. 1024 * 1024 * 60 < received_in t (reqs k) \<and> reached_streams stackName d t k \<le> 0)
        [0..<5]) transports) \<and>
    list_all (\<lambda>t. in_alarm d (notServingOn stackName t) \<longleftrightarrow>
      list_all (\<lambda>k. someone_not_serving t (reqs k)) [0..<5]) transports \<and>
    list_all (\<lambda>a. fold (notified describe reboot asgName message) (snd a) w =
      (if fst a = restart_alarm_name stackName then snd (restart_handler describe reboot (Some asgName) (Some message) w)
       else w)) (alarm_topics stackName asgName)"
proof (intro conjI)
  note fault = cloudwatch.fault_alarm [OF assms(1-3)]
  show "rule_holds (in_alarm d) (udpTrafficNoIngestionAlarm stackName) \<longleftrightarrow>
      list_ex (\<lambda>t. list_all (\<lambda>k. 1024 * 1024 * 60 < received_in t (reqs k) \<and> reached_streams stackName d t k \<le> 0)
        [0..<5]) transports"
    using assms(4) fault unfolding restart_rule list_ex_iff list_all_iff by blast
  show "list_all (\<lambda>t. in_alarm d (notServingOn stackName t) \<longleftrightarrow>
      list_all (\<lambda>k. someone_not_serving t (reqs k)) [0..<5]) transports"
    using cloudwatch.serving_alarm [OF assms(1-3)] by (simp add: list_all_iff)
  show "list_all (\<lambda>a. fold (notified describe reboot asgName message) (snd a) w =
      (if fst a = restart_alarm_name stackName then snd (restart_handler describe reboot (Some asgName) (Some message) w)
       else w)) (alarm_topics stackName asgName)"
    by (simp add: alarm_topics_def transports_def notified_def packetLossAlarm_def cpuAlarm_def notServingOn_def
        ingest_fault_name_def restart_alarm_name_def js_Cons)
qed

text \<open>Requests of an instance that receives 70 million bytes a minute in the clear and serves no SRTP; what
  becomes of them, and of a number of bytes a minute at the streams of some ports.\<close>

definition busy_request :: "js_string \<Rightarrow> metric_request" where
  "busy_request stackName = trafficMetricRequest
     [\<lparr>sa_transport = unencrypted_transport, sa_bytes = 70000000, sa_serving = 1, sa_at = 0\<rparr>,
      \<lparr>sa_transport = srtp_transport, sa_bytes = 0, sa_serving = 0, sa_at = 0\<rparr>] stackName"

definition collected_points :: "js_string \<Rightarrow> metric_request list \<Rightarrow> (int \<Rightarrow> int option) \<Rightarrow> datapoints" where
  "collected_points stackName rs reached m k =
     (case find (\<lambda>port. m = incoming_metric stackName port) (unencryptedPorts @ srtpPorts) of
        Some port \<Rightarrow> reached port
      | None \<Rightarrow> if ms_statistic m = js ''Sum'' then sum_point (minute_values m rs) else least_point (minute_values m rs))"

lemma busy_reports:
  "reports received_bytes_metric unencrypted_transport (busy_request stackName) = [70000000]"
  "reports received_bytes_metric srtp_transport (busy_request stackName) = [0]"
  "reports serving_metric unencrypted_transport (busy_request stackName) = [1]"
  "reports serving_metric srtp_transport (busy_request stackName) = [0]"
  by (simp_all add: busy_request_def reports_request samples_of_def unencrypted_transport_def srtp_transport_def)

lemma whole_busy: "whole_request stackName (busy_request stackName)"
  by (simp add: whole_request_def busy_reports) (simp add: busy_request_def trafficMetricRequest_def)

lemma busy_reporting: "reporting stackName (\<lambda>k. [busy_request stackName])"
  by (simp add: reporting_def whole_busy list_all_iff)

lemma stream_point:
  assumes "port \<in> set (unencryptedPorts @ srtpPorts)"
  shows "collected_points stackName rs reached (incoming_metric stackName port) k = reached port"
proof -
  have "find (\<lambda>q. incoming_metric stackName port = incoming_metric stackName q) (unencryptedPorts @ srtpPorts) = Some port"
    using assms by (auto simp: find_Some_iff2 incoming_metric_def stack_stream_def stack_ports)
  then show ?thesis by (simp add: collected_points_def)
qed

lemma collected_collected_points: "collected stackName (\<lambda>k. rs) (collected_points stackName rs reached)"
proof -
  have "find (\<lambda>q. backendMetric stackName n t st' = incoming_metric stackName q) ports = None" for n t st' ports
    by (auto simp: find_None_iff backendMetric_def incoming_metric_def trafficMetricNamespace_def js_Cons)
  then show ?thesis by (simp add: collected_def collected_points_def list_all_iff backendMetric_def js_Cons)
qed

lemma transport_streams: "t \<in> set transports \<Longrightarrow> set (ta_ports t) \<subseteq> set (unencryptedPorts @ srtpPorts)"
  by (auto simp: transports_def)

lemma busy_minutes:
  "t = transports ! 0 \<Longrightarrow> received_in t [busy_request stackName] = 70000000 \<and> \<not> someone_not_serving t [busy_request stackName]"
  "t = transports ! 1 \<Longrightarrow> received_in t [busy_request stackName] = 0 \<and> someone_not_serving t [busy_request stackName]"
  by (simp_all add: received_in_def someone_not_serving_def transports_def busy_reports)

lemma reached_by:
  "t \<in> set transports \<Longrightarrow> reached_streams stackName (collected_points stackName rs reached) t k =
    sum_list (map (\<lambda>port. nullish (reached port) 0) (ta_ports t))"
  unfolding reached_streams_def
  by (rule arg_cong [of _ _ sum_list], rule map_cong [OF refl]) (metis stream_point transport_streams subsetD)

lemma unused_by:
  "port \<in> set (unencryptedPorts @ srtpPorts) \<Longrightarrow> reached port = None \<Longrightarrow>
    unused stackName (collected_points stackName rs reached) n port"
  by (simp only: unused_def stream_point) (simp add: list_all_iff)

lemma alarms_decide_restart_witness:
  "rule_holds (evaluate plus_where_all (collected_points (js ''video'') [busy_request (js ''video'')] (\<lambda>_. None)))
     (udpTrafficNoIngestionAlarm (js ''video'')) \<and>
   \<not> evaluate plus_where_all (collected_points (js ''video'') [busy_request (js ''video'')] (\<lambda>_. None))
       (notServingOn (js ''video'') (transports ! 0)) \<and>
   evaluate plus_where_all (collected_points (js ''video'') [busy_request (js ''video'')] (\<lambda>_. None))
       (notServingOn (js ''video'') (transports ! 1))"
proof -
  let ?d = "collected_points (js ''video'') [busy_request (js ''video'')] (\<lambda>_. None)"
  have "list_all (\<lambda>t. in_use (js ''video'') ?d t \<or>
      list_all (unused (js ''video'') ?d (al_periods (noIngestionOn (js ''video'') t))) (ta_ports t)) transports"
    using transport_streams by (fastforce simp: list_all_iff intro!: unused_by)
  note rule = alarms_decide_restart [OF where_all.cloudwatch_axioms collected_collected_points busy_reporting this]
  note restart = conjunct1 [OF rule] and served = conjunct1 [OF conjunct2 [OF rule]]
  have two: "transports = [transports ! 0, transports ! 1]" by (simp add: transports_def)
  have "transports ! 0 \<in> set transports" by (simp add: transports_def)
  then have "reached_streams (js ''video'') ?d (transports ! 0) k = 0" for k by (simp add: reached_by sum_list_eq_0)
  then have "list_ex (\<lambda>t. list_all (\<lambda>k. 1024 * 1024 * 60 < received_in t [busy_request (js ''video'')] \<and>
      reached_streams (js ''video'') ?d t k \<le> 0) [0..<5]) transports"
    by (subst two) (simp add: busy_minutes list_all_iff)
  moreover have "list_all (\<lambda>t. evaluate plus_where_all ?d (notServingOn (js ''video'') t) \<longleftrightarrow>
      someone_not_serving t [busy_request (js ''video'')]) [transports ! 0, transports ! 1]"
    unfolding two [symmetric] using served by (simp add: list_all_iff exI [of _ 0])
  ultimately show ?thesis using restart by (simp add: busy_minutes)
qed

text \<open>A stream nobody uses. If a sum of series has no point where one of them has none, then a fleet
  that receives more than a mebibyte a second on a transport is restarted as soon as one of the
  transport's streams is not in use, whatever reaches the others; the alarm's own description has
  it that no data counts as 0.\<close>

theorem partial_use_restarts:
  assumes "cloudwatch in_alarm evaluation_range add_up" "\<And>x. add_up x None = None" "\<And>x. add_up None x = None"
    and "collected stackName reqs d" "reporting stackName reqs" "t \<in> set transports"
    and "list_all (\<lambda>k. 1024 * 1024 * 60 < received_in t (reqs k)) [0..<5]"
    and "port \<in> set (ta_ports t)" "unused stackName d (evaluation_range (noIngestionOn stackName t)) port"
  shows "rule_holds (in_alarm d) (udpTrafficNoIngestionAlarm stackName)"
proof -
  have "in_alarm d (trafficArrivingOn stackName t)"
    using cloudwatch.traffic_alarm [OF assms(1,4-6)] assms(7) by simp
  moreover have "in_alarm d (noIngestionOn stackName t)"
    by (rule cloudwatch.gap_alarm [OF assms(1-3,9,8)])
  ultimately show ?thesis
    using assms(6) by (auto simp: restart_rule ingestFaultOn_def list_ex_iff)
qed

lemma partial_use_restarts_witness:
  "(let d = collected_points (js ''video'') [busy_request (js ''video'')]
        (\<lambda>port. if port = 5009 then None else Some 7000000)
    in rule_holds (evaluate plus_where_all d) (udpTrafficNoIngestionAlarm (js ''video'')) \<and>
       reached_streams (js ''video'') d (transports ! 0) 0 = 63000000)"
proof -
  let ?reached = "\<lambda>port. if port = 5009 then None else Some 7000000 :: int option"
  let ?d = "collected_points (js ''video'') [busy_request (js ''video'')] ?reached"
  have t: "transports ! 0 \<in> set transports" and ports: "ta_ports (transports ! 0) = unencryptedPorts"
    by (simp_all add: transports_def)
  have "rule_holds (evaluate plus_where_all ?d) (udpTrafficNoIngestionAlarm (js ''video''))"
  proof (rule partial_use_restarts [OF where_all.cloudwatch_axioms _ _ collected_collected_points busy_reporting t])
    show "5009 \<in> set (ta_ports (transports ! 0))" by (simp add: ports stack_ports)
    show "unused (js ''video'') ?d (al_periods (noIngestionOn (js ''video'') (transports ! 0))) 5009"
      by (rule unused_by) (simp_all add: stack_ports)
    show "plus_where_all x None = None" for x by (cases x) simp_all
  qed (simp_all add: busy_minutes list_all_iff)
  moreover have "reached_streams (js ''video'') ?d (transports ! 0) 0 = 63000000"
    by (simp add: reached_by t ports stack_ports)
  ultimately show ?thesis by (simp add: Let_def)
qed

end
