(* ===== verification/Logger.thy ===== *)
theory Logger
imports HelperProtocol
begin

text \<open>
  The log lines of the service (\<open>backend/src/Logger.ts\<close>): an entry is an object of the level, the service,
  the time and the message into which the formatted context is spread, printed as JSON. A date is
  its milliseconds, and \<open>to_iso\<close> prints it. Values other than dates, errors and what JSON has do not
  occur; a key is not an array index, so an object keeps its keys as they come.

  Shown: an entry is one line, which is read back as the entry; its time is always the entry's own,
  and the context has its say over every other field - so a context with a \<open>message\<close>, as the
  pipeline and the supervisor pass, takes the place of the message that was logged.
\<close>

section \<open>Entries\<close>

datatype log_level = INFO | WARN | ERROR

fun level_name :: "log_level \<Rightarrow> js_string" where
  "level_name INFO = js ''INFO''"
| "level_name WARN = js ''WARN''"
| "level_name ERROR = js ''ERROR''"

record js_error =
  er_message :: js_string
  er_stack :: "js_string option"
  er_name :: js_string

text \<open>A value of a context; a plain one may be undefined.\<close>

datatype context_value = Plain "jsval option" | DateValue int | ErrorValue js_error

type_synonym log_context = "(js_string, context_value) js_map"

text \<open>The three fields of an error; a stack that is undefined is not printed.\<close>

definition error_fields :: "js_error \<Rightarrow> jsval" where
  "error_fields e =
     JObj ([(js ''message'', JStr (er_message e))] @
           (case er_stack e of None \<Rightarrow> [] | Some s \<Rightarrow> [(js ''stack'', JStr s)]) @
           [(js ''name'', JStr (er_name e))])"

fun format_value :: "(int \<Rightarrow> js_string) \<Rightarrow> context_value \<Rightarrow> jsval option" where
  "format_value to_iso (Plain v) = v"
| "format_value to_iso (DateValue t) = Some (JStr (to_iso t))"
| "format_value to_iso (ErrorValue e) = Some (error_fields e)"

definition formatContext :: "(int \<Rightarrow> js_string) \<Rightarrow> log_context \<Rightarrow> (js_string, jsval option) js_map" where
  "formatContext to_iso ctx =
     map (\<lambda>(key, v). (key, format_value to_iso v)) (filter (\<lambda>(key, v). key \<noteq> js ''timestamp'') ctx)"

text \<open>\<open>context?.timestamp ?? new Date()\<close>; a timestamp that is not a date has no \<open>toISOString\<close>.\<close>

definition entry_time :: "int \<Rightarrow> log_context \<Rightarrow> int outcome" where
  "entry_time now ctx =
     (case map_of ctx (js ''timestamp'') of
        None \<Rightarrow> Inr now
      | Some (DateValue t) \<Rightarrow> Inr t
      | Some (Plain v) \<Rightarrow>
          (if v = None \<or> v = Some JNull then Inr now else Inl (js ''timestamp.toISOString is not a function''))
      | Some (ErrorValue e) \<Rightarrow> Inl (js ''timestamp.toISOString is not a function''))"

text \<open>The spread of an object into another: a key that is there keeps its place.\<close>

definition spread :: "(js_string, 'a) js_map \<Rightarrow> (js_string, 'a) js_map \<Rightarrow> (js_string, 'a) js_map" where
  "spread ob added = fold (\<lambda>(key, v). AList.update key v) added ob"

definition log_entry ::
  "js_string \<Rightarrow> (int \<Rightarrow> js_string) \<Rightarrow> log_level \<Rightarrow> js_string \<Rightarrow> int \<Rightarrow> log_context \<Rightarrow> (js_string, jsval option) js_map"
where
  "log_entry serviceName to_iso level message t ctx =
     spread
       [(js ''level'', Some (JStr (level_name level))), (js ''service'', Some (JStr serviceName)),
        (js ''timestamp'', Some (JStr (to_iso t))), (js ''message'', Some (JStr message))]
       (formatContext to_iso ctx)"

text \<open>What is undefined is not printed.\<close>

definition defined_fields :: "(js_string, jsval option) js_map \<Rightarrow> (js_string \<times> jsval) list" where
  "defined_fields ob = List.map_filter (\<lambda>(key, v). map_option (Pair key) v) ob"

text \<open>\<open>log\<close>: the console method that is called, and the line.\<close>

definition log_line ::
  "js_string \<Rightarrow> (int \<Rightarrow> js_string) \<Rightarrow> int \<Rightarrow> log_level \<Rightarrow> js_string \<Rightarrow> log_context option \<Rightarrow> (log_level \<times> js_string) outcome"
where
  "log_line serviceName to_iso now level message ctx =
     (case entry_time now (nullish ctx []) of
        Inl e \<Rightarrow> Inl e
      | Inr t \<Rightarrow>
          Inr (level, json_text (JObj (defined_fields (log_entry serviceName to_iso level message t (nullish ctx []))))))"

definition info :: "js_string \<Rightarrow> (int \<Rightarrow> js_string) \<Rightarrow> int \<Rightarrow> js_string \<Rightarrow> log_context option \<Rightarrow> (log_level \<times> js_string) outcome" where
  "info serviceName to_iso now message ctx = log_line serviceName to_iso now INFO message ctx"

definition warn :: "js_string \<Rightarrow> (int \<Rightarrow> js_string) \<Rightarrow> int \<Rightarrow> js_string \<Rightarrow> log_context option \<Rightarrow> (log_level \<times> js_string) outcome" where
  "warn serviceName to_iso now message ctx = log_line serviceName to_iso now WARN message ctx"

definition log_error ::
  "js_string \<Rightarrow> (int \<Rightarrow> js_string) \<Rightarrow> int \<Rightarrow> js_string \<Rightarrow> js_error option \<Rightarrow> log_context option \<Rightarrow> (log_level \<times> js_string) outcome"
where
  "log_error serviceName to_iso now message error ctx =
     log_line serviceName to_iso now ERROR message
       (case error of
          None \<Rightarrow> ctx
        | Some e \<Rightarrow> Some (spread (nullish ctx []) [(js ''error'', Plain (Some (error_fields e)))]))"

section \<open>Fields of an entry\<close>

lemma spread_get: "js_map_ok added \<Longrightarrow> map_of (spread ob added) k = (case map_of added k of None \<Rightarrow> map_of ob k | Some v \<Rightarrow> Some v)"
proof (induction added arbitrary: ob)
  case (Cons x added)
  obtain j v where x: "x = (j, v)" by fastforce
  have "js_map_ok added" "map_of added j = None" using Cons.prems by (auto simp: x js_map_ok_def js_keys_def map_of_eq_None_iff)
  with Cons.IH [of "AList.update j v ob"] show ?case
    by (auto simp: spread_def x update_conv' split: option.splits)
qed (simp add: spread_def)

lemma spread_ok: "js_map_ok ob \<Longrightarrow> js_map_ok (spread ob added)"
  by (induction added arbitrary: ob) (auto simp: spread_def js_map_ok_def js_keys_def distinct_update)

lemma formatContext_get:
  "map_of (formatContext to_iso ctx) k =
    (if k = js ''timestamp'' then None else map_option (format_value to_iso) (map_of ctx k))"
  by (induction ctx) (auto simp: formatContext_def)

lemma formatContext_ok: "js_map_ok ctx \<Longrightarrow> js_map_ok (formatContext to_iso ctx)"
proof -
  have "map fst (formatContext to_iso ctx) = filter (\<lambda>k. k \<noteq> js ''timestamp'') (map fst ctx)"
    by (induction ctx) (auto simp: formatContext_def)
  then show "js_map_ok ctx \<Longrightarrow> js_map_ok (formatContext to_iso ctx)" by (simp add: js_map_ok_def js_keys_def)
qed

lemma defined_fields_get:
  "js_map_ok ob \<Longrightarrow> map_of (defined_fields ob) k = Option.bind (map_of ob k) (\<lambda>v. v)"
proof (induction ob)
  case (Cons x ob)
  obtain j v where x: "x = (j, v)" by fastforce
  have ok: "js_map_ok ob" "map_of ob j = None" using Cons.prems by (auto simp: x js_map_ok_def js_keys_def map_of_eq_None_iff)
  show ?case using Cons.IH [OF ok(1)] ok(2) by (cases v) (auto simp: x defined_fields_def List.map_filter_simps)
qed (simp add: defined_fields_def List.map_filter_simps)

lemma defined_fields_keys: "set (map fst (defined_fields ob)) \<subseteq> set (map fst ob)"
  by (induction ob) (auto simp: defined_fields_def List.map_filter_simps split: option.splits)

lemma defined_fields_distinct: "js_map_ok ob \<Longrightarrow> distinct (map fst (defined_fields ob))"
proof (induction ob)
  case (Cons x ob)
  then show ?case
    using defined_fields_keys [of ob]
    by (auto simp: defined_fields_def List.map_filter_simps js_map_ok_def js_keys_def split: option.splits prod.splits)
      (metis fst_conv image_subset_iff)
qed (simp add: defined_fields_def List.map_filter_simps)

text \<open>What an entry has under a key: the time of its own, what the context has, or what was logged.\<close>

definition logged :: "js_string \<Rightarrow> (int \<Rightarrow> js_string) \<Rightarrow> log_level \<Rightarrow> js_string \<Rightarrow> int \<Rightarrow> log_context \<Rightarrow> js_string \<Rightarrow> jsval option" where
  "logged serviceName to_iso level message t ctx key =
     (if key = js ''timestamp'' then Some (JStr (to_iso t))
      else
        (case map_of ctx key of
           Some v \<Rightarrow> format_value to_iso v
         | None \<Rightarrow>
             (if key = js ''level'' then Some (JStr (level_name level))
              else if key = js ''service'' then Some (JStr serviceName)
              else if key = js ''message'' then Some (JStr message) else None)))"

lemma entry_ok: "js_map_ok (log_entry serviceName to_iso level message t ctx)"
  by (simp add: log_entry_def spread_ok js_map_ok_def [of "[_, _, _, _]"] js_keys_def js_Cons)

lemma entry_get:
  "js_map_ok ctx \<Longrightarrow>
    map_of (defined_fields (log_entry serviceName to_iso level message t ctx)) key =
      logged serviceName to_iso level message t ctx key"
  by (simp add: defined_fields_get entry_ok)
    (auto simp: log_entry_def spread_get formatContext_ok formatContext_get logged_def js_Cons split: option.split)

section \<open>Properties\<close>

definition printable :: "(int \<Rightarrow> js_string) \<Rightarrow> js_string \<Rightarrow> js_string \<Rightarrow> log_context \<Rightarrow> bool" where
  "printable to_iso serviceName message ctx \<longleftrightarrow>
     js_map_ok ctx \<and> code_units serviceName \<and> code_units message \<and> (\<forall>t. code_units (to_iso t)) \<and>
     list_all (\<lambda>(key, v). code_units key \<and> (case format_value to_iso v of None \<Rightarrow> True | Some w \<Rightarrow> stringifiable w)) ctx"

lemma entry_stringifiable:
  assumes "printable to_iso serviceName message ctx"
  shows "stringifiable (JObj (defined_fields (log_entry serviceName to_iso level message t ctx)))"
proof -
  let ?ob = "defined_fields (log_entry serviceName to_iso level message t ctx)"
  have distinct: "distinct (map fst ?ob)" by (rule defined_fields_distinct) (rule entry_ok)
  have "code_units k \<and> stringifiable v" if "(k, v) \<in> set ?ob" for k v
  proof -
    have "map_of ?ob k = Some v" using that distinct by simp
    then have v: "logged serviceName to_iso level message t ctx k = Some v"
      using assms by (simp add: entry_get printable_def)
    have literal: "code_units (js ''timestamp'')" "code_units (js ''level'')" "code_units (js ''service'')"
      "code_units (js ''message'')" "code_units (level_name level)"
      by (simp_all add: code_units_def js_Cons, cases level, simp_all add: js_Cons)
    show ?thesis
    proof (cases "k \<noteq> js ''timestamp'' \<and> map_of ctx k \<noteq> None")
      case True
      then obtain c where c: "map_of ctx k = Some c" "format_value to_iso c = Some v" using v by (auto simp: logged_def)
      have "(k, c) \<in> set ctx" using c(1) by (rule map_of_SomeD)
      then show ?thesis using assms c(2) by (auto simp: printable_def list_all_iff)
    next
      case False
      then show ?thesis
        using v literal assms by (auto simp: logged_def printable_def split: if_splits)
    qed
  qed
  then show ?thesis using distinct by auto
qed

text \<open>C40. Every log line is one line of JSON, and read back it has the fields of its entry and no others. Its
  time is that of the entry; every other field - level, service and message included - is the
  context's where the context has it, also when it is undefined there, which drops the field. So
  what is logged with a \<open>message\<close> in its context loses the message it was logged with.\<close>

theorem log_line_read_back:
  assumes "printable to_iso serviceName message (nullish ctx [])"
  shows "(case log_line serviceName to_iso now level message ctx of
      Inl e \<Rightarrow> entry_time now (nullish ctx []) = Inl e
    | Inr (console, line) \<Rightarrow>
        console = level \<and> newline \<notin> set line \<and>
        (case (entry_time now (nullish ctx []), json_parse line) of
           (Inr t, Some (JObj ob)) \<Rightarrow> map_of ob = logged serviceName to_iso level message t (nullish ctx [])
         | _ \<Rightarrow> False))"
proof -
  have "js_map_ok (nullish ctx [])" using assms by (simp add: printable_def)
  then have "map_of (defined_fields (log_entry serviceName to_iso level message t (nullish ctx []))) =
      logged serviceName to_iso level message t (nullish ctx [])" for t
    by (intro ext entry_get)
  then show ?thesis
    using json_round_trip [OF entry_stringifiable [OF assms]] json_text_no_newline
    by (auto simp: log_line_def newline_def split: sum.split)
qed

definition sample_context :: log_context where
  "sample_context = [(js ''port'', Plain (Some (JNum (JInt 5000)))), (js ''message'', Plain (Some (JStr (js ''not negotiated''))))]"

lemma log_line_read_back_witness:
  "(case log_line (js ''KinesisIngestionPipeline'') (\<lambda>t. js ''2026-05-01T00:00:00.000Z'') 0 WARN (js ''GStreamer stderr'')
       (Some sample_context) of
      Inr (console, line) \<Rightarrow>
        (case json_parse line of
           Some (JObj ob) \<Rightarrow> map_of ob (js ''message'') = Some (JStr (js ''not negotiated''))
         | _ \<Rightarrow> False)
    | _ \<Rightarrow> False)"
proof -
  have ok: "printable (\<lambda>t. js ''2026-05-01T00:00:00.000Z'') (js ''KinesisIngestionPipeline'') (js ''GStreamer stderr'')
      (nullish (Some sample_context) [])"
    by (simp add: printable_def sample_context_def js_map_ok_def js_keys_def code_units_def is_safe_integer_def
        max_safe_integer_def js_Cons)
  have "entry_time 0 sample_context = Inr 0" by (simp add: entry_time_def sample_context_def js_Cons)
  moreover have "logged s i l m t sample_context (js ''message'') = Some (JStr (js ''not negotiated''))" for s i l m t
    by (simp add: logged_def sample_context_def js_Cons)
  ultimately show ?thesis
    using log_line_read_back [OF ok, of 0 WARN] by (auto split: sum.splits prod.splits option.splits jsval.splits)
qed

end
