(* ===== verification/Spec2Isabelle.thy ===== *)
theory Spec2Isabelle
imports HelperProtocol StreamMetadata Lambdas LockLease ChildExit KeyStore Supervisor Transport FloorReset Traffic Pipeline
  StreamState Ingest UdpListener Fleet
  Supervision Handover PacketMetrics Deployment StackFunctions Startup Shutdown ResetFlow VideoSender Network Permissions Alarms Logger
begin

text \<open>
  The verification development of the video ingest service of video.thingy.rocks: devices send
  video to UDP ports of a service on EC2, which feeds it to one Kinesis video stream per port. It
  models the TypeScript of \<open>backend/src\<close>, \<open>lambda\<close> and \<open>scripts\<close>, and what \<open>cdk/StreamingStack.ts\<close>
  says about the service.

  \<^bold>\<open>The program.\<close> Two transports share a process and a table of locks. The unencrypted ports are bound
  by the process itself: \<open>UDPListener\<close> hands every packet to \<open>index.ts\<close>, which keeps a buffer per
  port until enough bytes have come, asks \<open>StreamMetadataService\<close> for the port's lock, starts a
  GStreamer process through \<open>KinesisIngestionPipeline\<close> and writes the packets to it;
  \<open>StreamStateManager\<close> notices silence. Each SRTP port is left to a helper process, written in
  Python, that \<open>SrtpPortSupervisor\<close> spawns, reads frames from (\<open>SrtpHelperProtocol\<close>) and commands:
  it acquires the lock when authenticated traffic arrives, refreshes and releases it, and keeps the
  replay floor of the port's key in the table. \<open>SrtpTransport\<close> loads the keys (\<open>SrtpKeyStore\<close>) and
  owns the supervisors; \<open>SrtpFloorResetServer\<close> lowers a floor for an operator who signs the request
  (\<open>scripts/reset-srtp-floor.ts\<close>). \<open>TrafficMetrics\<close> publishes what each transport received. Several
  instances of the service run against one table, beside a scheduled function that gives up stale
  locks and one that reboots the instances on an alarm.

  \<^bold>\<open>The theories,\<close> each after those it uses:
  \<^item> \<open>Prelude\<close>: strings of UTF-16 code units, insertion-ordered maps, collections of facts.
  \<^item> \<open>Json\<close>: the runtime's numbers, \<open>JSON.parse\<close> and \<open>JSON.stringify\<close>, \<open>Number(text)\<close>. Shown: what is
    printed is read back; the parser's fuel is enough.
  \<^item> \<open>HelperProtocol\<close> (\<open>SrtpHelperProtocol.ts\<close>): commands, frames, the line splitter. Shown: any
    chunking of the output gives the messages of the whole; every message is in its ranges.
  \<^item> \<open>DynamoDb\<close>: the requests as syntax trees, and the locale \<open>dynamo\<close> of what the service is
    documented to do, interpreted on an executable table.
  \<^item> \<open>StreamMetadata\<close> (\<open>StreamMetadataService.ts\<close>): each request the code sends, with its conditions.
    Shown: a floor never falls except by a reset of its generation, and a reset fences the helpers
    that were started before it.
  \<^item> \<open>Lambdas\<close> (\<open>lambda/\<close>): the cleanup of stale locks and the restart on an alarm.
  \<^item> \<open>LockLease\<close>: the abstract lock protocol, with its operations as the locale \<open>lock_service\<close>; of any
    number of instances at most one has a fresh lease. \<open>dynamo\<close> is a sublocale, which discharges the
    laws for the code's own requests.
  \<^item> \<open>ChildExit\<close> (\<open>ChildProcessExit.ts\<close>): ending a child resolves exactly when it is gone.
  \<^item> \<open>KeyStore\<close> (\<open>SrtpKeyStore.ts\<close>): only usable keys of encrypted parameters are loaded.
  \<^item> \<open>Supervisor\<close> (\<open>SrtpPortSupervisor.ts\<close>): all handlers as functions on the state, the queue, and one
    invariant, \<open>sup_inv\<close>, over the state and the history of its calls, from which the lock, spawn
    and floor properties are read off.
  \<^item> \<open>Fleet\<close>: supervisors of one port on several instances over one table. Shown: every run is a run of
    \<open>LockLease\<close>'s protocol, so two instances produce at once only past the end of a lease; and a
    floor reset holds against every helper, of any instance, that was running when it landed.
  \<^item> \<open>Handover\<close>: the lease over time, on a locale that extends \<open>lock_service\<close>. Shown: an instance that goes
    on refreshing keeps the lock, and in a fleet the lock of one that is gone is taken over by one that waits.
  \<^item> \<open>Transport\<close> (\<open>SrtpTransport.ts\<close>): configuration, start, hooks, floor reset, stop.
  \<^item> \<open>Supervision\<close>: the transport with the supervisors it creates, whose hooks interleave. Shown: what it
    reports - the state of the ports, whether SRTP serves, the bytes received - is what they did, and
    the stop of \<open>Transport\<close> is that of all supervisors at rest.
  \<^item> \<open>FloorReset\<close> (\<open>SrtpFloorResetServer.ts\<close>, \<open>scripts/reset-srtp-floor.ts\<close>): both ends of the reset
    request. Shown: nothing is reset but what was signed, in its time, and at most once.
  \<^item> \<open>Traffic\<close> (\<open>TrafficMetrics.ts\<close>, \<open>TrafficMetricRequest.ts\<close>, \<open>TrafficMetricNames.ts\<close>): the publish
    chain. Shown: no recorded byte is lost from the count.
  \<^item> \<open>PacketMetrics\<close> (\<open>MetricsService.ts\<close>): the per-port metrics.
  \<^item> \<open>Pipeline\<close> (\<open>KinesisIngestionPipeline.ts\<close>): processes, concurrent starts, the reorder buffer. Shown: the
    buffer changes nothing, and which processes are left without an owner.
  \<^item> \<open>StreamState\<close> (\<open>StreamStateManager.ts\<close>): a port's stream starts, stops and resumes in turn.
  \<^item> \<open>Ingest\<close> (\<open>index.ts\<close>): the handlers of the unencrypted ports, cut at their awaits, over the two
    theories before. Shown: when nothing overlaps every byte reaches the pipeline; what is lost when
    packets overlap; and a shutdown leaves no pipeline.
  \<^item> \<open>UdpListener\<close> (\<open>UDPListener.ts\<close>): the retries of a bind, and the sockets that are open.
  \<^item> \<open>Startup\<close> (\<open>start\<close> in \<open>index.ts\<close>, \<open>InstanceId.ts\<close>): the composition at start; nothing that goes wrong
    with SRTP keeps the unencrypted ports from being served.
  \<^item> \<open>ResetFlow\<close>: the way of a floor from a signed request through server, transport, table and
    supervisor to the line a helper reads. Shown: the next helper starts from the floor the reply
    names, or from more.
  \<^item> \<open>Deployment\<close> (\<open>cdk/StreamingStack.ts\<close>, \<open>cdk/user-data.sh\<close>): ports, streams, environment and alarms,
    against what the service does with them.
  \<^item> \<open>StackFunctions\<close> (\<open>cdk/StreamingStack.ts\<close>): the deployed functions. Shown: which locks a run of the
    cleanup gives up, and that one runs within a minute after a lease is old.
  \<^item> \<open>Network\<close> (\<open>cdk/StreamingStack.ts\<close>, \<open>HealthServer.ts\<close>): security group, listeners, target groups, health
    checks. Shown: what can be reached from outside is what the service listens on, and every target group
    checks the health port.
  \<^item> \<open>Permissions\<close> (\<open>cdk/StreamingStack.ts\<close>): the policy statements and log groups. Shown: they let
    the instances read their keys and nobody else's, and not write to the stack's own log groups.
  \<^item> \<open>Alarms\<close> (\<open>cdk/StreamingStack.ts\<close>): what the alarms say of the reports of \<open>Traffic\<close>, and what they set
    off. Shown: when the fleet is restarted.
  \<^item> \<open>Shutdown\<close> (\<open>shutdown\<close> in \<open>index.ts\<close>): the composition at the end. Shown: no port is left
    open but by sockets replaced after an error, nothing is unpublished, but the last report of a service claims
    that SRTP serves.
  \<^item> \<open>VideoSender\<close> (\<open>KinesisVideoSender.ts\<close>): the PutMedia sender, which no other file uses. Shown: the
    acknowledgements do not depend on how the response is cut into chunks, unless a character is cut.
  \<^item> \<open>Logger\<close> (\<open>Logger.ts\<close>): the log lines. Shown: each is one line of JSON that is read back as its
    entry, in which the context overrides the message.

  \<^bold>\<open>State and operations.\<close> A class is a record with its fields; a method or handler is one function
  from state to state. An asynchronous function is cut at its awaits where others can run in
  between (\<open>Ingest\<close>, \<open>Pipeline\<close>, \<open>Traffic\<close>, \<open>ChildExit\<close>), and is one function where a queue serializes
  it (\<open>Supervisor\<close>). What a component calls is an argument: of the supervisor, the record \<open>config\<close>,
  whose answers may depend on every call before. Clocks are arguments, in milliseconds. A throw
  is \<open>Inl\<close>; \<open>undefined\<close> is \<open>None\<close>.

  \<^bold>\<open>Termination.\<close> Recursion is structural or has a measure, with two exceptions. The JSON parser has
  fuel, two units per code unit and two more, and \<open>parse_value_fuel\<close> shows that more changes
  nothing. The loops of the reorder buffer are \<open>partial_function\<close>, and
  \<open>reorder_buffer_transparent\<close> shows that they return for every buffer that occurs.

  \<^bold>\<open>Hypotheses.\<close> The properties of the table rest on \<open>dynamo\<close>: a request's condition and actions take
  effect together, on one row, and an answer may be lost. Those that compare instances assume
  that they read one clock. The hash, the HMAC and the decoding of UTF-8 are arguments, of which
  only what a statement names is assumed. The locale \<open>policies\<close> is how a permission is decided for
  statements that allow, and \<open>cloudwatch\<close> how an alarm is evaluated when the points of its
  periods are all there or all missing; both are interpreted on executable evaluators.

  \<^bold>\<open>Not modelled.\<close> Which lines the parts log: \<open>Logger\<close> has their form only, and no state depends on
  them. \<open>testing/\<close> and \<open>e2e\<close>: support of the tests. Of the stack: the launch template, the code
  bucket, the packaging of the functions and the outputs, which say nothing of the service; what the
  CDK's grants and managed policies contain; and the entry points in \<open>cdk/\<close>, which hand names to
  the CDK and run its commands. The helper \<open>srtp_port.py\<close> and the shell scripts are other languages; what the
  helper does is any sequence of frames, exits and errors.

  Further, where code of the modelled files is left out: a shutdown that arrives while the start
  still runs, and a second one, are not interleaved with it, and nothing else happens between the steps of a
  shutdown; the adapter between \<open>ChildProcess\<close> and the
  supervisor passes calls on; and the deadlines of the requests to the table are options of the client,
  whose failures are among the answers of \<open>dynamo\<close>.
\<close>

end
